(* ===== verification/Mq_Prelude.thy ===== *)
theory Mq_Prelude
  imports Main "HOL-Library.Word" "HOL-Library.Finite_Map" "HOL-Library.Countable"
begin

text \<open>
  Shared vocabulary of the development: the machine integers and byte strings of the Rust
  sources, panics as values, the mutex behind an \<open>Arc\<close> (with poisoning), the map-entry API,
  and the generic lemmas that the component theories use through the collections declared
  here.
\<close>

section \<open>Collections\<close>

named_theorems outcome_simps
  \<open>how sequencing, locking and checked arithmetic evaluate\<close>
named_theorems map_entry_simps
  \<open>how the entry API of the standard maps evaluates\<close>

section \<open>Machine types\<close>

type_synonym u8 = "8 word"
type_synonym u64 = "64 word"
type_synonym i32 = "32 word"

text \<open>\<open>Vec<u8>\<close> and \<open>bytes::Bytes\<close> are both represented by the bytes they hold.\<close>

type_synonym bytes = "u8 list"

text \<open>A call that fails returns \<open>Inl\<close> of the error, Rust's \<open>Err\<close>; \<open>Inr\<close> is \<open>Ok\<close>.\<close>

type_synonym ('e, 'a) result = "'e + 'a"

section \<open>Panics\<close>

datatype panic =
    ArithmeticOverflow
  | DivisionByZero
  | PoisonedLock
  | UnwrapFailed
  | ExpectFailed string
  | ExplicitPanic string

datatype 'a outcome = Panicked panic | Returned 'a

fun bind_outcome :: "'a outcome \<Rightarrow> ('a \<Rightarrow> 'b outcome) \<Rightarrow> 'b outcome" where
  "bind_outcome (Panicked p) f = Panicked p"
| "bind_outcome (Returned x) f = f x"

lemma bind_Returned:
  assumes "bind_outcome x f = Returned y" obtains z where "x = Returned z" "f z = Returned y"
  using assms by (cases x) auto

fun expect :: "string \<Rightarrow> ('e, 'a) result \<Rightarrow> 'a outcome" where
  "expect msg (Inl e) = Panicked (ExpectFailed msg)"
| "expect msg (Inr x) = Returned x"

text \<open>
  \<open>a + b\<close> on \<open>u64\<close>: with overflow checks (the dev profile) an overflow panics, without
  them (the release profile) it wraps. The flag is a parameter of everything that adds.
\<close>

definition add_u64 :: "bool \<Rightarrow> u64 \<Rightarrow> u64 \<Rightarrow> u64 outcome" where
  "add_u64 checks a b =
     (if checks \<and> 2 ^ 64 \<le> unat a + unat b then Panicked ArithmeticOverflow
      else Returned (a + b))"

lemma add_u64_unchecked [simp, outcome_simps]: "add_u64 False a b = Returned (a + b)"
  by (simp add: add_u64_def)

text \<open>\<open>u64::MAX\<close>.\<close>

definition u64_max :: u64 where
  "u64_max = 18446744073709551615"

lemma unat_u64_max: "unat u64_max = 2 ^ 64 - 1"
  by (simp add: u64_max_def)

lemma unat_u64_less: "unat (a :: u64) < 2 ^ 64"
  using unsigned_less [of a, where ?'a = nat] by simp

lemma u64_max_iff: "(2 ^ 64 \<le> unat (a :: u64) + 1) = (a = u64_max)"
proof
  assume "2 ^ 64 \<le> unat a + 1"
  with unat_u64_less [of a] have "unat a = unat u64_max"
    unfolding unat_u64_max by linarith
  then show "a = u64_max" by (rule unsigned_word_eqI)
next
  assume "a = u64_max"
  then show "2 ^ 64 \<le> unat a + 1" by (simp add: unat_u64_max)
qed

lemma unat_one_u64: "unat (1 :: u64) = 1"
  by simp

lemma add_u64_one:
  "add_u64 checks a 1 =
     (if checks \<and> a = u64_max then Panicked ArithmeticOverflow else Returned (a + 1))"
  unfolding add_u64_def unat_one_u64 u64_max_iff ..

lemma unat_Suc_u64: "a \<noteq> u64_max \<Longrightarrow> unat (a + 1) = Suc (unat a)"
  using unat_u64_less [of a] u64_max_iff [of a] by (simp add: unat_word_ariths)

lemma u64_Suc_le: "a \<noteq> u64_max \<Longrightarrow> (a + 1 \<le> b) = (a < b)"
  by (simp add: word_le_nat_alt word_less_nat_alt unat_Suc_u64 Suc_le_eq)

lemma u64_max_Suc: "u64_max + 1 = 0"
  by (simp add: u64_max_def)

lemma unat_of_nat_u64: "unat (of_nat n :: u64) = n mod 2 ^ 64"
  by (simp add: unat_of_nat)

lemma of_nat_u64_max_iff: "n < 2 ^ 64 \<Longrightarrow> (of_nat n = u64_max) = (n = 2 ^ 64 - 1)"
proof -
  assume n: "n < 2 ^ 64"
  then have "unat (of_nat n :: u64) = n"
    by (simp add: unat_of_nat_u64)
  then show ?thesis
    using n by (metis unat_u64_max unsigned_word_eqI)
qed

lemma of_nat_u64_inj: "\<lbrakk>i < 2 ^ 64; j < 2 ^ 64\<rbrakk> \<Longrightarrow> ((of_nat i :: u64) = of_nat j) = (i = j)"
  by (metis mod_less unat_of_nat_u64)

section \<open>Default values\<close>

text \<open>
  The trait \<open>Default\<close> is the library's class \<open>default\<close>: numbers are zero, options are
  \<open>None\<close>, containers are empty. A struct that derives the trait instantiates the class in
  the theory that declares it, field by field.
\<close>

instantiation word :: (len) default
begin

definition default_word :: "'a word" where
  "default_word = 0"

instance ..

end

instantiation option :: (type) default
begin

definition default_option :: "'a option" where
  "default_option = None"

instance ..

end

instantiation list :: (type) default
begin

definition default_list :: "'a list" where
  "default_list = []"

instance ..

end

instantiation fmap :: (type, type) default
begin

definition default_fmap :: "('a, 'b) fmap" where
  "default_fmap = fmempty"

instance ..

end

lemmas default_simps [simp] = default_word_def default_option_def default_list_def default_fmap_def

text \<open>\<open>Option::unwrap_or_default\<close>.\<close>

fun unwrap_or_default :: "'a :: default option \<Rightarrow> 'a" where
  "unwrap_or_default (Some x) = x"
| "unwrap_or_default None = default"

lemma unwrap_or_default_case: "unwrap_or_default x = (case x of None \<Rightarrow> default | Some v \<Rightarrow> v)"
  by (cases x) simp_all

section \<open>Shared state behind a mutex\<close>

text \<open>
  \<open>Arc<Mutex<T>>\<close> is an address into a heap of mutexes: cloning the \<open>Arc\<close> copies the
  address, so every holder sees the same value. A panic while the guard is held poisons the
  mutex, and every later \<open>lock().unwrap()\<close> panics.
\<close>

record 'a mutex =
  guarded :: 'a
  poisoned :: bool

type_synonym addr = nat
type_synonym 'a heap = "addr \<Rightarrow> 'a mutex"

abbreviation mutex_new :: "'a \<Rightarrow> 'a mutex" where
  "mutex_new v \<equiv> \<lparr>guarded = v, poisoned = False\<rparr>"

definition with_lock :: "'a heap \<Rightarrow> addr \<Rightarrow> ('a \<Rightarrow> 'b outcome \<times> 'a) \<Rightarrow> 'b outcome \<times> 'a heap" where
  "with_lock h a body =
     (if poisoned (h a) then (Panicked PoisonedLock, h)
      else case body (guarded (h a)) of
        (Panicked p, v) \<Rightarrow> (Panicked p, h(a := \<lparr>guarded = v, poisoned = True\<rparr>))
      | (Returned r, v) \<Rightarrow> (Returned r, h(a := mutex_new v)))"

lemma with_lock_poisoned [outcome_simps]:
  "poisoned (h a) \<Longrightarrow> with_lock h a body = (Panicked PoisonedLock, h)"
  by (simp add: with_lock_def)

lemma with_lock_Returned [outcome_simps]:
  "\<lbrakk>\<not> poisoned (h a); body (guarded (h a)) = (Returned r, v)\<rbrakk>
   \<Longrightarrow> with_lock h a body = (Returned r, h(a := mutex_new v))"
  by (simp add: with_lock_def)

lemma with_lock_Panicked [outcome_simps]:
  "\<lbrakk>\<not> poisoned (h a); body (guarded (h a)) = (Panicked p, v)\<rbrakk>
   \<Longrightarrow> with_lock h a body = (Panicked p, h(a := \<lparr>guarded = v, poisoned = True\<rparr>))"
  by (simp add: with_lock_def)

text \<open>Locking one mutex leaves every other one alone.\<close>

lemma with_lock_frame: "with_lock h a body = (r, h') \<Longrightarrow> b \<noteq> a \<Longrightarrow> h' b = h b"
  by (auto simp: with_lock_def split: if_splits prod.splits outcome.splits)

lemma mutex_new_guarded: "\<not> poisoned m \<Longrightarrow> mutex_new (guarded m) = m"
  by (cases m) simp

section \<open>The standard maps\<close>

text \<open>
  \<open>HashMap\<close> and \<open>BTreeMap\<close> are finite maps. \<open>or_insert m k d\<close> is
  \<open>m.entry(k).or_insert(d)\<close>: the value now under \<open>k\<close>, and the map.
\<close>

definition or_insert :: "('k, 'v) fmap \<Rightarrow> 'k \<Rightarrow> 'v \<Rightarrow> 'v \<times> ('k, 'v) fmap" where
  "or_insert m k d = (case fmlookup m k of Some v \<Rightarrow> (v, m) | None \<Rightarrow> (d, fmupd k d m))"

text \<open>\<open>m.entry(k).or_default()\<close>.\<close>

abbreviation or_default :: "('k, 'v :: default) fmap \<Rightarrow> 'k \<Rightarrow> 'v \<times> ('k, 'v) fmap" where
  "or_default m k \<equiv> or_insert m k default"

definition get_or :: "('k, 'v) fmap \<Rightarrow> 'k \<Rightarrow> 'v \<Rightarrow> 'v" where
  "get_or m k d = (case fmlookup m k of Some v \<Rightarrow> v | None \<Rightarrow> d)"

lemma fmupd_idle: "fmlookup m k = Some v \<Longrightarrow> fmupd k v m = m"
  by (rule fmap_ext) auto

lemma fmmap_fmupd: "fmmap f (fmupd k v m) = fmupd k (f v) (fmmap f m)"
  by (rule fmap_ext) simp

lemma fmmap_id [simp]: "fmmap id m = m"
  by (rule fmap_ext) (simp add: option.map_id)

lemma or_insert_value [simp, map_entry_simps]: "fst (or_insert m k d) = get_or m k d"
  by (simp add: or_insert_def get_or_def split: option.split)

text \<open>Writing through the reference that the entry API returns.\<close>

lemma or_insert_write [simp, map_entry_simps]: "fmupd k w (snd (or_insert m k d)) = fmupd k w m"
  by (simp add: or_insert_def split: option.split)

lemma get_or_fmupd [simp, map_entry_simps]:
  "get_or (fmupd k v m) k' d = (if k' = k then v else get_or m k' d)"
  by (simp add: get_or_def)

lemma get_or_fmmap: "f d = e \<Longrightarrow> get_or (fmmap f m) k e = f (get_or m k d)"
  by (auto simp: get_or_def split: option.split)

lemma get_or_Some: "fmlookup m k = Some v \<Longrightarrow> get_or m k d = v"
  by (simp add: get_or_def)

lemma get_or_None: "fmlookup m k = None \<Longrightarrow> get_or m k d = d"
  by (simp add: get_or_def)

lemma get_or_fmempty [simp]: "get_or fmempty k d = d"
  by (simp add: get_or_def)

lemmas get_or_simps = get_or_Some get_or_None

section \<open>Short runs\<close>

lemma two_steps: "\<lbrakk>r a b; r b c\<rbrakk> \<Longrightarrow> r\<^sup>*\<^sup>* a c"
  by auto

lemma three_steps: "\<lbrakk>r a b; r b c; r c d\<rbrakk> \<Longrightarrow> r\<^sup>*\<^sup>* a d"
  by (meson r_into_rtranclp rtranclp.rtrancl_into_rtrancl)

section \<open>Lists of results\<close>

text \<open>\<open>iter.map(f).collect::<Result<Vec<_>, _>>()\<close>: the first error wins.\<close>

fun collect_results :: "('a \<Rightarrow> ('e, 'b) result) \<Rightarrow> 'a list \<Rightarrow> ('e, 'b list) result" where
  "collect_results f [] = Inr []"
| "collect_results f (x # xs) =
     (case f x of Inl e \<Rightarrow> Inl e
      | Inr y \<Rightarrow> (case collect_results f xs of Inl e \<Rightarrow> Inl e | Inr ys \<Rightarrow> Inr (y # ys)))"

lemma collect_results_Inr_iff:
  "collect_results f xs = Inr ys \<longleftrightarrow> list_all2 (\<lambda>x y. f x = Inr y) xs ys"
proof (induction xs arbitrary: ys)
  case (Cons x xs)
  show ?case
  proof (cases "f x")
    case (Inr y)
    then show ?thesis
      by (cases "collect_results f xs"; cases ys) (auto simp flip: Cons.IH)
  qed (simp add: list_all2_Cons1)
qed auto

lemma collect_results_length: "collect_results f xs = Inr ys \<Longrightarrow> length ys = length xs"
  by (auto simp: collect_results_Inr_iff dest: list_all2_lengthD)

lemma list_all2_takeWhile:
  "\<lbrakk>list_all2 R xs ys; \<And>x y. R x y \<Longrightarrow> P x = Q y\<rbrakk> \<Longrightarrow> list_all2 R (takeWhile P xs) (takeWhile Q ys)"
  by (induction rule: list_all2_induct) auto

lemma list_all2_filter:
  "\<lbrakk>list_all2 R xs ys; \<And>x y. R x y \<Longrightarrow> P x = Q y\<rbrakk> \<Longrightarrow> list_all2 R (filter P xs) (filter Q ys)"
  by (induction rule: list_all2_induct) auto

lemma list_all2_last: "\<lbrakk>list_all2 R xs ys; xs \<noteq> []\<rbrakk> \<Longrightarrow> R (last xs) (last ys)"
  by (induction rule: list_all2_induct) auto

lemma list_all2_hd: "\<lbrakk>list_all2 R xs ys; xs \<noteq> []\<rbrakk> \<Longrightarrow> R (hd xs) (hd ys)"
  by (cases xs; cases ys) auto

lemma list_all2_empty: "list_all2 R xs ys \<Longrightarrow> (xs = []) = (ys = [])"
  by (cases xs; cases ys) auto

section \<open>Running a list of commands\<close>

text \<open>A command that panics stops the run; the state it left behind stays.\<close>

fun run_cmds ::
  "('st \<Rightarrow> 'c \<Rightarrow> 'r outcome \<times> 'st) \<Rightarrow> 'st \<Rightarrow> 'c list \<Rightarrow> 'r list outcome \<times> 'st" where
  "run_cmds f v [] = (Returned [], v)"
| "run_cmds f v (c # cs) =
     (case f v c of
        (Panicked p, v') \<Rightarrow> (Panicked p, v')
      | (Returned r, v') \<Rightarrow>
          (case run_cmds f v' cs of
             (Panicked p, v'') \<Rightarrow> (Panicked p, v'')
           | (Returned rs, v'') \<Rightarrow> (Returned (r # rs), v'')))"

lemma run_cmds_append:
  "run_cmds f v (cs @ ds) =
     (case run_cmds f v cs of
        (Panicked p, v') \<Rightarrow> (Panicked p, v')
      | (Returned rs, v') \<Rightarrow>
          (case run_cmds f v' ds of
             (Panicked p, v'') \<Rightarrow> (Panicked p, v'')
           | (Returned ss, v'') \<Rightarrow> (Returned (rs @ ss), v'')))"
  by (induction cs arbitrary: v) (auto split: prod.splits outcome.splits)

lemma run_cmds_length: "run_cmds f v cs = (Returned rs, v') \<Longrightarrow> length rs = length cs"
  by (induction cs arbitrary: v rs) (auto split: prod.splits outcome.splits)

end
