(* ===== verification/Raft_Types.thy ===== *)
theory Raft_Types
  imports Mq_Prelude
begin

text \<open>
  The data that crosses the boundary to openraft and serde: log ids, entries, memberships,
  snapshots and storage errors, with the fields the sources read and write. What openraft
  keeps to itself (its leader ids, its membership sets) stays a type variable. A serde codec
  is a pair of functions that every user receives as an argument; what the code relies on is
  the named hypothesis \<open>codec_ok\<close>.
\<close>

section \<open>Log ids and entries\<close>

record 'lid LogId =
  leader_id :: 'lid
  index :: u64

datatype ('c, 'mem) EntryPayload = Blank | Normal 'c | Membership 'mem

record ('lid, 'c, 'mem) Entry =
  log_id :: "'lid LogId"
  entry_payload :: "('c, 'mem) EntryPayload"

record ('lid, 'mem) StoredMembership =
  membership_log_id :: "'lid LogId option"
  membership :: 'mem

section \<open>Snapshots\<close>

record ('lid, 'mem) SnapshotMeta =
  last_log_id :: "'lid LogId option"
  meta_membership :: "('lid, 'mem) StoredMembership"
  snapshot_id :: string

text \<open>
  \<open>Snapshot\<close> is what openraft receives, the cursor being the bytes it reads;
  \<open>StoredSnapshot\<close> is what a state machine keeps.
\<close>

record ('lid, 'mem) Snapshot =
  meta :: "('lid, 'mem) SnapshotMeta"
  snapshot_data :: bytes

record ('lid, 'mem) StoredSnapshot =
  stored_meta :: "('lid, 'mem) SnapshotMeta"
  stored_data :: bytes

section \<open>Errors and codecs\<close>

text \<open>
  A foreign error (serde, raft-engine, a failed join) is known by its text. The storage
  traits only ever build \<open>StorageError::IO\<close> around a write error.
\<close>

datatype StorageError = StorageError_IO_write string

record 'a codec =
  to_vec :: "'a \<Rightarrow> (string, bytes) result"
  from_slice :: "bytes \<Rightarrow> (string, 'a) result"

definition codec_ok :: "'a codec \<Rightarrow> bool" where
  "codec_ok c \<longleftrightarrow> (\<forall>x bs. to_vec c x = Inr bs \<longrightarrow> from_slice c bs = Inr x)"

lemma codec_okD: "\<lbrakk>codec_ok c; to_vec c x = Inr bs\<rbrakk> \<Longrightarrow> from_slice c bs = Inr x"
  by (simp add: codec_ok_def)

lemma codec_ok_inj:
  "\<lbrakk>codec_ok c; to_vec c x = Inr bs; to_vec c y = Inr bs\<rbrakk> \<Longrightarrow> x = y"
  by (metis codec_okD sum.inject(2))

text \<open>A codec that exists for every countable type: the value's number, in unary.\<close>

definition unary_codec :: "'a::countable codec" where
  "unary_codec =
     \<lparr>to_vec = (\<lambda>x. Inr (replicate (to_nat x) 0)),
      from_slice = (\<lambda>bs. Inr (from_nat (length bs)))\<rparr>"

lemma unary_codec_ok: "codec_ok unary_codec"
  by (auto simp: codec_ok_def unary_codec_def)

lemma unary_to_vec: "to_vec unary_codec x = Inr (replicate (to_nat x) 0)"
  by (simp add: unary_codec_def)

section \<open>Snapshot names\<close>

text \<open>
  \<open>uuid_like_id\<close>: the clock's nanoseconds since the epoch in lower-case hexadecimal. A
  clock before the epoch makes \<open>duration_since\<close> fail, and the \<open>unwrap\<close> panics.
\<close>

fun hex_digit :: "nat \<Rightarrow> char" where
  "hex_digit d = (if d < 10 then char_of (48 + d) else char_of (87 + d))"

fun lower_hex :: "nat \<Rightarrow> string" where
  "lower_hex n =
     (if n < 16 then [hex_digit n] else lower_hex (n div 16) @ [hex_digit (n mod 16)])"

declare lower_hex.simps [simp del]

fun uuid_like_id :: "nat option \<Rightarrow> string outcome" where
  "uuid_like_id None = Panicked UnwrapFailed"
| "uuid_like_id (Some nanos) = Returned (lower_hex nanos)"

section \<open>Countability\<close>

text \<open>The types that are written through a codec can be counted, so a codec for them exists.\<close>

instance EntryPayload :: (countable, countable) countable
  by countable_datatype

instance LogId_ext :: (countable, countable) countable
  by (rule countable_classI [of "\<lambda>x. to_nat (leader_id x, index x, LogId.more x)"]) simp

instance Entry_ext :: (countable, countable, countable, countable) countable
  by (rule countable_classI [of "\<lambda>x. to_nat (log_id x, entry_payload x, Entry.more x)"]) simp

end
