(* ===== verification/Raft_Engine.thy ===== *)
theory Raft_Engine
  imports Raft_Types
begin

text \<open>
  The write-ahead log the store is built on (the raft-engine crate) as an interface: the
  functions the code calls are the fields of a record that every caller receives, and the
  documented behaviour the code relies on is the locale \<open>raft_engine\<close>. An in-memory
  engine shows that the laws can hold together.
\<close>

section \<open>The calls\<close>

text \<open>The envelope generated from \<open>raft_log_entry.proto\<close>.\<close>

record Blob =
  blob_index :: u64
  blob_data :: bytes

text \<open>How the engine finds the index of an entry: the store's implementation of \<open>MessageExt\<close>.\<close>

definition BlobEntry_index :: "Blob \<Rightarrow> u64" where
  "BlobEntry_index e = blob_index e"

text \<open>
  \<open>'e\<close> is the engine, \<open>'b\<close> a log batch. A call made inside \<open>spawn_blocking\<close> may panic,
  which the caller sees as a failed join. \<open>eng_write\<close> also returns the engine afterwards.
\<close>

record ('e, 'b) engine_api =
  eng_get_message :: "'e \<Rightarrow> u64 \<Rightarrow> bytes \<Rightarrow> (string, Blob option) result"
  eng_last_index :: "'e \<Rightarrow> u64 \<Rightarrow> u64 option"
  eng_get_entry :: "'e \<Rightarrow> u64 \<Rightarrow> u64 \<Rightarrow> (string, Blob option) result outcome"
  eng_fetch_entries_to :: "'e \<Rightarrow> u64 \<Rightarrow> u64 \<Rightarrow> u64 \<Rightarrow> nat option \<Rightarrow> (string, Blob list) result outcome"
  eng_write :: "'e \<Rightarrow> 'b \<Rightarrow> bool \<Rightarrow> (string, unit) result outcome \<times> 'e"
  eng_compact_to :: "'e \<Rightarrow> u64 \<Rightarrow> u64 \<Rightarrow> 'e"
  batch_default :: 'b
  batch_with_capacity :: "nat \<Rightarrow> 'b"
  batch_put_message :: "'b \<Rightarrow> u64 \<Rightarrow> bytes \<Rightarrow> Blob \<Rightarrow> (string, 'b) result"
  batch_add_entries :: "'b \<Rightarrow> u64 \<Rightarrow> Blob list \<Rightarrow> (string, 'b) result"

section \<open>The laws\<close>

text \<open>Consecutive indices, without reaching the end of \<open>u64\<close>.\<close>

definition contiguous :: "Blob list \<Rightarrow> bool" where
  "contiguous bs \<longleftrightarrow>
     (\<forall>i<length bs. unat (BlobEntry_index (bs ! i)) = unat (BlobEntry_index (hd bs)) + i)"

text \<open>A batch that overlaps or continues what is stored, so that it leaves no hole.\<close>

definition appendable :: "Blob list \<Rightarrow> Blob list \<Rightarrow> bool" where
  "appendable old bs \<longleftrightarrow>
     bs \<noteq> [] \<and> contiguous bs \<and>
     (old \<noteq> [] \<longrightarrow>
       unat (BlobEntry_index (hd old)) \<le> unat (BlobEntry_index (hd bs)) \<and>
       unat (BlobEntry_index (hd bs)) \<le> Suc (unat (BlobEntry_index (last old))))"

text \<open>
  \<open>kv\<close> and \<open>ents\<close> are the records and the entries of a region. A write that succeeds is
  durable and atomic; entries overwrite those from their first index on; a range that is
  held is read in full, and a range that begins before the first entry held, because the log
  was compacted, is an error.
\<close>

locale raft_engine =
  fixes api :: "('e, 'b) engine_api"
    and kv :: "'e \<Rightarrow> u64 \<Rightarrow> bytes \<Rightarrow> Blob option"
    and ents :: "'e \<Rightarrow> u64 \<Rightarrow> Blob list"
    and ok :: "'e \<Rightarrow> bool"
  assumes ents_contiguous: "ok e \<Longrightarrow> contiguous (ents e r)"
    and get_message: "ok e \<Longrightarrow> eng_get_message api e r k = Inr (kv e r k)"
    and last_index: "ok e \<Longrightarrow> eng_last_index api e r =
      (if ents e r = [] then None else Some (BlobEntry_index (last (ents e r))))"
    and get_entry: "\<lbrakk>ok e; b \<in> set (ents e r)\<rbrakk> \<Longrightarrow>
      eng_get_entry api e r (BlobEntry_index b) = Returned (Inr (Some b))"
    and fetch: "\<lbrakk>ok e; start \<le> stop; \<And>i. \<lbrakk>start \<le> i; i < stop\<rbrakk> \<Longrightarrow> i \<in> BlobEntry_index ` set (ents e r)\<rbrakk> \<Longrightarrow>
      eng_fetch_entries_to api e r start stop None =
        Returned (Inr (filter (\<lambda>b. start \<le> BlobEntry_index b \<and> BlobEntry_index b < stop) (ents e r)))"
    and fetch_compacted: "\<lbrakk>ok e; ents e r \<noteq> []; start < stop; start < BlobEntry_index (hd (ents e r))\<rbrakk> \<Longrightarrow>
      \<exists>err. eng_fetch_entries_to api e r start stop None = Returned (Inl err)"
    and write_put: "\<lbrakk>ok e; batch_put_message api (batch_default api) r k b = Inr bt;
        eng_write api e bt True = (Returned (Inr ()), e')\<rbrakk> \<Longrightarrow>
      ok e' \<and> kv e' = (kv e)(r := (kv e r)(k \<mapsto> b)) \<and> ents e' = ents e"
    and write_entries: "\<lbrakk>ok e; batch_add_entries api (batch_with_capacity api n) r bs = Inr bt;
        appendable (ents e r) bs; eng_write api e bt True = (Returned (Inr ()), e')\<rbrakk> \<Longrightarrow>
      ok e' \<and> kv e' = kv e \<and>
      ents e' = (ents e)(r := takeWhile (\<lambda>b. BlobEntry_index b < BlobEntry_index (hd bs)) (ents e r) @ bs)"
    and compact: "ok e \<Longrightarrow>
      ok (eng_compact_to api e r i) \<and> kv (eng_compact_to api e r i) = kv e \<and>
      ents (eng_compact_to api e r i) = (ents e)(r := filter (\<lambda>b. i \<le> BlobEntry_index b) (ents e r))"
begin

lemma entry_at_last_index:
  "\<lbrakk>ok e; ents e r \<noteq> []\<rbrakk> \<Longrightarrow>
   eng_last_index api e r = Some (BlobEntry_index (last (ents e r))) \<and>
   eng_get_entry api e r (BlobEntry_index (last (ents e r))) = Returned (Inr (Some (last (ents e r))))"
  by (simp add: last_index get_entry)

end

section \<open>Contiguous runs of entries\<close>

lemma contiguous_Nil [simp]: "contiguous []"
  by (simp add: contiguous_def)

lemma contiguous_nth:
  "\<lbrakk>contiguous bs; i < length bs\<rbrakk> \<Longrightarrow> unat (BlobEntry_index (bs ! i)) = unat (BlobEntry_index (hd bs)) + i"
  by (simp add: contiguous_def)

lemma contiguousI:
  assumes "\<And>i. i < length bs \<Longrightarrow> unat (BlobEntry_index (bs ! i)) = n + i"
  shows "contiguous bs"
proof (cases bs)
  case (Cons b bs')
  with assms [of 0] have "unat (BlobEntry_index (hd bs)) = n" by simp
  with assms show ?thesis by (simp add: contiguous_def)
qed simp

lemma contiguous_take: "contiguous bs \<Longrightarrow> contiguous (take k bs)"
  by (rule contiguousI [where n = "unat (BlobEntry_index (hd bs))"]) (auto simp: contiguous_nth)

lemma contiguous_drop: "contiguous bs \<Longrightarrow> contiguous (drop k bs)"
  by (rule contiguousI [where n = "unat (BlobEntry_index (hd bs)) + k"]) (auto simp: contiguous_nth)

lemma contiguous_last:
  "\<lbrakk>contiguous bs; bs \<noteq> []\<rbrakk> \<Longrightarrow> Suc (unat (BlobEntry_index (last bs))) = unat (BlobEntry_index (hd bs)) + length bs"
  by (simp add: last_conv_nth contiguous_nth)

lemma contiguous_append:
  assumes "contiguous xs" "contiguous ys" "xs \<noteq> []" "ys \<noteq> []"
    and "unat (BlobEntry_index (hd ys)) = Suc (unat (BlobEntry_index (last xs)))"
  shows "contiguous (xs @ ys)"
proof (rule contiguousI)
  fix i assume "i < length (xs @ ys)"
  then show "unat (BlobEntry_index ((xs @ ys) ! i)) = unat (BlobEntry_index (hd xs)) + i"
    using assms contiguous_last [of xs] by (auto simp: nth_append contiguous_nth)
qed

lemma contiguous_takeWhile:
  assumes "contiguous bs"
  shows "takeWhile (\<lambda>b. BlobEntry_index b < k) bs = take (unat k - unat (BlobEntry_index (hd bs))) bs"
proof (rule takeWhile_eq_take_P_nth)
  fix i assume "i < unat k - unat (BlobEntry_index (hd bs))" "i < length bs"
  with assms show "BlobEntry_index (bs ! i) < k"
    by (simp add: word_less_nat_alt contiguous_nth)
next
  assume "unat k - unat (BlobEntry_index (hd bs)) < length bs"
  with assms show "\<not> BlobEntry_index (bs ! (unat k - unat (BlobEntry_index (hd bs)))) < k"
    by (simp add: word_less_nat_alt contiguous_nth)
qed

lemma contiguous_filter_ge:
  assumes "contiguous bs"
  shows "filter (\<lambda>b. k \<le> BlobEntry_index b) bs = drop (unat k - unat (BlobEntry_index (hd bs))) bs"
proof -
  let ?n = "unat k - unat (BlobEntry_index (hd bs))"
  have "filter (\<lambda>b. k \<le> BlobEntry_index b) (take ?n bs) = []"
    using assms by (auto simp: filter_empty_conv in_set_conv_nth word_le_nat_alt contiguous_nth)
  moreover have "filter (\<lambda>b. k \<le> BlobEntry_index b) (drop ?n bs) = drop ?n bs"
    using assms by (auto simp: filter_id_conv in_set_conv_nth word_le_nat_alt contiguous_nth)
  ultimately show ?thesis
    by (metis append_Nil append_take_drop_id filter_append)
qed

lemma last_take: "\<lbrakk>0 < k; k \<le> length xs\<rbrakk> \<Longrightarrow> last (take k xs) = xs ! (k - 1)"
  by (cases "take k xs = []") (auto simp: last_conv_nth)

lemma appendable_contiguous:
  assumes "contiguous old" "appendable old bs"
  shows "contiguous (takeWhile (\<lambda>b. BlobEntry_index b < BlobEntry_index (hd bs)) old @ bs)"
proof -
  let ?n = "unat (BlobEntry_index (hd bs)) - unat (BlobEntry_index (hd old))"
  have tw: "takeWhile (\<lambda>b. BlobEntry_index b < BlobEntry_index (hd bs)) old = take ?n old"
    by (rule contiguous_takeWhile [OF assms(1)])
  show ?thesis
  proof (cases "take ?n old = []")
    case True
    with assms(2) show ?thesis unfolding tw True by (simp add: appendable_def)
  next
    case False
    then have ne: "old \<noteq> []" and n: "0 < ?n" by auto
    have "?n \<le> length old"
      using assms contiguous_last [OF assms(1) ne] ne by (auto simp: appendable_def)
    then have "last (take ?n old) = old ! (?n - 1)"
      using n by (simp add: last_take)
    then have "unat (BlobEntry_index (hd bs)) = Suc (unat (BlobEntry_index (last (take ?n old))))"
      using \<open>?n \<le> length old\<close> n by (simp add: contiguous_nth [OF assms(1)])
    then show ?thesis
      using assms False by (simp add: tw appendable_def contiguous_append contiguous_take)
  qed
qed

section \<open>An engine in memory\<close>

text \<open>
  Every region holds a key-value table and a run of entries. A batch carries one command; a
  batch of entries that would leave a hole is refused, as are reads outside what is stored.
\<close>

datatype mem_batch =
    NoCommand
  | PutCommand u64 bytes Blob
  | EntriesCommand u64 "Blob list"

record mem_engine =
  mem_kv :: "u64 \<Rightarrow> bytes \<Rightarrow> Blob option"
  mem_ents :: "u64 \<Rightarrow> Blob list"

definition mem_empty :: mem_engine where
  "mem_empty = \<lparr>mem_kv = (\<lambda>_ _. None), mem_ents = (\<lambda>_. [])\<rparr>"

definition mem_ok :: "mem_engine \<Rightarrow> bool" where
  "mem_ok e \<longleftrightarrow> (\<forall>r. contiguous (mem_ents e r))"

fun mem_write :: "mem_engine \<Rightarrow> mem_batch \<Rightarrow> bool \<Rightarrow> (string, unit) result outcome \<times> mem_engine" where
  "mem_write e NoCommand sync = (Returned (Inr ()), e)"
| "mem_write e (PutCommand r k b) sync =
     (Returned (Inr ()), e\<lparr>mem_kv := (mem_kv e)(r := (mem_kv e r)(k \<mapsto> b))\<rparr>)"
| "mem_write e (EntriesCommand r bs) sync =
     (if appendable (mem_ents e r) bs then
        (Returned (Inr ()),
         e\<lparr>mem_ents := (mem_ents e)
             (r := takeWhile (\<lambda>b. BlobEntry_index b < BlobEntry_index (hd bs)) (mem_ents e r) @ bs)\<rparr>)
      else (Returned (Inl ''hole in the log''), e))"

definition mem_fetch ::
  "mem_engine \<Rightarrow> u64 \<Rightarrow> u64 \<Rightarrow> u64 \<Rightarrow> nat option \<Rightarrow> (string, Blob list) result outcome" where
  "mem_fetch e r start stop limit =
     (let bs = filter (\<lambda>b. start \<le> BlobEntry_index b \<and> BlobEntry_index b < stop) (mem_ents e r) in
      if length bs = unat stop - unat start then Returned (Inr bs)
      else Returned (Inl ''entry not found''))"

definition mem_api :: "(mem_engine, mem_batch) engine_api" where
  "mem_api =
     \<lparr>eng_get_message = (\<lambda>e r k. Inr (mem_kv e r k)),
      eng_last_index = (\<lambda>e r. if mem_ents e r = [] then None else Some (BlobEntry_index (last (mem_ents e r)))),
      eng_get_entry = (\<lambda>e r i. Returned (Inr (find (\<lambda>b. BlobEntry_index b = i) (mem_ents e r)))),
      eng_fetch_entries_to = mem_fetch,
      eng_write = mem_write,
      eng_compact_to = (\<lambda>e r i. e\<lparr>mem_ents := (mem_ents e)(r := filter (\<lambda>b. i \<le> BlobEntry_index b) (mem_ents e r))\<rparr>),
      batch_default = NoCommand,
      batch_with_capacity = (\<lambda>n. NoCommand),
      batch_put_message = (\<lambda>b r k x. Inr (PutCommand r k x)),
      batch_add_entries = (\<lambda>b r bs. Inr (EntriesCommand r bs))\<rparr>"

lemma contiguous_distinct: "contiguous bs \<Longrightarrow> distinct (map BlobEntry_index bs)"
  unfolding distinct_conv_nth by (metis add_left_cancel contiguous_nth length_map nth_map)

lemma find_inj:
  "\<lbrakk>distinct (map f xs); x \<in> set xs\<rbrakk> \<Longrightarrow> find (\<lambda>y. f y = f x) xs = Some x"
  by (induction xs) (auto simp: rev_image_eqI)

lemmas find_contiguous = find_inj [OF contiguous_distinct]

lemma mem_fetch_in_range:
  assumes "contiguous (mem_ents e r)" "start \<le> stop"
    and all: "\<And>i. \<lbrakk>start \<le> i; i < stop\<rbrakk> \<Longrightarrow> i \<in> BlobEntry_index ` set (mem_ents e r)"
  shows "length (filter (\<lambda>b. start \<le> BlobEntry_index b \<and> BlobEntry_index b < stop) (mem_ents e r)) =
    unat stop - unat start"
proof -
  let ?bs = "filter (\<lambda>b. start \<le> BlobEntry_index b \<and> BlobEntry_index b < stop) (mem_ents e r)"
  have "BlobEntry_index ` set ?bs = {start..<stop}"
  proof (intro equalityI subsetI)
    fix i assume "i \<in> {start..<stop}"
    with all [of i] show "i \<in> BlobEntry_index ` set ?bs" by fastforce
  qed auto
  moreover have "distinct (map BlobEntry_index ?bs)"
    using contiguous_distinct [OF assms(1)] by (rule distinct_map_filter)
  ultimately have "length ?bs = card {start..<stop}"
    using distinct_card [of "map BlobEntry_index ?bs"] by simp
  also have "\<dots> = card (unat ` {start..<stop})"
    by (rule card_image [symmetric]) (auto intro: inj_onI unsigned_word_eqI)
  also have "unat ` {start..<stop} = {unat start..<unat stop}"
  proof (intro equalityI subsetI)
    fix n assume n: "n \<in> {unat start..<unat stop}"
    then have "unat (of_nat n :: u64) = n"
      using unat_u64_less [of stop] by (simp add: unat_of_nat_u64)
    with n show "n \<in> unat ` {start..<stop}"
      by (intro image_eqI [of _ _ "of_nat n"]) (auto simp: word_le_nat_alt word_less_nat_alt)
  qed (auto simp: word_le_nat_alt word_less_nat_alt)
  finally show ?thesis by simp
qed

lemma mem_fetch_compacted:
  assumes "contiguous (mem_ents e r)" "start < stop" "start < BlobEntry_index (hd (mem_ents e r))"
  shows "length (filter (\<lambda>b. start \<le> BlobEntry_index b \<and> BlobEntry_index b < stop) (mem_ents e r)) <
    unat stop - unat start"
proof -
  let ?bs = "filter (\<lambda>b. start \<le> BlobEntry_index b \<and> BlobEntry_index b < stop) (mem_ents e r)"
  let ?ns = "map (\<lambda>b. unat (BlobEntry_index b)) ?bs"
  have "distinct (map unat (map BlobEntry_index ?bs))"
    using contiguous_distinct [OF assms(1)]
    by (subst distinct_map) (auto intro: distinct_map_filter inj_onI unsigned_word_eqI)
  then have len: "length ?bs = card (set ?ns)" using distinct_card [of ?ns] by (simp add: comp_def)
  have "set ?ns \<subseteq> {Suc (unat start)..<unat stop}"
  proof
    fix n
    assume "n \<in> set ?ns"
    then obtain b where b: "b \<in> set (mem_ents e r)" "n = unat (BlobEntry_index b)" "BlobEntry_index b < stop" by auto
    then obtain i where i: "i < length (mem_ents e r)" "b = mem_ents e r ! i" by (auto simp: in_set_conv_nth)
    have "unat start < n"
      using contiguous_nth [OF assms(1) i(1)] assms(3) unfolding b(2) i(2) word_less_nat_alt by linarith
    moreover have "n < unat stop" using b(2,3) by (simp add: word_less_nat_alt)
    ultimately show "n \<in> {Suc (unat start)..<unat stop}" by simp
  qed
  from card_mono [OF finite_atLeastLessThan this] have "length ?bs \<le> unat stop - Suc (unat start)"
    unfolding len card_atLeastLessThan .
  moreover have "unat start < unat stop" using assms(2) by (simp add: word_less_nat_alt)
  ultimately show ?thesis by linarith
qed

interpretation mem: raft_engine mem_api mem_kv mem_ents mem_ok
proof unfold_locales
  fix e r start stop
  assume "mem_ok e" "start \<le> stop" "\<And>i. \<lbrakk>start \<le> i; i < stop\<rbrakk> \<Longrightarrow> i \<in> BlobEntry_index ` set (mem_ents e r)"
  then show "eng_fetch_entries_to mem_api e r start stop None =
      Returned (Inr (filter (\<lambda>b. start \<le> BlobEntry_index b \<and> BlobEntry_index b < stop) (mem_ents e r)))"
    by (simp add: mem_api_def mem_fetch_def Let_def mem_ok_def mem_fetch_in_range)
next
  fix e r start stop
  assume "mem_ok e" "mem_ents e r \<noteq> []" "start < stop" "start < BlobEntry_index (hd (mem_ents e r))"
  with mem_fetch_compacted [of e r start stop]
  show "\<exists>err. eng_fetch_entries_to mem_api e r start stop None = Returned (Inl err)"
    by (auto simp: mem_api_def mem_fetch_def Let_def mem_ok_def)
qed (auto simp: mem_ok_def mem_api_def find_contiguous appendable_contiguous
    contiguous_filter_ge contiguous_drop split: if_splits)

end
