(* ===== verification/Log_Store.thy ===== *)
theory Log_Store
  imports Raft_Engine
begin

text \<open>
  \<open>raft_engine_log_store.rs\<close>: openraft's log storage on top of the write-ahead log. Every
  operation takes the engine's calls, the serde codecs and the engine, and returns the engine
  it leaves behind. The specification is an abstract Raft log; \<open>stores\<close> says when an
  engine holds it, and each operation is proved against the abstract one.
\<close>

section \<open>Keys, envelopes and errors\<close>

definition ascii :: "string \<Rightarrow> bytes" where
  "ascii s = map (\<lambda>c. word_of_nat (of_char c)) s"

definition REGION_ID :: u64 where
  "REGION_ID = 1"

definition VOTE_KEY :: bytes where
  "VOTE_KEY = ascii ''vote''"

definition LAST_PURGED_KEY :: bytes where
  "LAST_PURGED_KEY = ascii ''last_purged''"

definition COMMITTED_KEY :: bytes where
  "COMMITTED_KEY = ascii ''committed''"

definition to_storage_err :: "string \<Rightarrow> StorageError" where
  "to_storage_err err = StorageError_IO_write err"

abbreviation map_err :: "(string, 'a) result \<Rightarrow> (StorageError, 'a) result" where
  "map_err \<equiv> map_sum to_storage_err id"

definition Blob_new :: Blob where
  "Blob_new = \<lparr>blob_index = 0, blob_data = []\<rparr>"

definition encode_entry ::
  "('lid, 'c, 'mem) Entry codec \<Rightarrow> ('lid, 'c, 'mem) Entry \<Rightarrow> (StorageError, Blob) result" where
  "encode_entry json entry =
     map_sum id (\<lambda>data. Blob_new\<lparr>blob_index := index (log_id entry), blob_data := data\<rparr>)
       (map_err (to_vec json entry))"

definition decode_entry ::
  "('lid, 'c, 'mem) Entry codec \<Rightarrow> Blob \<Rightarrow> (StorageError, ('lid, 'c, 'mem) Entry) result" where
  "decode_entry json blob = map_err (from_slice json (blob_data blob))"

section \<open>The store\<close>

text \<open>The serde instances the store uses, one per type it writes.\<close>

record ('lid, 'c, 'mem, 'vote) log_codecs =
  entry_json :: "('lid, 'c, 'mem) Entry codec"
  log_id_json :: "'lid LogId codec"
  vote_json :: "'vote codec"
  committed_json :: "'lid LogId option codec"

text \<open>
  \<open>open\<close>: the directory is created first, then the engine is opened in it. Both calls are
  arguments; an error of either is returned.
\<close>

definition log_store_open ::
  "(string \<Rightarrow> 'w \<Rightarrow> (string, unit) result \<times> 'w) \<Rightarrow> (string \<Rightarrow> 'w \<Rightarrow> (string, 'e) result \<times> 'w)
     \<Rightarrow> string \<Rightarrow> 'w \<Rightarrow> (string, 'e) result \<times> 'w" where
  "log_store_open create_dir_all engine_open dir w =
     (case create_dir_all dir w of
        (Inl e, w) \<Rightarrow> (Inl e, w)
      | (Inr u, w) \<Rightarrow> engine_open dir w)"

definition get_blob_message ::
  "('e, 'b) engine_api \<Rightarrow> 'e \<Rightarrow> bytes \<Rightarrow> (StorageError, Blob option) result" where
  "get_blob_message api engine key = map_err (eng_get_message api engine REGION_ID key)"

text \<open>\<open>get_blob_message(key)?.map(from_slice).transpose().map_err(to_storage_err)\<close>.\<close>

definition read_json ::
  "('e, 'b) engine_api \<Rightarrow> 'a codec \<Rightarrow> 'e \<Rightarrow> bytes \<Rightarrow> (StorageError, 'a option) result" where
  "read_json api json engine key =
     (case get_blob_message api engine key of
        Inl e \<Rightarrow> Inl e
      | Inr None \<Rightarrow> Inr None
      | Inr (Some blob) \<Rightarrow> map_sum id Some (map_err (from_slice json (blob_data blob))))"

datatype Bound = Included u64 | Excluded u64 | Unbounded

fun range_start :: "bool \<Rightarrow> Bound \<Rightarrow> u64 outcome" where
  "range_start checks (Included s) = Returned s"
| "range_start checks (Excluded s) = add_u64 checks s 1"
| "range_start checks Unbounded = Returned 0"

fun range_end :: "bool \<Rightarrow> Bound \<Rightarrow> u64 outcome" where
  "range_end checks (Included e) = add_u64 checks e 1"
| "range_end checks (Excluded e) = Returned e"
| "range_end checks Unbounded = Returned u64_max"

text \<open>A task that panics inside \<open>spawn_blocking\<close> is a failed join for the caller.\<close>

fun join_blocking :: "(string, 'a) result outcome \<Rightarrow> (string, 'a) result" where
  "join_blocking (Panicked p) = Inl ''task panicked''"
| "join_blocking (Returned r) = r"

definition try_get_log_entries ::
  "bool \<Rightarrow> ('e, 'b) engine_api \<Rightarrow> ('lid, 'c, 'mem, 'vote) log_codecs \<Rightarrow> 'e \<Rightarrow> Bound \<Rightarrow> Bound
     \<Rightarrow> (StorageError, ('lid, 'c, 'mem) Entry list) result outcome" where
  "try_get_log_entries checks api js engine start_bound end_bound =
     bind_outcome (range_start checks start_bound) (\<lambda>start.
     bind_outcome (range_end checks end_bound) (\<lambda>stop.
       Returned
         (case map_err (join_blocking (eng_fetch_entries_to api engine REGION_ID start stop None)) of
            Inl e \<Rightarrow> Inl e
          | Inr blobs \<Rightarrow> collect_results (decode_entry (entry_json js)) blobs)))"

record 'lid LogState =
  last_purged_log_id :: "'lid LogId option"
  state_last_log_id :: "'lid LogId option"

definition get_log_state ::
  "('e, 'b) engine_api \<Rightarrow> ('lid, 'c, 'mem, 'vote) log_codecs \<Rightarrow> 'e
     \<Rightarrow> (StorageError, 'lid LogState) result" where
  "get_log_state api js engine =
     (case read_json api (log_id_json js) engine LAST_PURGED_KEY of
        Inl e \<Rightarrow> Inl e
      | Inr purged \<Rightarrow>
          (case (case eng_last_index api engine REGION_ID of
                   None \<Rightarrow> Inr None
                 | Some idx \<Rightarrow>
                     (case map_err (join_blocking (eng_get_entry api engine REGION_ID idx)) of
                        Inl e \<Rightarrow> Inl e
                      | Inr None \<Rightarrow> Inr None
                      | Inr (Some blob) \<Rightarrow>
                          map_sum id (\<lambda>x. Some (log_id x)) (decode_entry (entry_json js) blob))) of
             Inl e \<Rightarrow> Inl e
           | Inr last_id \<Rightarrow>
               Inr \<lparr>last_purged_log_id = purged,
                    state_last_log_id = (case last_id of Some l \<Rightarrow> Some l | None \<Rightarrow> purged)\<rparr>))"

text \<open>The task that writes one keyed record, fsynced, and the caller's view of it.\<close>

definition put_task ::
  "('e, 'b) engine_api \<Rightarrow> 'e \<Rightarrow> bytes \<Rightarrow> Blob \<Rightarrow> (string, unit) result outcome \<times> 'e" where
  "put_task api engine key blob =
     (case batch_put_message api (batch_default api) REGION_ID key blob of
        Inl e \<Rightarrow> (Returned (Inl e), engine)
      | Inr batch \<Rightarrow> eng_write api engine batch True)"

definition save_vote ::
  "('e, 'b) engine_api \<Rightarrow> ('lid, 'c, 'mem, 'vote) log_codecs \<Rightarrow> 'e \<Rightarrow> 'vote
     \<Rightarrow> (StorageError, unit) result \<times> 'e" where
  "save_vote api js engine vote =
     (case map_err (to_vec (vote_json js) vote) of
        Inl e \<Rightarrow> (Inl e, engine)
      | Inr data \<Rightarrow>
          (let (r, engine) = put_task api engine VOTE_KEY (Blob_new\<lparr>blob_data := data\<rparr>)
           in (map_err (join_blocking r), engine)))"

definition save_committed ::
  "('e, 'b) engine_api \<Rightarrow> ('lid, 'c, 'mem, 'vote) log_codecs \<Rightarrow> 'e \<Rightarrow> 'lid LogId option
     \<Rightarrow> (StorageError, unit) result \<times> 'e" where
  "save_committed api js engine committed =
     (case map_err (to_vec (committed_json js) committed) of
        Inl e \<Rightarrow> (Inl e, engine)
      | Inr data \<Rightarrow>
          (let (r, engine) = put_task api engine COMMITTED_KEY (Blob_new\<lparr>blob_data := data\<rparr>)
           in (map_err (join_blocking r), engine)))"

definition read_committed ::
  "('e, 'b) engine_api \<Rightarrow> ('lid, 'c, 'mem, 'vote) log_codecs \<Rightarrow> 'e
     \<Rightarrow> (StorageError, 'lid LogId option) result" where
  "read_committed api js engine =
     map_sum id (\<lambda>opt. Option.bind opt id) (read_json api (committed_json js) engine COMMITTED_KEY)"

definition read_vote ::
  "('e, 'b) engine_api \<Rightarrow> ('lid, 'c, 'mem, 'vote) log_codecs \<Rightarrow> 'e
     \<Rightarrow> (StorageError, 'vote option) result" where
  "read_vote api js engine = read_json api (vote_json js) engine VOTE_KEY"

text \<open>
  \<open>append\<close> also reports to openraft's callback; the calls it makes are the last component.
  An entry that does not serialize returns before the callback is reached.
\<close>

definition append_task ::
  "('e, 'b) engine_api \<Rightarrow> 'e \<Rightarrow> Blob list \<Rightarrow> (string, unit) result outcome \<times> 'e" where
  "append_task api engine blobs =
     (case batch_add_entries api (batch_with_capacity api (length blobs)) REGION_ID blobs of
        Inl e \<Rightarrow> (Returned (Inl e), engine)
      | Inr batch \<Rightarrow> eng_write api engine batch True)"

definition log_append ::
  "('e, 'b) engine_api \<Rightarrow> ('lid, 'c, 'mem, 'vote) log_codecs \<Rightarrow> 'e \<Rightarrow> ('lid, 'c, 'mem) Entry list
     \<Rightarrow> (StorageError, unit) result \<times> 'e \<times> (string, unit) result list" where
  "log_append api js engine entries =
     (case collect_results (encode_entry (entry_json js)) entries of
        Inl e \<Rightarrow> (Inl e, engine, [])
      | Inr blobs \<Rightarrow>
          (let (r, engine) = append_task api engine blobs in
           case join_blocking r of
             Inr u \<Rightarrow> (Inr (), engine, [Inr ()])
           | Inl err \<Rightarrow> (Inl (to_storage_err err), engine, [Inl err])))"

definition log_truncate ::
  "('e, 'b) engine_api \<Rightarrow> 'e \<Rightarrow> 'lid LogId \<Rightarrow> (StorageError, unit) result \<times> 'e" where
  "log_truncate api engine lid = (Inr (), engine)"

definition purge_task ::
  "bool \<Rightarrow> ('e, 'b) engine_api \<Rightarrow> 'e \<Rightarrow> Blob \<Rightarrow> u64 \<Rightarrow> (string, unit) result outcome \<times> 'e" where
  "purge_task checks api engine blob idx =
     (case put_task api engine LAST_PURGED_KEY blob of
        (Panicked p, engine) \<Rightarrow> (Panicked p, engine)
      | (Returned (Inl e), engine) \<Rightarrow> (Returned (Inl e), engine)
      | (Returned (Inr u), engine) \<Rightarrow>
          (case add_u64 checks idx 1 of
             Panicked p \<Rightarrow> (Panicked p, engine)
           | Returned i \<Rightarrow> (Returned (Inr ()), eng_compact_to api engine REGION_ID i)))"

definition purge ::
  "bool \<Rightarrow> ('e, 'b) engine_api \<Rightarrow> ('lid, 'c, 'mem, 'vote) log_codecs \<Rightarrow> 'e \<Rightarrow> 'lid LogId
     \<Rightarrow> (StorageError, unit) result \<times> 'e" where
  "purge checks api js engine lid =
     (case map_err (to_vec (log_id_json js) lid) of
        Inl e \<Rightarrow> (Inl e, engine)
      | Inr data \<Rightarrow>
          (let (r, engine) = purge_task checks api engine (Blob_new\<lparr>blob_data := data\<rparr>) (index lid)
           in (map_err (join_blocking r), engine)))"

section \<open>The abstract log\<close>

text \<open>
  What openraft expects the store to be: a vote, a committed id, the id up to which the log
  was purged, and the entries after it.
\<close>

record ('lid, 'c, 'mem, 'vote) raft_log =
  rl_vote :: "'vote option"
  rl_committed :: "'lid LogId option"
  rl_purged :: "'lid LogId option"
  rl_entries :: "('lid, 'c, 'mem) Entry list"

abbreviation entry_index :: "('lid, 'c, 'mem) Entry \<Rightarrow> u64" where
  "entry_index x \<equiv> index (log_id x)"

definition spec_append ::
  "('lid, 'c, 'mem) Entry list \<Rightarrow> ('lid, 'c, 'mem, 'vote) raft_log \<Rightarrow> ('lid, 'c, 'mem, 'vote) raft_log" where
  "spec_append es a =
     a\<lparr>rl_entries := takeWhile (\<lambda>x. entry_index x < entry_index (hd es)) (rl_entries a) @ es\<rparr>"

definition spec_truncate ::
  "'lid LogId \<Rightarrow> ('lid, 'c, 'mem, 'vote) raft_log \<Rightarrow> ('lid, 'c, 'mem, 'vote) raft_log" where
  "spec_truncate lid a = a\<lparr>rl_entries := takeWhile (\<lambda>x. entry_index x < index lid) (rl_entries a)\<rparr>"

definition spec_purge ::
  "'lid LogId \<Rightarrow> ('lid, 'c, 'mem, 'vote) raft_log \<Rightarrow> ('lid, 'c, 'mem, 'vote) raft_log" where
  "spec_purge lid a =
     a\<lparr>rl_purged := Some lid, rl_entries := filter (\<lambda>x. index lid < entry_index x) (rl_entries a)\<rparr>"

definition spec_log_state :: "('lid, 'c, 'mem, 'vote) raft_log \<Rightarrow> 'lid LogState" where
  "spec_log_state a =
     \<lparr>last_purged_log_id = rl_purged a,
      state_last_log_id = (if rl_entries a = [] then rl_purged a else Some (log_id (last (rl_entries a))))\<rparr>"

text \<open>Entries that continue or overlap the log.\<close>

definition no_hole :: "('lid, 'c, 'mem) Entry list \<Rightarrow> ('lid, 'c, 'mem) Entry list \<Rightarrow> bool" where
  "no_hole old es \<longleftrightarrow>
     es \<noteq> [] \<and>
     (\<forall>i<length es. unat (entry_index (es ! i)) = unat (entry_index (hd es)) + i) \<and>
     (old \<noteq> [] \<longrightarrow>
       unat (entry_index (hd old)) \<le> unat (entry_index (hd es)) \<and>
       unat (entry_index (hd es)) \<le> Suc (unat (entry_index (last old))))"

text \<open>An engine holds a log: its records decode to it.\<close>

definition holds_json :: "'a codec \<Rightarrow> 'a \<Rightarrow> Blob option \<Rightarrow> bool" where
  "holds_json json x slot \<longleftrightarrow> (\<exists>data. to_vec json x = Inr data \<and> slot = Some (Blob_new\<lparr>blob_data := data\<rparr>))"

fun slot_holds :: "'a codec \<Rightarrow> 'a option \<Rightarrow> Blob option \<Rightarrow> bool" where
  "slot_holds json None slot = (slot = None)"
| "slot_holds json (Some x) slot = holds_json json x slot"

definition stores ::
  "('e \<Rightarrow> u64 \<Rightarrow> bytes \<Rightarrow> Blob option) \<Rightarrow> ('e \<Rightarrow> u64 \<Rightarrow> Blob list) \<Rightarrow> ('e \<Rightarrow> bool)
     \<Rightarrow> ('lid, 'c, 'mem, 'vote) log_codecs \<Rightarrow> 'e \<Rightarrow> ('lid, 'c, 'mem, 'vote) raft_log \<Rightarrow> bool" where
  "stores kv ents ok js e a \<longleftrightarrow>
     ok e \<and>
     list_all2 (\<lambda>b x. encode_entry (entry_json js) x = Inr b) (ents e REGION_ID) (rl_entries a) \<and>
     slot_holds (vote_json js) (rl_vote a) (kv e REGION_ID VOTE_KEY) \<and>
     slot_holds (log_id_json js) (rl_purged a) (kv e REGION_ID LAST_PURGED_KEY) \<and>
     (rl_committed a = None \<and> kv e REGION_ID COMMITTED_KEY = None \<or>
      holds_json (committed_json js) (rl_committed a) (kv e REGION_ID COMMITTED_KEY))"

definition codecs_ok :: "('lid, 'c, 'mem, 'vote) log_codecs \<Rightarrow> bool" where
  "codecs_ok js \<longleftrightarrow>
     codec_ok (entry_json js) \<and> codec_ok (log_id_json js) \<and> codec_ok (vote_json js) \<and>
     codec_ok (committed_json js)"

section \<open>Envelopes\<close>

lemma keys_distinct [simp]:
  "VOTE_KEY \<noteq> LAST_PURGED_KEY" "LAST_PURGED_KEY \<noteq> VOTE_KEY"
  "VOTE_KEY \<noteq> COMMITTED_KEY" "COMMITTED_KEY \<noteq> VOTE_KEY"
  "LAST_PURGED_KEY \<noteq> COMMITTED_KEY" "COMMITTED_KEY \<noteq> LAST_PURGED_KEY"
  by (simp_all add: VOTE_KEY_def LAST_PURGED_KEY_def COMMITTED_KEY_def ascii_def)

lemma encode_entry_index: "encode_entry json x = Inr b \<Longrightarrow> BlobEntry_index b = entry_index x"
  by (cases "to_vec json x") (auto simp: encode_entry_def Blob_new_def BlobEntry_index_def)

lemma encode_decode_entry:
  "\<lbrakk>codec_ok json; encode_entry json x = Inr b\<rbrakk> \<Longrightarrow> decode_entry json b = Inr x"
  by (cases "to_vec json x") (auto simp: encode_entry_def decode_entry_def Blob_new_def codec_okD)

lemma holds_json_read:
  "\<lbrakk>codec_ok json; holds_json json x slot\<rbrakk> \<Longrightarrow>
   \<exists>b. slot = Some b \<and> from_slice json (blob_data b) = Inr x"
  by (auto simp: holds_json_def Blob_new_def codec_okD)

lemma decode_all:
  "\<lbrakk>codec_ok json; list_all2 (\<lambda>b x. encode_entry json x = Inr b) bs xs\<rbrakk> \<Longrightarrow>
   collect_results (decode_entry json) bs = Inr xs"
  by (auto simp: collect_results_Inr_iff elim!: list_all2_mono intro: encode_decode_entry)

lemma join_blocking_Inr: "join_blocking r = Inr x \<Longrightarrow> r = Returned (Inr x)"
  by (cases r) auto

lemma map_err_Inr: "map_err r = Inr x \<longleftrightarrow> r = Inr x"
  by (cases r) auto

section \<open>The operations against the abstract log\<close>

locale log_store = raft_engine api kv ents ok
  for api :: "('e, 'b) engine_api"
    and kv :: "'e \<Rightarrow> u64 \<Rightarrow> bytes \<Rightarrow> Blob option"
    and ents :: "'e \<Rightarrow> u64 \<Rightarrow> Blob list"
    and ok :: "'e \<Rightarrow> bool" +
  fixes js :: "('lid, 'c, 'mem, 'vote) log_codecs"
  assumes codecs: "codecs_ok js"
begin

lemma json_ok [simp]:
  "codec_ok (entry_json js)" "codec_ok (log_id_json js)"
  "codec_ok (vote_json js)" "codec_ok (committed_json js)"
  using codecs by (simp_all add: codecs_ok_def)

lemma read_json_None: "\<lbrakk>ok e; kv e REGION_ID k = None\<rbrakk> \<Longrightarrow> read_json api json e k = Inr None"
  by (simp add: read_json_def get_blob_message_def get_message)

lemma read_json_Some:
  "\<lbrakk>ok e; codec_ok json; holds_json json x (kv e REGION_ID k)\<rbrakk> \<Longrightarrow> read_json api json e k = Inr (Some x)"
  using holds_json_read [of json x "kv e REGION_ID k"]
  by (auto simp: read_json_def get_blob_message_def get_message)

lemma put_task_effect:
  "\<lbrakk>ok e; put_task api e k b = (Returned (Inr ()), e')\<rbrakk> \<Longrightarrow>
   ok e' \<and> ents e' = ents e \<and> kv e' = (kv e)(REGION_ID := (kv e REGION_ID)(k \<mapsto> b))"
  unfolding put_task_def
  by (cases "batch_put_message api (batch_default api) REGION_ID k b") (simp, simp, metis write_put)

lemma read_json_slot:
  "\<lbrakk>ok e; codec_ok json; slot_holds json x (kv e REGION_ID k)\<rbrakk> \<Longrightarrow> read_json api json e k = Inr x"
  by (cases x) (simp_all add: read_json_None read_json_Some)

lemma read_vote_stored: "stores kv ents ok js e a \<Longrightarrow> read_vote api js e = Inr (rl_vote a)"
  by (simp add: stores_def read_vote_def read_json_slot)

lemma read_committed_stored:
  "stores kv ents ok js e a \<Longrightarrow> read_committed api js e = Inr (rl_committed a)"
  using read_json_None [of e COMMITTED_KEY "committed_json js"]
    read_json_Some [of e "committed_json js" "rl_committed a" COMMITTED_KEY]
  by (auto simp: stores_def read_committed_def)

lemma save_vote_stored:
  assumes "stores kv ents ok js e a" "save_vote api js e v = (Inr (), e')"
  shows "stores kv ents ok js e' (a\<lparr>rl_vote := Some v\<rparr>)"
proof -
  obtain data where d: "to_vec (vote_json js) v = Inr data"
    and p: "put_task api e VOTE_KEY (Blob_new\<lparr>blob_data := data\<rparr>) = (Returned (Inr ()), e')"
    using assms(2)
    by (auto simp: save_vote_def map_err_Inr split: sum.splits prod.splits dest!: join_blocking_Inr)
  with put_task_effect [OF _ p] assms(1) show ?thesis
    by (auto simp: stores_def holds_json_def)
qed

lemma save_committed_stored:
  assumes "stores kv ents ok js e a" "save_committed api js e c = (Inr (), e')"
  shows "stores kv ents ok js e' (a\<lparr>rl_committed := c\<rparr>)"
proof -
  obtain data where d: "to_vec (committed_json js) c = Inr data"
    and p: "put_task api e COMMITTED_KEY (Blob_new\<lparr>blob_data := data\<rparr>) = (Returned (Inr ()), e')"
    using assms(2)
    by (auto simp: save_committed_def map_err_Inr split: sum.splits prod.splits dest!: join_blocking_Inr)
  with put_task_effect [OF _ p] assms(1) show ?thesis
    by (auto simp: stores_def holds_json_def)
qed

lemma get_log_state_stored:
  assumes "stores kv ents ok js e a"
  shows "get_log_state api js e = Inr (spec_log_state a)"
proof -
  have o: "ok e" and l: "list_all2 (\<lambda>b x. encode_entry (entry_json js) x = Inr b)
      (ents e REGION_ID) (rl_entries a)"
    and p: "read_json api (log_id_json js) e LAST_PURGED_KEY = Inr (rl_purged a)"
    using assms by (simp_all add: stores_def read_json_slot)
  show ?thesis
  proof (cases "ents e REGION_ID = []")
    case True
    with l have "rl_entries a = []" by simp
    with True o p show ?thesis
      by (simp add: get_log_state_def spec_log_state_def last_index)
  next
    case False
    have "decode_entry (entry_json js) (last (ents e REGION_ID)) = Inr (last (rl_entries a))"
      using list_all2_last [OF l False] by (simp add: encode_decode_entry)
    with False o p list_all2_empty [OF l] entry_at_last_index [OF o False] show ?thesis
      by (simp add: get_log_state_def spec_log_state_def)
  qed
qed

lemma no_hole_appendable:
  assumes "list_all2 (\<lambda>b x. encode_entry (entry_json js) x = Inr b) old xs"
    and bs: "list_all2 (\<lambda>b x. encode_entry (entry_json js) x = Inr b) bs es"
    and "no_hole xs es"
  shows "appendable old bs"
proof -
  have ne: "bs \<noteq> []" using assms(3) bs by (auto simp: no_hole_def)
  have idx: "BlobEntry_index (hd bs) = entry_index (hd es)"
    using list_all2_hd [OF bs ne] by (rule encode_entry_index)
  have "unat (BlobEntry_index (bs ! i)) = unat (BlobEntry_index (hd bs)) + i" if "i < length bs" for i
    using that bs assms(3) idx encode_entry_index [of "entry_json js" "es ! i" "bs ! i"]
    by (auto simp: list_all2_conv_all_nth no_hole_def)
  then show ?thesis
    using assms(1,3) ne idx list_all2_hd [OF assms(1)] list_all2_last [OF assms(1)] list_all2_empty [OF assms(1)]
    by (auto simp: appendable_def contiguous_def no_hole_def dest!: encode_entry_index)
qed

lemma append_stored:
  assumes "stores kv ents ok js e a" "log_append api js e es = (Inr (), e', cbs)"
    and "no_hole (rl_entries a) es"
  shows "stores kv ents ok js e' (spec_append es a)"
proof -
  obtain bs where "list_all2 (\<lambda>x b. encode_entry (entry_json js) x = Inr b) es bs"
    and t: "append_task api e bs = (Returned (Inr ()), e')"
    using assms(2)
    by (auto simp: log_append_def collect_results_Inr_iff split: sum.splits prod.splits dest!: join_blocking_Inr)
  then have bs: "list_all2 (\<lambda>b x. encode_entry (entry_json js) x = Inr b) bs es"
    by (simp add: list_all2_conv_all_nth)
  have o: "ok e" and l: "list_all2 (\<lambda>b x. encode_entry (entry_json js) x = Inr b)
      (ents e REGION_ID) (rl_entries a)"
    using assms(1) by (simp_all add: stores_def)
  have app: "appendable (ents e REGION_ID) bs" by (rule no_hole_appendable [OF l bs assms(3)])
  then have idx: "BlobEntry_index (hd bs) = entry_index (hd es)"
    using list_all2_hd [OF bs] by (auto simp: appendable_def intro: encode_entry_index)
  obtain bt where "batch_add_entries api (batch_with_capacity api (length bs)) REGION_ID bs = Inr bt"
    "eng_write api e bt True = (Returned (Inr ()), e')"
    using t by (auto simp: append_task_def split: sum.splits)
  then have eff: "ok e' \<and> kv e' = kv e \<and> ents e' = (ents e)(REGION_ID :=
      takeWhile (\<lambda>b. BlobEntry_index b < BlobEntry_index (hd bs)) (ents e REGION_ID) @ bs)"
    using write_entries [OF o] app by blast
  have "list_all2 (\<lambda>b x. encode_entry (entry_json js) x = Inr b)
      (takeWhile (\<lambda>b. BlobEntry_index b < BlobEntry_index (hd bs)) (ents e REGION_ID))
      (takeWhile (\<lambda>x. entry_index x < entry_index (hd es)) (rl_entries a))"
    by (rule list_all2_takeWhile [OF l]) (simp add: encode_entry_index idx)
  with eff bs assms(1) show ?thesis
    by (simp add: stores_def spec_append_def list_all2_appendI)
qed

lemma purge_stored:
  assumes "stores kv ents ok js e a" "purge checks api js e lid = (Inr (), e')" "index lid \<noteq> u64_max"
  shows "stores kv ents ok js e' (spec_purge lid a)"
proof -
  obtain data e1 where d: "to_vec (log_id_json js) lid = Inr data"
    and p: "put_task api e LAST_PURGED_KEY (Blob_new\<lparr>blob_data := data\<rparr>) = (Returned (Inr ()), e1)"
    and e': "e' = eng_compact_to api e1 REGION_ID (index lid + 1)"
    using assms(2,3)
    by (auto simp: purge_def purge_task_def map_err_Inr add_u64_one split: sum.splits prod.splits
        outcome.splits dest!: join_blocking_Inr)
  have o: "ok e" and l: "list_all2 (\<lambda>b x. encode_entry (entry_json js) x = Inr b)
      (ents e REGION_ID) (rl_entries a)"
    using assms(1) by (simp_all add: stores_def)
  note put = put_task_effect [OF o p]
  then have cmp: "ok e'" "kv e' = kv e1" "ents e' = (ents e)(REGION_ID :=
      filter (\<lambda>b. index lid + 1 \<le> BlobEntry_index b) (ents e REGION_ID))"
    using compact [of e1 REGION_ID "index lid + 1"] by (simp_all add: e')
  have "list_all2 (\<lambda>b x. encode_entry (entry_json js) x = Inr b)
      (filter (\<lambda>b. index lid + 1 \<le> BlobEntry_index b) (ents e REGION_ID))
      (filter (\<lambda>x. index lid < entry_index x) (rl_entries a))"
    by (rule list_all2_filter [OF l]) (simp add: encode_entry_index u64_Suc_le assms(3))
  with cmp put d assms(1) show ?thesis
    by (simp add: stores_def spec_purge_def holds_json_def)
qed

lemma try_get_stored:
  assumes "stores kv ents ok js e a"
    and "range_start checks lo = Returned start" "range_end checks hi = Returned stop"
    and "start \<le> stop"
    and all: "\<And>i. \<lbrakk>start \<le> i; i < stop\<rbrakk> \<Longrightarrow> i \<in> entry_index ` set (rl_entries a)"
  shows "try_get_log_entries checks api js e lo hi =
    Returned (Inr (filter (\<lambda>x. start \<le> entry_index x \<and> entry_index x < stop) (rl_entries a)))"
proof -
  have o: "ok e" and l: "list_all2 (\<lambda>b x. encode_entry (entry_json js) x = Inr b)
      (ents e REGION_ID) (rl_entries a)"
    using assms(1) by (simp_all add: stores_def)
  have "map BlobEntry_index (ents e REGION_ID) = map entry_index (rl_entries a)"
    using l by (induction rule: list_all2_induct) (simp_all add: encode_entry_index)
  then have "BlobEntry_index ` set (ents e REGION_ID) = entry_index ` set (rl_entries a)"
    by (metis set_map)
  then have f: "eng_fetch_entries_to api e REGION_ID start stop None =
      Returned (Inr (filter (\<lambda>b. start \<le> BlobEntry_index b \<and> BlobEntry_index b < stop) (ents e REGION_ID)))"
    by (intro fetch o assms(4)) (simp add: all)
  have "list_all2 (\<lambda>b x. encode_entry (entry_json js) x = Inr b)
      (filter (\<lambda>b. start \<le> BlobEntry_index b \<and> BlobEntry_index b < stop) (ents e REGION_ID))
      (filter (\<lambda>x. start \<le> entry_index x \<and> entry_index x < stop) (rl_entries a))"
    by (rule list_all2_filter [OF l]) (simp add: encode_entry_index)
  from decode_all [OF _ this] f show ?thesis
    by (simp add: try_get_log_entries_def assms(2,3))
qed

text \<open>
  The store ignores \<open>truncate\<close>. Once entries are appended at or before the truncation
  point, the log is the one that truncating first would have given.
\<close>

lemma try_get_compacted:
  assumes "stores kv ents ok js e a" "rl_entries a \<noteq> []"
    and "range_start checks lo = Returned start" "range_end checks hi = Returned stop"
    and "start < stop" "start < entry_index (hd (rl_entries a))"
  shows "\<exists>err. try_get_log_entries checks api js e lo hi = Returned (Inl err)"
proof -
  have o: "ok e" and l: "list_all2 (\<lambda>b x. encode_entry (entry_json js) x = Inr b) (ents e REGION_ID) (rl_entries a)"
    using assms(1) by (simp_all add: stores_def)
  have "ents e REGION_ID \<noteq> []" using list_all2_empty [OF l] assms(2) by simp
  moreover from this list_all2_hd [OF l] have "start < BlobEntry_index (hd (ents e REGION_ID))"
    using assms(6) by (simp add: encode_entry_index)
  ultimately obtain err where "eng_fetch_entries_to api e REGION_ID start stop None = Returned (Inl err)"
    using fetch_compacted [OF o] assms(5) by blast
  with assms(3,4) show ?thesis by (simp add: try_get_log_entries_def)
qed

lemma truncate_append_stored:
  assumes "stores kv ents ok js e a" "log_truncate api e lid = (Inr (), e1)"
    and "log_append api js e1 es = (Inr (), e', cbs)" "no_hole (rl_entries a) es"
    and "entry_index (hd es) \<le> index lid"
  shows "stores kv ents ok js e' (spec_append es (spec_truncate lid a))"
proof -
  have "e1 = e" using assms(2) by (simp add: log_truncate_def)
  then have "stores kv ents ok js e' (spec_append es a)"
    using append_stored assms by blast
  moreover have "takeWhile (\<lambda>x. entry_index x < entry_index (hd es))
      (takeWhile (\<lambda>x. entry_index x < index lid) xs) = takeWhile (\<lambda>x. entry_index x < entry_index (hd es)) xs"
    for xs :: "('lid, 'c, 'mem) Entry list"
    using assms(5) by (induction xs) auto
  ultimately show ?thesis by (simp add: spec_append_def spec_truncate_def)
qed

end

section \<open>The store over the in-memory engine\<close>

definition unary_codecs ::
  "('lid::countable, 'c::countable, 'mem::countable, 'vote::countable) log_codecs" where
  "unary_codecs =
     \<lparr>entry_json = unary_codec, log_id_json = unary_codec, vote_json = unary_codec,
      committed_json = unary_codec\<rparr>"

lemma unary_codecs_ok: "codecs_ok unary_codecs"
  by (simp add: codecs_ok_def unary_codecs_def unary_codec_ok)

interpretation mem_log: log_store mem_api mem_kv mem_ents mem_ok unary_codecs
  by unfold_locales (rule unary_codecs_ok)

definition empty_log :: "('lid, 'c, 'mem, 'vote) raft_log" where
  "empty_log = \<lparr>rl_vote = None, rl_committed = None, rl_purged = None, rl_entries = []\<rparr>"

lemma mem_empty_stores: "stores mem_kv mem_ents mem_ok js mem_empty empty_log"
  by (simp add: stores_def mem_empty_def empty_log_def mem_ok_def)

text \<open>Over this engine every write succeeds, an append where it leaves no hole.\<close>

lemma mem_save_vote: "\<exists>e'. save_vote mem_api unary_codecs e v = (Inr (), e')"
  by (simp add: save_vote_def unary_codecs_def unary_to_vec put_task_def mem_api_def)

lemma mem_save_committed: "\<exists>e'. save_committed mem_api unary_codecs e c = (Inr (), e')"
  by (simp add: save_committed_def unary_codecs_def unary_to_vec put_task_def mem_api_def)

lemma mem_purge: "index lid \<noteq> u64_max \<Longrightarrow> \<exists>e'. purge checks mem_api unary_codecs e lid = (Inr (), e')"
  by (simp add: purge_def purge_task_def add_u64_one unary_codecs_def unary_to_vec put_task_def mem_api_def)

lemma unary_entry_json [simp]: "entry_json unary_codecs = unary_codec"
  by (simp add: unary_codecs_def)

lemma unary_encode_all: "\<exists>bs. collect_results (encode_entry unary_codec) es = Inr bs"
  by (induction es) (auto simp: encode_entry_def unary_to_vec)

lemma mem_append:
  assumes "stores mem_kv mem_ents mem_ok unary_codecs e a" "no_hole (rl_entries a) es"
  shows "\<exists>e'. log_append mem_api unary_codecs e es = (Inr (), e', [Inr ()])"
proof -
  obtain bs where bs: "collect_results (encode_entry unary_codec) es = Inr bs"
    using unary_encode_all by blast
  then have "list_all2 (\<lambda>b x. encode_entry unary_codec x = Inr b) bs es"
    by (simp add: collect_results_Inr_iff list_all2_conv_all_nth)
  moreover have "list_all2 (\<lambda>b x. encode_entry unary_codec x = Inr b) (mem_ents e REGION_ID) (rl_entries a)"
    using assms(1) by (simp add: stores_def)
  ultimately have "appendable (mem_ents e REGION_ID) bs"
    using mem_log.no_hole_appendable [of "mem_ents e REGION_ID" "rl_entries a" bs es] assms(2) by simp
  then show ?thesis
    by (simp add: log_append_def bs append_task_def mem_api_def)
qed

text \<open>A log of three blank entries, as the witnesses use it.\<close>

definition blank_at :: "nat \<Rightarrow> u64 \<Rightarrow> (nat, nat, nat) Entry" where
  "blank_at t i = \<lparr>log_id = \<lparr>leader_id = t, index = i\<rparr>, entry_payload = Blank\<rparr>"

abbreviation nat_codecs :: "(nat, nat, nat, nat) log_codecs" where
  "nat_codecs \<equiv> unary_codecs"

definition blank_log :: "(nat, nat, nat, nat) raft_log" where
  "blank_log = empty_log\<lparr>rl_entries := [blank_at 1 1, blank_at 1 2, blank_at 1 3]\<rparr>"

lemma blank_at_index [simp]: "index (log_id (blank_at t i)) = i"
  by (simp add: blank_at_def)

lemma all_less_Suc: "(\<forall>i<Suc n. P i) \<longleftrightarrow> P n \<and> (\<forall>i<n. P i)"
  by (auto simp: less_Suc_eq)

lemma mem_blank_log: "\<exists>e. stores mem_kv mem_ents mem_ok unary_codecs e blank_log"
proof -
  let ?es = "[blank_at 1 1, blank_at 1 2, blank_at 1 3]"
  have nh: "no_hole (rl_entries (empty_log :: (nat, nat, nat, nat) raft_log)) ?es"
    by (simp add: no_hole_def empty_log_def all_less_Suc)
  with mem_append [OF mem_empty_stores] obtain e' where
    "log_append mem_api nat_codecs mem_empty ?es = (Inr (), e', [Inr ()])" by blast
  from mem_log.append_stored [OF mem_empty_stores this nh] show ?thesis
    by (auto simp: spec_append_def empty_log_def blank_log_def)
qed

section \<open>Properties\<close>

lemma log_storeI: "\<lbrakk>raft_engine api kv ents ok; codecs_ok js\<rbrakk> \<Longrightarrow> log_store api kv ents ok js"
  by (simp add: log_store_def log_store_axioms_def)

lemmas engine_log_state = log_store.get_log_state_stored [OF log_storeI]
lemmas engine_vote = log_store.read_vote_stored [OF log_storeI]
lemmas engine_committed = log_store.read_committed_stored [OF log_storeI]

text \<open>
  A vote that \<open>save_vote\<close> accepted is the vote that \<open>read_vote\<close> returns, also from an
  engine that is opened again, since nothing but the engine is consulted; the committed id
  and the log are not touched.
\<close>

theorem vote_is_durable:
  assumes "raft_engine api kv ents ok" and "codecs_ok js"
    and "stores kv ents ok js e a" and "save_vote api js e v = (Inr (), e')"
  shows "read_vote api js e' = Inr (Some v) \<and>
    read_committed api js e' = read_committed api js e \<and>
    get_log_state api js e' = get_log_state api js e"
proof -
  have "stores kv ents ok js e' (a\<lparr>rl_vote := Some v\<rparr>)"
    by (rule log_store.save_vote_stored [OF log_storeI [OF assms(1,2)] assms(3,4)])
  with assms show ?thesis
    by (simp add: engine_vote engine_committed engine_log_state spec_log_state_def)
qed

theorem vote_is_durable_witness:
  "\<exists>e'. save_vote mem_api nat_codecs mem_empty 7 = (Inr (), e') \<and>
    read_vote mem_api nat_codecs e' = Inr (Some 7)"
proof -
  obtain e' where s: "save_vote mem_api nat_codecs mem_empty 7 = (Inr (), e')"
    using mem_save_vote by blast
  from vote_is_durable [OF mem.raft_engine_axioms unary_codecs_ok mem_empty_stores s] s show ?thesis
    by blast
qed

text \<open>
  The committed id is durable in the same way, and for both of its shapes: after saving
  \<open>Some(id)\<close> it reads as that id, after saving \<open>None\<close> (stored as a JSON null) it reads
  as \<open>None\<close>.
\<close>

theorem committed_is_durable:
  assumes "raft_engine api kv ents ok" and "codecs_ok js"
    and "stores kv ents ok js e a" and "save_committed api js e c = (Inr (), e')"
  shows "read_committed api js e' = Inr c \<and> read_vote api js e' = read_vote api js e \<and>
    get_log_state api js e' = get_log_state api js e"
proof -
  have "stores kv ents ok js e' (a\<lparr>rl_committed := c\<rparr>)"
    by (rule log_store.save_committed_stored [OF log_storeI [OF assms(1,2)] assms(3,4)])
  with assms show ?thesis
    by (simp add: engine_vote engine_committed engine_log_state spec_log_state_def)
qed

theorem committed_is_durable_witness:
  "\<exists>e'. save_committed mem_api nat_codecs mem_empty None = (Inr (), e') \<and>
    read_committed mem_api nat_codecs e' = Inr None"
proof -
  obtain e' where s: "save_committed mem_api nat_codecs mem_empty None = (Inr (), e')"
    using mem_save_committed by blast
  from committed_is_durable [OF mem.raft_engine_axioms unary_codecs_ok mem_empty_stores s] s show ?thesis
    by blast
qed

text \<open>
  An append that returns Ok, of consecutive entries that leave no hole, makes the store
  hold the old entries below the first new index followed by the new ones (so it replaces a
  conflicting suffix), reports the last new id as the last log id, and leaves the vote, the
  committed id and the purge mark alone.
\<close>

theorem append_replaces_suffix:
  assumes "raft_engine api kv ents ok" and "codecs_ok js"
    and "stores kv ents ok js e a" and "no_hole (rl_entries a) es"
    and "log_append api js e es = (Inr (), e', cbs)"
  shows "stores kv ents ok js e' (spec_append es a) \<and>
    get_log_state api js e' =
      Inr \<lparr>last_purged_log_id = rl_purged a, state_last_log_id = Some (log_id (last es))\<rparr> \<and>
    read_vote api js e' = read_vote api js e \<and> read_committed api js e' = read_committed api js e"
proof -
  have st: "stores kv ents ok js e' (spec_append es a)"
    by (rule log_store.append_stored [OF log_storeI [OF assms(1,2)] assms(3,5,4)])
  moreover have "es \<noteq> []" using assms(4) by (simp add: no_hole_def)
  ultimately show ?thesis using assms(1-3)
    by (simp add: engine_vote engine_committed engine_log_state spec_log_state_def spec_append_def)
qed

theorem append_replaces_suffix_witness:
  "\<exists>e e'. log_append mem_api nat_codecs e [blank_at 2 2] =
      (Inr (), e', [Inr ()]) \<and>
    get_log_state mem_api nat_codecs e' =
      Inr \<lparr>last_purged_log_id = None, state_last_log_id = Some \<lparr>leader_id = 2, index = 2\<rparr>\<rparr> \<and>
    stores mem_kv mem_ents mem_ok nat_codecs e'
      (empty_log\<lparr>rl_entries := [blank_at 1 1, blank_at 2 2]\<rparr>)"
proof -
  obtain e where e: "stores mem_kv mem_ents mem_ok unary_codecs e blank_log"
    using mem_blank_log by blast
  have nh: "no_hole (rl_entries blank_log) [blank_at 2 2]"
    by (simp add: no_hole_def blank_log_def all_less_Suc)
  obtain e' where s: "log_append mem_api nat_codecs e [blank_at 2 2] =
      (Inr (), e', [Inr ()])"
    using mem_append [OF e nh] by blast
  from append_replaces_suffix [OF mem.raft_engine_axioms unary_codecs_ok e nh s] s show ?thesis
    by (intro exI [of _ e] exI [of _ e'])
       (simp add: spec_append_def blank_log_def empty_log_def, simp add: blank_at_def)
qed

text \<open>
  The flush callback of an append is called at most once and agrees with the result. It
  is not called exactly when an entry fails to serialize, and then nothing was written;
  otherwise it is called once, with Ok if and only if the append returns Ok.
\<close>

theorem append_reports_once:
  "case log_append api js e es of
     (r, e', cbs) \<Rightarrow>
       (case collect_results (encode_entry (entry_json js)) es of
          Inl err \<Rightarrow> r = Inl err \<and> e' = e \<and> cbs = []
        | Inr blobs \<Rightarrow>
            e' = snd (append_task api e blobs) \<and>
            (r = Inr () \<and> cbs = [Inr ()] \<or> (\<exists>err. r = Inl (to_storage_err err) \<and> cbs = [Inl err])))"
  by (auto simp: log_append_def case_prod_beta split: sum.split)

text \<open>
  C20: a purge that returns Ok removes exactly the entries up to the given index and records
  the given id: the store then holds the abstract log purged up to it, and where nothing is
  left the purged id is reported as the last log id.
\<close>

theorem purge_drops_prefix:
  assumes "raft_engine api kv ents ok" and "codecs_ok js" and "stores kv ents ok js e a"
    and "purge checks api js e lid = (Inr (), e')" and "index lid \<noteq> u64_max"
  shows "stores kv ents ok js e' (spec_purge lid a) \<and>
    get_log_state api js e' =
      Inr \<lparr>last_purged_log_id = Some lid,
           state_last_log_id =
             (case filter (\<lambda>x. index lid < entry_index x) (rl_entries a) of
                [] \<Rightarrow> Some lid | x # xs \<Rightarrow> Some (log_id (last (x # xs))))\<rparr> \<and>
    read_vote api js e' = read_vote api js e \<and> read_committed api js e' = read_committed api js e"
proof -
  have "stores kv ents ok js e' (spec_purge lid a)"
    by (rule log_store.purge_stored [OF log_storeI [OF assms(1,2)] assms(3,4,5)])
  with assms(1-3) show ?thesis
    by (simp add: engine_vote engine_committed engine_log_state spec_log_state_def spec_purge_def
        split: list.split)
qed

theorem purge_drops_prefix_witness:
  "\<exists>e e'. purge True mem_api nat_codecs e \<lparr>leader_id = 1, index = 3\<rparr> = (Inr (), e') \<and>
    stores mem_kv mem_ents mem_ok nat_codecs e blank_log \<and>
    get_log_state mem_api nat_codecs e' =
      Inr \<lparr>last_purged_log_id = Some \<lparr>leader_id = 1, index = 3\<rparr>,
           state_last_log_id = Some \<lparr>leader_id = 1, index = 3\<rparr>\<rparr>"
proof -
  obtain e where e: "stores mem_kv mem_ents mem_ok unary_codecs e blank_log"
    using mem_blank_log by blast
  have nm: "index \<lparr>leader_id = (1::nat), index = 3\<rparr> \<noteq> u64_max" by (simp add: u64_max_def)
  obtain e' where p: "purge True mem_api nat_codecs e \<lparr>leader_id = 1, index = 3\<rparr> = (Inr (), e')"
    using mem_purge [OF nm] by blast
  from purge_drops_prefix [OF mem.raft_engine_axioms unary_codecs_ok e p nm] p e show ?thesis
    by (intro exI [of _ e] exI [of _ e']) (simp add: blank_log_def)
qed

text \<open>
  A purge at index \<open>u64::MAX\<close> does not purge. The purge mark is written first; then
  \<open>index + 1\<close> overflows, which under checks fails the blocking task (the caller gets a
  storage error) and without checks asks the engine to compact to index 0. Either way no
  entry is removed while the mark says all were.
\<close>

theorem purge_at_max_keeps_entries:
  assumes "raft_engine api kv ents ok" and "codecs_ok js" and "stores kv ents ok js e a"
    and "to_vec (log_id_json js) lid = Inr data" and "index lid = u64_max"
    and "put_task api e LAST_PURGED_KEY (Blob_new\<lparr>blob_data := data\<rparr>) = (Returned (Inr ()), e1)"
  shows "\<exists>e'. purge checks api js e lid =
      ((if checks then Inl (to_storage_err ''task panicked'') else Inr ()), e') \<and>
    stores kv ents ok js e' (a\<lparr>rl_purged := Some lid\<rparr>)"
proof -
  have ls: "log_store api kv ents ok js" by (rule log_storeI [OF assms(1,2)])
  have o: "ok e" using assms(3) by (simp add: stores_def)
  note put = log_store.put_task_effect [OF ls o assms(6)]
  let ?e = "if checks then e1 else eng_compact_to api e1 REGION_ID 0"
  have "purge checks api js e lid = ((if checks then Inl (to_storage_err ''task panicked'') else Inr ()), ?e)"
    using assms(4,5,6) by (simp add: purge_def purge_task_def add_u64_one u64_max_Suc)
  moreover have "ok ?e \<and> kv ?e = kv e1 \<and> ents ?e = ents e"
    using raft_engine.compact [OF assms(1), of e1 REGION_ID 0] put by simp
  then have "stores kv ents ok js ?e (a\<lparr>rl_purged := Some lid\<rparr>)"
    using put assms(3,4) by (simp add: stores_def holds_json_def)
  ultimately show ?thesis by blast
qed

theorem purge_at_max_keeps_entries_witness:
  "\<exists>e e'. stores mem_kv mem_ents mem_ok nat_codecs e blank_log \<and>
    purge True mem_api nat_codecs e \<lparr>leader_id = 1, index = u64_max\<rparr> =
      (Inl (to_storage_err ''task panicked''), e') \<and>
    stores mem_kv mem_ents mem_ok nat_codecs e'
      (blank_log\<lparr>rl_purged := Some \<lparr>leader_id = 1, index = u64_max\<rparr>\<rparr>)"
proof -
  obtain e where e: "stores mem_kv mem_ents mem_ok unary_codecs e blank_log"
    using mem_blank_log by blast
  let ?lid = "\<lparr>leader_id = 1 :: nat, index = u64_max\<rparr>"
  have v: "to_vec (log_id_json nat_codecs) ?lid = Inr (replicate (to_nat ?lid) 0)"
    by (simp add: unary_codecs_def unary_to_vec)
  have i: "index ?lid = u64_max" by simp
  obtain e1 where "put_task mem_api e LAST_PURGED_KEY (Blob_new\<lparr>blob_data := replicate (to_nat ?lid) 0\<rparr>) =
      (Returned (Inr ()), e1)"
    by (simp add: put_task_def mem_api_def)
  from purge_at_max_keeps_entries [OF mem.raft_engine_axioms unary_codecs_ok e v i this, of True] e
  show ?thesis by auto
qed

text \<open>
  C21: reading a range. For any range whose bounds do not overflow and whose indices are all
  in the log, \<open>try_get_log_entries\<close> returns exactly the entries in it, in order.
\<close>

theorem range_read_is_exact:
  assumes "raft_engine api kv ents ok" and "codecs_ok js" and "stores kv ents ok js e a"
    and "range_start checks lo = Returned start" and "range_end checks hi = Returned stop"
    and "start \<le> stop"
    and "\<And>i. \<lbrakk>start \<le> i; i < stop\<rbrakk> \<Longrightarrow> i \<in> entry_index ` set (rl_entries a)"
  shows "try_get_log_entries checks api js e lo hi =
    Returned (Inr (filter (\<lambda>x. start \<le> entry_index x \<and> entry_index x < stop) (rl_entries a)))"
  by (rule log_store.try_get_stored [OF log_storeI [OF assms(1,2)] assms(3-7)])

theorem range_read_is_exact_witness:
  "\<exists>e. stores mem_kv mem_ents mem_ok nat_codecs e blank_log \<and>
    try_get_log_entries True mem_api nat_codecs e (Included 2) (Included 3) =
      Returned (Inr [blank_at 1 2, blank_at 1 3])"
proof -
  obtain e where e: "stores mem_kv mem_ents mem_ok unary_codecs e blank_log"
    using mem_blank_log by blast
  have lo: "range_start True (Included 2) = Returned 2" by simp
  have hi: "range_end True (Included 3) = Returned 4" by (simp add: add_u64_def)
  have "i \<in> entry_index ` set (rl_entries blank_log)" if "2 \<le> i" "i < 4" for i
  proof -
    have "unat i = 2 \<or> unat i = 3" using that by (auto simp: word_le_nat_alt word_less_nat_alt)
    then have "i = 2 \<or> i = 3" by (auto simp: word_unat_eq_iff)
    then show ?thesis by (auto simp: blank_log_def)
  qed
  from range_read_is_exact [OF mem.raft_engine_axioms unary_codecs_ok e lo hi _ this] e show ?thesis
    by (intro exI [of _ e]) (simp add: blank_log_def word_le_nat_alt)
qed

text \<open>
  Truncation takes effect with the next append. \<open>truncate\<close> itself writes nothing, but
  once entries are appended at or before the truncated index, the store holds the log that
  truncating first and appending then would have produced.
\<close>

theorem truncate_then_append:
  assumes "raft_engine api kv ents ok" and "codecs_ok js" and "stores kv ents ok js e a"
    and "log_truncate api e lid = (Inr (), e1)" and "log_append api js e1 es = (Inr (), e', cbs)"
    and "no_hole (rl_entries a) es" and "entry_index (hd es) \<le> index lid"
  shows "stores kv ents ok js e' (spec_append es (spec_truncate lid a))"
  by (rule log_store.truncate_append_stored [OF log_storeI [OF assms(1,2)] assms(3-7)])

theorem truncate_then_append_witness:
  "\<exists>e e'. stores mem_kv mem_ents mem_ok nat_codecs e blank_log \<and>
    log_append mem_api nat_codecs (snd (log_truncate mem_api e \<lparr>leader_id = 1::nat, index = 2\<rparr>)) [blank_at 4 2] =
      (Inr (), e', [Inr ()]) \<and>
    stores mem_kv mem_ents mem_ok nat_codecs e' (empty_log\<lparr>rl_entries := [blank_at 1 1, blank_at 4 2]\<rparr>)"
proof -
  obtain e where e: "stores mem_kv mem_ents mem_ok unary_codecs e blank_log"
    using mem_blank_log by blast
  have nh: "no_hole (rl_entries blank_log) [blank_at 4 2]"
    by (simp add: no_hole_def blank_log_def all_less_Suc)
  have t: "log_truncate mem_api e \<lparr>leader_id = 1::nat, index = 2\<rparr> = (Inr (), e)"
    by (simp add: log_truncate_def)
  obtain e' where s: "log_append mem_api nat_codecs e [blank_at 4 2] = (Inr (), e', [Inr ()])"
    using mem_append [OF e nh] by blast
  from truncate_then_append [OF mem.raft_engine_axioms unary_codecs_ok e t s nh] s e t show ?thesis
    by (intro exI [of _ e] exI [of _ e'])
       (simp add: spec_append_def spec_truncate_def blank_log_def empty_log_def)
qed

lemma last_filter: "\<lbrakk>xs \<noteq> []; P (last xs)\<rbrakk> \<Longrightarrow> filter P xs \<noteq> [] \<and> last (filter P xs) = last xs"
  by (induction xs rule: rev_induct) auto

text \<open>
  C22: between a truncation and the next append the truncated entries are still there. When
  openraft installs a snapshot over a conflicting log it truncates and then purges up to the
  snapshot's id; the store then still reports an entry from after the truncation point as
  its last log id, where the abstract log has the snapshot's id. That stale id can have an
  older leader than the purged one.
\<close>

theorem truncate_leaves_stale_tail:
  assumes "raft_engine api kv ents ok" and "codecs_ok js" and "stores kv ents ok js e a"
    and "log_truncate api e t = (Inr (), e1)" and "purge checks api js e1 lid = (Inr (), e2)"
    and "rl_entries a \<noteq> []" and "index t \<le> index lid" and "index lid < entry_index (last (rl_entries a))"
  shows "get_log_state api js e2 =
      Inr \<lparr>last_purged_log_id = Some lid, state_last_log_id = Some (log_id (last (rl_entries a)))\<rparr> \<and>
    spec_log_state (spec_purge lid (spec_truncate t a)) =
      \<lparr>last_purged_log_id = Some lid, state_last_log_id = Some lid\<rparr>"
proof -
  have "e1 = e" using assms(4) by (simp add: log_truncate_def)
  moreover have "index lid \<noteq> u64_max"
    using assms(8) unat_u64_less [of "entry_index (last (rl_entries a))"]
    by (auto simp: word_less_nat_alt unat_u64_max)
  ultimately have "stores kv ents ok js e2 (spec_purge lid a)"
    using log_store.purge_stored [OF log_storeI [OF assms(1,2)] assms(3)] assms(5) by metis
  then have "get_log_state api js e2 = Inr (spec_log_state (spec_purge lid a))"
    by (rule engine_log_state [OF assms(1,2)])
  moreover have "filter (\<lambda>x. index lid < entry_index x) (takeWhile (\<lambda>x. entry_index x < index t) (rl_entries a)) = []"
    using assms(7) by (auto simp: filter_empty_conv dest!: set_takeWhileD)
  ultimately show ?thesis
    using last_filter [of "rl_entries a" "\<lambda>x. index lid < entry_index x"] assms(6,8)
    by (simp add: spec_log_state_def spec_purge_def spec_truncate_def)
qed

theorem truncate_leaves_stale_tail_witness:
  "\<exists>e e2. stores mem_kv mem_ents mem_ok nat_codecs e blank_log \<and>
    purge True mem_api nat_codecs (snd (log_truncate mem_api e \<lparr>leader_id = 1::nat, index = 1\<rparr>))
      \<lparr>leader_id = 2, index = 2\<rparr> = (Inr (), e2) \<and>
    get_log_state mem_api nat_codecs e2 =
      Inr \<lparr>last_purged_log_id = Some \<lparr>leader_id = 2, index = 2\<rparr>,
           state_last_log_id = Some \<lparr>leader_id = 1, index = 3\<rparr>\<rparr>"
proof -
  obtain e where e: "stores mem_kv mem_ents mem_ok unary_codecs e blank_log"
    using mem_blank_log by blast
  have t: "log_truncate mem_api e \<lparr>leader_id = 1::nat, index = 1\<rparr> = (Inr (), e)"
    by (simp add: log_truncate_def)
  have "index \<lparr>leader_id = (2::nat), index = 2\<rparr> \<noteq> u64_max" by (simp add: u64_max_def)
  then obtain e2 where p: "purge True mem_api nat_codecs e \<lparr>leader_id = 2, index = 2\<rparr> = (Inr (), e2)"
    using mem_purge by blast
  from truncate_leaves_stale_tail [OF mem.raft_engine_axioms unary_codecs_ok e t p] e t p show ?thesis
    by (intro exI [of _ e] exI [of _ e2])
       (simp add: blank_log_def word_le_nat_alt word_less_nat_alt, simp add: blank_at_def)
qed

end
