(* ===== verification/Log_Run.thy ===== *)
theory Log_Run
  imports Log_Store
begin

text \<open>
  Whole runs of the log store. openraft holds the store and hands out readers that are clones
  of it (\<open>get_log_reader\<close>); all of them share one engine behind an \<open>Arc\<close>. Operations go
  through any handle in any order, and every handle sees the abstract Raft log that the
  operations so far describe, also across truncations that the store leaves to the next
  append.
\<close>

section \<open>Handles\<close>

record RaftEngineLogStore =
  store_engine :: addr

definition log_store_clone :: "RaftEngineLogStore \<Rightarrow> RaftEngineLogStore" where
  "log_store_clone self = \<lparr>store_engine = store_engine self\<rparr>"

definition get_log_reader :: "RaftEngineLogStore \<Rightarrow> RaftEngineLogStore" where
  "get_log_reader self = log_store_clone self"

section \<open>Operations\<close>

datatype ('lid, 'c, 'mem, 'vote) log_op =
    Append "('lid, 'c, 'mem) Entry list"
  | Truncate "'lid LogId"
  | Purge "'lid LogId"
  | SaveVote 'vote
  | SaveCommitted "'lid LogId option"

fun run_op ::
  "bool \<Rightarrow> ('e, 'b) engine_api \<Rightarrow> ('lid, 'c, 'mem, 'vote) log_codecs \<Rightarrow> ('lid, 'c, 'mem, 'vote) log_op \<Rightarrow> 'e
     \<Rightarrow> (StorageError, unit) result \<times> 'e" where
  "run_op checks api js (Append es) e = (case log_append api js e es of (r, e', reports) \<Rightarrow> (r, e'))"
| "run_op checks api js (Truncate lid) e = log_truncate api e lid"
| "run_op checks api js (Purge lid) e = purge checks api js e lid"
| "run_op checks api js (SaveVote v) e = save_vote api js e v"
| "run_op checks api js (SaveCommitted c) e = save_committed api js e c"

text \<open>
  A run: a reader is taken from a handle, or an operation succeeds through one. A storage
  error ends a run, since openraft shuts the node down on it.
\<close>

record 'e log_node =
  ln_engines :: "addr \<Rightarrow> 'e"
  ln_handles :: "RaftEngineLogStore list"

inductive log_run ::
  "bool \<Rightarrow> ('e, 'b) engine_api \<Rightarrow> ('lid, 'c, 'mem, 'vote) log_codecs
     \<Rightarrow> 'e log_node \<Rightarrow> ('lid, 'c, 'mem, 'vote) log_op list \<Rightarrow> 'e log_node \<Rightarrow> bool"
  for checks api js where
  starts: "log_run checks api js s [] s"
| takes_reader:
    "\<lbrakk>log_run checks api js s ops t; i < length (ln_handles t)\<rbrakk> \<Longrightarrow>
     log_run checks api js s ops (t\<lparr>ln_handles := ln_handles t @ [get_log_reader (ln_handles t ! i)]\<rparr>)"
| operates:
    "\<lbrakk>log_run checks api js s ops t; i < length (ln_handles t); a = store_engine (ln_handles t ! i);
      run_op checks api js x (ln_engines t a) = (Inr (), e)\<rbrakk> \<Longrightarrow>
     log_run checks api js s (ops @ [x]) (t\<lparr>ln_engines := (ln_engines t)(a := e)\<rparr>)"

section \<open>What openraft asks for\<close>

text \<open>
  The abstract log with the index of a truncation that no append has followed yet, what each
  operation does to it, and the runs that are considered: entries leave no hole and continue
  at the truncation, only entries of the log are truncated, and a purge stays before a
  truncation. (A purge past a pending truncation is what \<open>truncate_leaves_stale_tail\<close> is
  about.)
\<close>

type_synonym ('lid, 'c, 'mem, 'vote) pending_log = "('lid, 'c, 'mem, 'vote) raft_log \<times> u64 option"

fun spec_op ::
  "('lid, 'c, 'mem, 'vote) log_op \<Rightarrow> ('lid, 'c, 'mem, 'vote) pending_log \<Rightarrow> ('lid, 'c, 'mem, 'vote) pending_log" where
  "spec_op (Append es) (a, pend) = (spec_append es a, None)"
| "spec_op (Truncate lid) (a, pend) = (spec_truncate lid a, Some (index lid))"
| "spec_op (Purge lid) (a, pend) = (spec_purge lid a, pend)"
| "spec_op (SaveVote v) (a, pend) = (a\<lparr>rl_vote := Some v\<rparr>, pend)"
| "spec_op (SaveCommitted c) (a, pend) = (a\<lparr>rl_committed := c\<rparr>, pend)"

fun op_allowed :: "('lid, 'c, 'mem, 'vote) log_op \<Rightarrow> ('lid, 'c, 'mem, 'vote) pending_log \<Rightarrow> bool" where
  "op_allowed (Append es) (a, pend) \<longleftrightarrow>
     no_hole (rl_entries a) es \<and> (rl_entries a = [] \<longrightarrow> (\<forall>i. pend = Some i \<longrightarrow> entry_index (hd es) = i))"
| "op_allowed (Truncate lid) (a, pend) \<longleftrightarrow> index lid \<in> entry_index ` set (rl_entries a)"
| "op_allowed (Purge lid) (a, pend) \<longleftrightarrow> index lid \<noteq> u64_max \<and> (\<forall>i. pend = Some i \<longrightarrow> index lid < i)"
| "op_allowed (SaveVote v) (a, pend) \<longleftrightarrow> True"
| "op_allowed (SaveCommitted c) (a, pend) \<longleftrightarrow> True"

fun ops_allowed :: "('lid, 'c, 'mem, 'vote) log_op list \<Rightarrow> ('lid, 'c, 'mem, 'vote) pending_log \<Rightarrow> bool" where
  "ops_allowed [] a = True"
| "ops_allowed (x # xs) a \<longleftrightarrow> op_allowed x a \<and> ops_allowed xs (spec_op x a)"

lemma ops_allowed_append: "ops_allowed (xs @ ys) a \<longleftrightarrow> ops_allowed xs a \<and> ops_allowed ys (fold spec_op xs a)"
  by (induction xs arbitrary: a) auto

section \<open>The simulation\<close>

text \<open>Entries with consecutive indexes.\<close>

definition consecutive :: "('lid, 'c, 'mem) Entry list \<Rightarrow> bool" where
  "consecutive xs \<longleftrightarrow> (\<forall>i<length xs. unat (entry_index (xs ! i)) = unat (entry_index (hd xs)) + i)"

lemma consecutive_nth:
  "\<lbrakk>consecutive xs; i < length xs\<rbrakk> \<Longrightarrow> unat (entry_index (xs ! i)) = unat (entry_index (hd xs)) + i"
  by (simp add: consecutive_def)

lemma consecutive_hd_next:
  assumes "consecutive (xs @ ys)" "xs \<noteq> []" "ys \<noteq> []"
  shows "unat (entry_index (hd ys)) = Suc (unat (entry_index (last xs)))"
proof -
  obtain k where k: "length xs = Suc k" using assms(2) by (cases xs) auto
  with consecutive_nth [OF assms(1), of k] consecutive_nth [OF assms(1), of "Suc k"] assms(2,3) show ?thesis
    by (simp add: nth_append last_conv_nth hd_conv_nth)
qed

lemma consecutive_sorted: "consecutive xs \<Longrightarrow> sorted_wrt (\<lambda>x y. entry_index x < entry_index y) xs"
  by (auto simp: consecutive_def sorted_wrt_iff_nth_less word_less_nat_alt)

lemma takeWhile_cut: "\<not> P y \<Longrightarrow> takeWhile P (xs @ y # ys) = takeWhile P xs"
  by (induction xs) auto

lemma takeWhile_below:
  assumes "sorted_wrt (\<lambda>x y. entry_index x < entry_index y) (xs @ y # ys)"
  shows "takeWhile (\<lambda>x. entry_index x < entry_index y) (xs @ y # ys) = xs"
  using assms by (induction xs) auto

text \<open>The engine holds the log, and behind it what a pending truncation has cut off.\<close>

definition holds_log where
  "holds_log kv ents ok js e p \<longleftrightarrow> (case p of (a, pend) \<Rightarrow> \<exists>stale.
     stores kv ents ok js e (a\<lparr>rl_entries := rl_entries a @ stale\<rparr>) \<and>
     (case pend of None \<Rightarrow> stale = [] | Some i \<Rightarrow> stale \<noteq> [] \<and> entry_index (hd stale) = i))"

lemma holds_logI:
  "\<lbrakk>stores kv ents ok js e (a\<lparr>rl_entries := rl_entries a @ stale\<rparr>);
    case pend of None \<Rightarrow> stale = [] | Some i \<Rightarrow> stale \<noteq> [] \<and> entry_index (hd stale) = i\<rbrakk> \<Longrightarrow>
   holds_log kv ents ok js e (a, pend)"
  by (auto simp: holds_log_def)

context log_store
begin

abbreviation holds :: "'e \<Rightarrow> ('lid, 'c, 'mem, 'vote) pending_log \<Rightarrow> bool" where
  "holds \<equiv> holds_log kv ents ok js"

lemma holdsE:
  assumes "holds e (a, pend)"
  obtains stale where "stores kv ents ok js e (a\<lparr>rl_entries := rl_entries a @ stale\<rparr>)"
    "case pend of None \<Rightarrow> stale = [] | Some i \<Rightarrow> stale \<noteq> [] \<and> entry_index (hd stale) = i"
    "consecutive (rl_entries a @ stale)"
proof -
  from assms obtain stale where st: "stores kv ents ok js e (a\<lparr>rl_entries := rl_entries a @ stale\<rparr>)"
    "case pend of None \<Rightarrow> stale = [] | Some i \<Rightarrow> stale \<noteq> [] \<and> entry_index (hd stale) = i"
    by (auto simp: holds_log_def)
  let ?xs = "rl_entries a @ stale"
  have l: "list_all2 (\<lambda>b x. encode_entry (entry_json js) x = Inr b) (ents e REGION_ID) ?xs" and "ok e"
    using st(1) by (simp_all add: stores_def)
  have "unat (entry_index (?xs ! i)) = unat (entry_index (hd ?xs)) + i" if i: "i < length ?xs" for i
  proof -
    have n: "i < length (ents e REGION_ID)" "ents e REGION_ID \<noteq> []" using i list_all2_lengthD [OF l] by auto
    have "BlobEntry_index (ents e REGION_ID ! i) = entry_index (?xs ! i)"
      using list_all2_nthD [OF l n(1)] by (rule encode_entry_index)
    moreover have "BlobEntry_index (hd (ents e REGION_ID)) = entry_index (hd ?xs)"
      using list_all2_hd [OF l n(2)] by (rule encode_entry_index)
    ultimately show ?thesis
      using contiguous_nth [OF ents_contiguous [OF \<open>ok e\<close>] n(1)] by simp
  qed
  then have "consecutive ?xs" by (simp add: consecutive_def)
  with st that show thesis by blast
qed

lemma append_holds:
  assumes h: "holds e (a, pend)" and ap: "log_append api js e es = (Inr (), e', reports)"
    and al: "op_allowed (Append es) (a, pend)"
  shows "holds e' (spec_append es a, None)"
proof -
  from h obtain stale where st: "stores kv ents ok js e (a\<lparr>rl_entries := rl_entries a @ stale\<rparr>)"
    "case pend of None \<Rightarrow> stale = [] | Some i \<Rightarrow> stale \<noteq> [] \<and> entry_index (hd stale) = i"
    "consecutive (rl_entries a @ stale)" by (rule holdsE)
  let ?L = "rl_entries a"
  have nh: "no_hole ?L es" and at: "\<lbrakk>?L = []; stale \<noteq> []\<rbrakk> \<Longrightarrow> entry_index (hd es) = entry_index (hd stale)"
    using al st(2) by (auto split: option.splits)
  have hd_stale: "unat (entry_index (hd es)) \<le> unat (entry_index (hd stale))" if "stale \<noteq> []"
    using at that nh consecutive_hd_next [OF st(3)] by (cases "?L = []") (auto simp: no_hole_def)
  have last: "unat (entry_index (hd stale)) \<le> unat (entry_index (last stale))" if "stale \<noteq> []"
    using that consecutive_sorted [OF st(3)]
    by (cases stale) (auto simp: sorted_wrt_append word_less_nat_alt less_imp_le)
  have "no_hole (?L @ stale) es"
  proof (cases "?L = []")
    case True
    with nh have "es \<noteq> []" "\<forall>i<length es. unat (entry_index (es ! i)) = unat (entry_index (hd es)) + i"
      by (simp_all add: no_hole_def)
    moreover have "unat (entry_index (hd es)) = unat (entry_index (hd stale))" if "stale \<noteq> []"
      using at [OF True that] by (rule arg_cong)
    ultimately show ?thesis unfolding True append_Nil no_hole_def using last by (metis le_SucI order_refl)
  next
    case False
    then have "unat (entry_index (last ?L)) \<le> unat (entry_index (last (?L @ stale)))"
      using last consecutive_hd_next [OF st(3)] by (cases "stale = []") auto
    with False nh show ?thesis by (simp add: no_hole_def)
  qed
  then have "stores kv ents ok js e' (spec_append es (a\<lparr>rl_entries := ?L @ stale\<rparr>))"
    using append_stored [OF st(1) ap] by simp
  moreover have "takeWhile (\<lambda>x. entry_index x < entry_index (hd es)) (?L @ stale) =
      takeWhile (\<lambda>x. entry_index x < entry_index (hd es)) ?L"
    using hd_stale by (cases stale) (simp_all add: takeWhile_cut word_less_nat_alt)
  ultimately show ?thesis by (intro holds_logI [where stale = "[]"]) (simp_all add: spec_append_def)
qed

lemma truncate_holds:
  assumes h: "holds e (a, pend)" and al: "index lid \<in> entry_index ` set (rl_entries a)"
  shows "holds e (spec_truncate lid a, Some (index lid))"
proof -
  from h obtain stale where st: "stores kv ents ok js e (a\<lparr>rl_entries := rl_entries a @ stale\<rparr>)"
    "consecutive (rl_entries a @ stale)" by (rule holdsE)
  from al obtain xs y ys where L: "rl_entries a = xs @ y # ys" "entry_index y = index lid"
    by (auto dest: split_list)
  have "sorted_wrt (\<lambda>x y. entry_index x < entry_index y) (xs @ y # ys)"
    using consecutive_sorted [OF st(2)] L(1) by (simp add: sorted_wrt_append)
  from takeWhile_below [OF this] L st(1) show ?thesis
    by (intro holds_logI [where stale = "y # ys @ stale"]) (simp_all add: spec_truncate_def)
qed

lemma purge_holds:
  assumes h: "holds e (a, pend)" and pg: "purge checks api js e lid = (Inr (), e')"
    and al: "op_allowed (Purge lid) (a, pend)"
  shows "holds e' (spec_purge lid a, pend)"
proof -
  from h obtain stale where st: "stores kv ents ok js e (a\<lparr>rl_entries := rl_entries a @ stale\<rparr>)"
    "case pend of None \<Rightarrow> stale = [] | Some i \<Rightarrow> stale \<noteq> [] \<and> entry_index (hd stale) = i"
    "consecutive (rl_entries a @ stale)" by (rule holdsE)
  have "index lid < entry_index x" if "x \<in> set stale" for x
  proof -
    from that obtain y ys where "stale = y # ys" by (cases stale) auto
    with that st(2,3) al consecutive_sorted [OF st(3)] show ?thesis
      by (auto simp: sorted_wrt_append split: option.splits)
  qed
  then have "filter (\<lambda>x. index lid < entry_index x) stale = stale" by (simp add: filter_id_conv)
  moreover have "stores kv ents ok js e' (spec_purge lid (a\<lparr>rl_entries := rl_entries a @ stale\<rparr>))"
    using purge_stored [OF st(1) pg] al by simp
  ultimately show ?thesis using st(2) by (intro holds_logI [where stale = stale]) (simp_all add: spec_purge_def)
qed

lemma op_holds:
  assumes "holds e p" "run_op checks api js x e = (Inr (), e')" "op_allowed x p"
  shows "holds e' (spec_op x p)"
proof -
  obtain a pend where p: "p = (a, pend)" by (cases p)
  show ?thesis
  proof (cases x)
    case (Append es)
    with assms p append_holds show ?thesis by (auto split: prod.splits)
  next
    case (Truncate lid)
    with assms p truncate_holds show ?thesis by (auto simp: log_truncate_def)
  next
    case (Purge lid)
    with assms p purge_holds show ?thesis by auto
  next
    case (SaveVote v)
    from assms(1) obtain stale where st: "stores kv ents ok js e (a\<lparr>rl_entries := rl_entries a @ stale\<rparr>)"
      "case pend of None \<Rightarrow> stale = [] | Some i \<Rightarrow> stale \<noteq> [] \<and> entry_index (hd stale) = i"
      unfolding p by (rule holdsE)
    with save_vote_stored [OF st(1)] assms(2) SaveVote p show ?thesis
      by (cases a) (auto intro!: holds_logI [where stale = stale])
  next
    case (SaveCommitted c)
    from assms(1) obtain stale where st: "stores kv ents ok js e (a\<lparr>rl_entries := rl_entries a @ stale\<rparr>)"
      "case pend of None \<Rightarrow> stale = [] | Some i \<Rightarrow> stale \<noteq> [] \<and> entry_index (hd stale) = i"
      unfolding p by (rule holdsE)
    with save_committed_stored [OF st(1)] assms(2) SaveCommitted p show ?thesis
      by (cases a) (auto intro!: holds_logI [where stale = stale])
  qed
qed

text \<open>Reads of a run: all handles share the one engine.\<close>

lemma run_holds:
  "\<lbrakk>log_run checks api js s ops t; ln_handles s = [\<lparr>store_engine = a\<rparr>]; holds (ln_engines s a) p;
    ops_allowed ops p\<rbrakk> \<Longrightarrow>
   (\<forall>self\<in>set (ln_handles t). store_engine self = a) \<and> holds (ln_engines t a) (fold spec_op ops p)"
proof (induction rule: log_run.induct)
  case (takes_reader s ops t i)
  then show ?case by (auto simp: get_log_reader_def log_store_clone_def)
next
  case (operates s ops t i b x e)
  then have "store_engine (ln_handles t ! i) = a" "holds (ln_engines t a) (fold spec_op ops p)"
    "op_allowed x (fold spec_op ops p)" by (auto simp: ops_allowed_append)
  with operates op_holds [of "ln_engines t a" "fold spec_op ops p" checks x e] show ?case
    by (auto simp: ops_allowed_append)
qed auto

lemma holds_reads:
  assumes "holds e (a, pend)"
  shows "read_vote api js e = Inr (rl_vote a)" and "read_committed api js e = Inr (rl_committed a)"
    and "pend = None \<Longrightarrow> get_log_state api js e = Inr (spec_log_state a)"
    and "\<lbrakk>start \<le> stop; \<And>i. \<lbrakk>start \<le> i; i < stop\<rbrakk> \<Longrightarrow> i \<in> entry_index ` set (rl_entries a)\<rbrakk> \<Longrightarrow>
      try_get_log_entries checks api js e (Included start) (Excluded stop) =
        Returned (Inr (filter (\<lambda>x. start \<le> entry_index x \<and> entry_index x < stop) (rl_entries a)))"
proof -
  from assms obtain stale where st: "stores kv ents ok js e (a\<lparr>rl_entries := rl_entries a @ stale\<rparr>)"
    "case pend of None \<Rightarrow> stale = [] | Some i \<Rightarrow> stale \<noteq> [] \<and> entry_index (hd stale) = i"
    "consecutive (rl_entries a @ stale)" by (rule holdsE)
  show "read_vote api js e = Inr (rl_vote a)" "read_committed api js e = Inr (rl_committed a)"
    using read_vote_stored [OF st(1)] read_committed_stored [OF st(1)] by simp_all
  show "get_log_state api js e = Inr (spec_log_state a)" if "pend = None"
    using get_log_state_stored [OF st(1)] st(2) that by simp
  assume r: "start \<le> stop" "\<And>i. \<lbrakk>start \<le> i; i < stop\<rbrakk> \<Longrightarrow> i \<in> entry_index ` set (rl_entries a)"
  have "\<not> (start \<le> entry_index x \<and> entry_index x < stop)" if "x \<in> set stale" for x
    using that r(2) [of "entry_index x"] consecutive_sorted [OF st(3)] by (force simp: sorted_wrt_append)
  then have cut: "filter (\<lambda>x. start \<le> entry_index x \<and> entry_index x < stop) stale = []"
    by (simp add: filter_empty_conv)
  show "try_get_log_entries checks api js e (Included start) (Excluded stop) =
        Returned (Inr (filter (\<lambda>x. start \<le> entry_index x \<and> entry_index x < stop) (rl_entries a)))"
    using try_get_stored [OF st(1) _ _ r(1), of checks "Included start" "Excluded stop"] r(2) cut by auto
qed

end

section \<open>Property\<close>

text \<open>
  C11: a whole run of the log store is the run of an abstract Raft log. Whatever sequence of
  appends, truncations, purges, votes and committed ids openraft issues, through whichever
  handles, every handle, readers taken at any time included, then reads the vote, the
  committed id and every range of the log that the operations describe; the log state is
  exact whenever the last truncation was followed by an append. Entries leave no hole, and
  no purge reaches past a truncation before the append that follows it.
\<close>

theorem log_runs_refine:
  assumes "raft_engine api kv ents ok" and "codecs_ok js" and "stores kv ents ok js (engines adr) empty_log"
    and "log_run checks api js \<lparr>ln_engines = engines, ln_handles = [\<lparr>store_engine = adr\<rparr>]\<rparr> ops t"
    and "ops_allowed ops (empty_log, None)" and "fold spec_op ops (empty_log, None) = (a, pend)"
    and "self \<in> set (ln_handles t)"
  shows "read_vote api js (ln_engines t (store_engine self)) = Inr (rl_vote a)
    \<and> read_committed api js (ln_engines t (store_engine self)) = Inr (rl_committed a)
    \<and> (pend = None \<longrightarrow> get_log_state api js (ln_engines t (store_engine self)) = Inr (spec_log_state a))
    \<and> (\<forall>start stop. start \<le> stop \<longrightarrow> (\<forall>i. start \<le> i \<and> i < stop \<longrightarrow> i \<in> entry_index ` set (rl_entries a)) \<longrightarrow>
        try_get_log_entries checks api js (ln_engines t (store_engine self)) (Included start) (Excluded stop) =
          Returned (Inr (filter (\<lambda>x. start \<le> entry_index x \<and> entry_index x < stop) (rl_entries a))))"
proof -
  note store = log_storeI [OF assms(1,2)]
  have "holds_log kv ents ok js (engines adr) (empty_log, None)"
    using assms(3) by (intro holds_logI [where stale = "[]"]) (simp_all add: empty_log_def)
  with log_store.run_holds [OF store assms(4), of adr "(empty_log, None)"] assms(5-7)
  have self: "store_engine self = adr" and h: "holds_log kv ents ok js (ln_engines t adr) (a, pend)" by auto
  show ?thesis unfolding self
    using log_store.holds_reads [OF store h] by blast
qed

text \<open>A run in memory: a reader is taken before a truncation and the append that follows it.\<close>

abbreviation sample_ops :: "(nat, nat, nat, nat) log_op list" where
  "sample_ops \<equiv> [Append [blank_at 1 1, blank_at 1 2, blank_at 1 3], Truncate \<lparr>leader_id = 1, index = 2\<rparr>,
     Append [blank_at 4 2], SaveVote 7]"

lemma sample_spec:
  "ops_allowed sample_ops (empty_log, None)"
  "fold spec_op sample_ops (empty_log, None) =
     (\<lparr>rl_vote = Some 7, rl_committed = None, rl_purged = None, rl_entries = [blank_at 1 1, blank_at 4 2]\<rparr>, None)"
  by (simp_all add: no_hole_def empty_log_def all_less_Suc spec_append_def spec_truncate_def)

lemma sample_run:
  "\<exists>t. log_run True mem_api nat_codecs \<lparr>ln_engines = \<lambda>_. mem_empty, ln_handles = [\<lparr>store_engine = 0\<rparr>]\<rparr> sample_ops t
     \<and> ln_handles t = [\<lparr>store_engine = 0\<rparr>, \<lparr>store_engine = 0\<rparr>]"
proof -
  let ?s = "\<lparr>ln_engines = \<lambda>_. mem_empty, ln_handles = [\<lparr>store_engine = 0\<rparr>]\<rparr>"
  let ?es = "[blank_at 1 1, blank_at 1 2, blank_at 1 3]" and ?run = "log_run True mem_api nat_codecs"
  have nh: "no_hole (rl_entries (empty_log :: (nat, nat, nat, nat) raft_log)) ?es"
    by (simp add: no_hole_def empty_log_def all_less_Suc)
  with mem_append [OF mem_empty_stores] obtain e1 where
    e1: "log_append mem_api nat_codecs mem_empty ?es = (Inr (), e1, [Inr ()])" by blast
  have "stores mem_kv mem_ents mem_ok nat_codecs e1 blank_log"
    using mem_log.append_stored [OF mem_empty_stores e1 nh]
    by (simp add: spec_append_def empty_log_def blank_log_def)
  moreover have "no_hole (rl_entries blank_log) [blank_at 4 2]"
    by (simp add: no_hole_def blank_log_def all_less_Suc)
  ultimately obtain e2 where e2: "log_append mem_api nat_codecs e1 [blank_at 4 2] = (Inr (), e2, [Inr ()])"
    using mem_append by blast
  obtain e3 where e3: "save_vote mem_api nat_codecs e2 7 = (Inr (), e3)" using mem_save_vote by blast
  let ?t = "\<lambda>e. \<lparr>ln_engines = (\<lambda>_. mem_empty)(0 := e), ln_handles = [\<lparr>store_engine = 0\<rparr>, \<lparr>store_engine = 0\<rparr>]\<rparr>"
  have "?run ?s ([] @ [Append ?es]) (?s\<lparr>ln_engines := (\<lambda>_. mem_empty)(0 := e1)\<rparr>)"
    using operates [OF starts, of 0 ?s 0 True mem_api nat_codecs "Append ?es" e1] e1 by simp
  from takes_reader [OF this, of 0] have "?run ?s [Append ?es] (?t e1)"
    by (simp add: get_log_reader_def log_store_clone_def)
  from operates [OF this, of 0 0 "Truncate \<lparr>leader_id = 1, index = 2\<rparr>" e1]
  have "?run ?s [Append ?es, Truncate \<lparr>leader_id = 1, index = 2\<rparr>] (?t e1)" by (simp add: log_truncate_def)
  from operates [OF this, of 0 0 "Append [blank_at 4 2]" e2] e2
  have "?run ?s [Append ?es, Truncate \<lparr>leader_id = 1, index = 2\<rparr>, Append [blank_at 4 2]] (?t e2)" by simp
  from operates [OF this, of 0 0 "SaveVote 7" e3] e3 have "?run ?s sample_ops (?t e3)" by simp
  then show ?thesis by (intro exI [of _ "?t e3"]) simp
qed

theorem log_runs_refine_witness:
  "\<exists>t. log_run True mem_api nat_codecs \<lparr>ln_engines = \<lambda>_. mem_empty, ln_handles = [\<lparr>store_engine = 0\<rparr>]\<rparr> sample_ops t
     \<and> read_vote mem_api nat_codecs (ln_engines t 0) = Inr (Some 7)
     \<and> try_get_log_entries True mem_api nat_codecs (ln_engines t (store_engine (ln_handles t ! 1))) (Included 1) (Excluded 3) =
         Returned (Inr [blank_at 1 1, blank_at 4 2])"
proof -
  obtain t where t: "log_run True mem_api nat_codecs
      \<lparr>ln_engines = \<lambda>_. mem_empty, ln_handles = [\<lparr>store_engine = 0\<rparr>]\<rparr> sample_ops t"
    "ln_handles t = [\<lparr>store_engine = 0\<rparr>, \<lparr>store_engine = 0\<rparr>]" using sample_run by blast
  have st: "stores mem_kv mem_ents mem_ok nat_codecs ((\<lambda>_. mem_empty) 0) empty_log" using mem_empty_stores .
  have "ln_handles t ! 1 \<in> set (ln_handles t)" using t(2) by simp
  note all = log_runs_refine [where engines = "\<lambda>_. mem_empty" and adr = 0, OF mem.raft_engine_axioms unary_codecs_ok
      st t(1) sample_spec this]
  have range: "i \<in> entry_index ` set [blank_at 1 1, blank_at 4 2]" if "1 \<le> i" "i < 3" for i :: u64
    using that by (auto simp: word_le_nat_alt word_less_nat_alt word_unat_eq_iff)
  have "try_get_log_entries True mem_api nat_codecs (ln_engines t (store_engine (ln_handles t ! 1))) (Included 1) (Excluded 3) =
      Returned (Inr (filter (\<lambda>x. 1 \<le> entry_index x \<and> entry_index x < 3) [blank_at 1 1, blank_at 4 2]))"
    using all range by (auto simp: word_le_nat_alt)
  with all t show ?thesis by (intro exI [of _ t]) (simp add: word_le_nat_alt word_less_nat_alt)
qed

end
