(* ===== verification/Rust_Str.thy ===== *)
theory Rust_Str
  imports Mq_Prelude "HOL-Library.Sublist"
begin

text \<open>
  The parts of Rust's \<open>str\<close> and integer formatting that the sources use. A string is its
  UTF-8 bytes, one \<open>char\<close> per byte; \<open>trim\<close> strips the Unicode white space characters,
  which are given by their encodings.
\<close>

section \<open>Decimal numbers\<close>

text \<open>\<open>Display\<close> for an unsigned integer.\<close>

fun show_nat :: "nat \<Rightarrow> string" where
  "show_nat n = (if n < 10 then [char_of (48 + n)] else show_nat (n div 10) @ [char_of (48 + n mod 10)])"

declare show_nat.simps [simp del]

abbreviation show_u64 :: "u64 \<Rightarrow> string" where
  "show_u64 n \<equiv> show_nat (unat n)"

datatype IntErrorKind = EmptyString | InvalidDigit | PosOverflow

definition to_digit :: "char \<Rightarrow> nat option" where
  "to_digit c = (let n = of_char c in if 48 \<le> n \<and> n \<le> 57 then Some (n - 48) else None)"

text \<open>
  \<open>str::parse::<u64>()\<close>: an optional plus sign, then digits; a character that is no digit is
  reported before an overflow at the same place.
\<close>

fun parse_digits :: "nat \<Rightarrow> string \<Rightarrow> (IntErrorKind, nat) result" where
  "parse_digits acc [] = Inr acc"
| "parse_digits acc (c # cs) =
     (case to_digit c of
        None \<Rightarrow> Inl InvalidDigit
      | Some d \<Rightarrow>
          if 2 ^ 64 \<le> acc * 10 + d then Inl PosOverflow else parse_digits (acc * 10 + d) cs)"

definition parse_u64 :: "string \<Rightarrow> (IntErrorKind, u64) result" where
  "parse_u64 s =
     (case s of
        [] \<Rightarrow> Inl EmptyString
      | c # cs \<Rightarrow>
          if (c = CHR ''+'' \<or> c = CHR ''-'') \<and> cs = [] then Inl InvalidDigit
          else map_sum id of_nat (parse_digits 0 (if c = CHR ''+'' then cs else s)))"

lemma to_digit_char [simp]: "d < 10 \<Longrightarrow> to_digit (char_of (48 + d)) = Some d"
  by (simp add: to_digit_def)

lemma parse_digits_append:
  "parse_digits acc (xs @ ys) =
     (case parse_digits acc xs of Inl e \<Rightarrow> Inl e | Inr n \<Rightarrow> parse_digits n ys)"
  by (induction xs arbitrary: acc) (auto split: option.split)

lemma parse_show_digits: "n < 2 ^ 64 \<Longrightarrow> parse_digits 0 (show_nat n) = Inr n"
proof (induction n rule: show_nat.induct)
  case (1 n)
  show ?case
  proof (cases "n < 10")
    case True
    then show ?thesis by (subst show_nat.simps) (simp add: less_trans)
  next
    case False
    have "n div 10 < 2 ^ 64" using "1.prems" by simp
    then have "parse_digits 0 (show_nat (n div 10)) = Inr (n div 10)"
      using "1.IH" False by simp
    with False "1.prems" show ?thesis
      by (subst show_nat.simps) (simp add: parse_digits_append)
  qed
qed

lemma show_nat_digits: "c \<in> set (show_nat n) \<Longrightarrow> to_digit c \<noteq> None"
proof (induction n rule: show_nat.induct)
  case (1 n)
  have "to_digit (char_of (48 + n mod 10)) \<noteq> None" by simp
  with 1 show ?case by (auto simp: show_nat.simps [of n] split: if_splits)
qed

lemma show_nat_nonempty: "show_nat n \<noteq> []"
  by (subst show_nat.simps) simp

lemma signs_no_digits: "to_digit CHR ''+'' = None" "to_digit CHR ''-'' = None"
  by (simp_all add: to_digit_def)

text \<open>Printing and parsing an unsigned integer round-trips.\<close>

lemma parse_show_u64: "parse_u64 (show_u64 n) = Inr n"
proof -
  obtain c cs where s: "show_u64 n = c # cs" by (metis neq_Nil_conv show_nat_nonempty)
  then have "to_digit c \<noteq> None" using show_nat_digits [of c "unat n"] by simp
  then have "c \<noteq> CHR ''+''" "c \<noteq> CHR ''-''" using signs_no_digits by auto
  with s parse_show_digits [OF unat_u64_less, of n] show ?thesis
    by (simp add: parse_u64_def)
qed

lemma show_nat_inj: "show_nat m = show_nat n \<Longrightarrow> m = n"
proof (induction m arbitrary: n rule: show_nat.induct)
  case (1 m)
  have last: "last (show_nat k) = char_of (48 + k mod 10)" for k
    by (subst show_nat.simps) (simp add: mod_less)
  have butlast: "butlast (show_nat k) = (if k < 10 then [] else show_nat (k div 10))" for k
    by (subst show_nat.simps) simp
  have "char_of (48 + m mod 10) = (char_of (48 + n mod 10) :: char)"
    using "1.prems" last by metis
  then have "of_char (char_of (48 + m mod 10) :: char) = (of_char (char_of (48 + n mod 10) :: char) :: nat)"
    by simp
  then have digit: "m mod 10 = n mod 10" by simp
  have rest: "(if m < 10 then [] else show_nat (m div 10)) = (if n < 10 then [] else show_nat (n div 10))"
    using "1.prems" butlast by metis
  have "m div 10 = n div 10"
  proof (cases "m < 10")
    case True
    with rest show_nat_nonempty have "n < 10" by (metis (full_types))
    with True show ?thesis by simp
  next
    case False
    with rest show_nat_nonempty have n: "\<not> n < 10" by (metis (full_types))
    with rest False have "show_nat (m div 10) = show_nat (n div 10)" by simp
    with "1.IH" [OF False] show ?thesis by blast
  qed
  with digit show ?case by (metis div_mult_mod_eq)
qed

section \<open>White space\<close>

definition white_space :: "string list" where
  "white_space =
     map (\<lambda>n. [char_of n]) [9, 10, 11, 12, 13, 32 :: nat] @
     map (map char_of)
       ([[194, 133], [194, 160], [225, 154, 128], [226, 128, 168], [226, 128, 169],
         [226, 128, 175], [226, 129, 159], [227, 128, 128]] @
        map (\<lambda>n. [226, 128, n]) [128..<139 :: nat])"

text \<open>The number of leading bytes that encode a character of the list; 0 for none.\<close>

definition leading :: "string list \<Rightarrow> string \<Rightarrow> nat" where
  "leading ws s = (case find (\<lambda>w. w \<noteq> [] \<and> prefix w s) ws of None \<Rightarrow> 0 | Some w \<Rightarrow> length w)"

lemma leading_le: "leading ws s \<le> length s"
  by (auto simp: leading_def find_Some_iff dest: prefix_length_le split: option.split)

lemma leading_prefix:
  assumes "leading ws s \<noteq> 0" shows "\<exists>w\<in>set ws. prefix w s \<and> leading ws s = length w"
proof -
  obtain w where w: "find (\<lambda>w. w \<noteq> [] \<and> prefix w s) ws = Some w"
    using assms by (auto simp: leading_def split: option.splits)
  then have "w \<in> set ws \<and> prefix w s" by (auto simp: find_Some_iff)
  with w show ?thesis by (auto simp: leading_def)
qed

lemma leading_Nil [simp]: "leading ws [] = 0"
  using leading_le [of ws "[]"] by simp

function strip :: "string list \<Rightarrow> string \<Rightarrow> string" where
  "strip ws s = (if leading ws s = 0 then s else strip ws (drop (leading ws s) s))"
  by pat_completeness auto
termination
proof (relation "measure (\<lambda>(ws, s). length s)")
  fix ws :: "string list" and s
  assume "leading ws s \<noteq> 0"
  with leading_le [of ws s] show "((ws, drop (leading ws s) s), ws, s) \<in> measure (\<lambda>(ws, s). length s)"
    by auto
qed simp

declare strip.simps [simp del]

definition trim :: "string \<Rightarrow> string" where
  "trim s = rev (strip (map rev white_space) (rev (strip white_space s)))"

lemma strip_idle: "leading ws s = 0 \<Longrightarrow> strip ws s = s"
  by (subst strip.simps) simp

lemma trim_Nil [simp]: "trim [] = []"
  by (simp add: trim_def strip_idle)

definition trimmed :: "string \<Rightarrow> bool" where
  "trimmed s \<longleftrightarrow> leading white_space s = 0 \<and> leading (map rev white_space) (rev s) = 0"

lemma trim_trimmed: "trimmed s \<Longrightarrow> trim s = s"
  by (simp add: trimmed_def trim_def strip_idle)

section \<open>Splitting\<close>

fun split_on :: "char \<Rightarrow> string \<Rightarrow> string list" where
  "split_on c [] = [[]]"
| "split_on c (x # xs) =
     (if x = c then [] # split_on c xs
      else case split_on c xs of [] \<Rightarrow> [[x]] | y # ys \<Rightarrow> (x # y) # ys)"

fun split_once :: "char \<Rightarrow> string \<Rightarrow> (string \<times> string) option" where
  "split_once c [] = None"
| "split_once c (x # xs) =
     (if x = c then Some ([], xs) else map_option (map_prod (Cons x) id) (split_once c xs))"

lemma split_on_nonempty: "split_on c xs \<noteq> []"
  by (induction xs) (auto split: list.split)

lemma split_on_none: "c \<notin> set xs \<Longrightarrow> split_on c xs = [xs]"
  by (induction xs) auto

lemma split_on_append: "c \<notin> set xs \<Longrightarrow> split_on c (xs @ c # ys) = xs # split_on c ys"
  by (induction xs) auto

lemma split_once_found: "c \<notin> set xs \<Longrightarrow> split_once c (xs @ c # ys) = Some (xs, ys)"
  by (induction xs) auto

section \<open>Bytes and the environment\<close>

text \<open>\<open>String::into_bytes\<close>.\<close>

definition into_bytes :: "string \<Rightarrow> bytes" where
  "into_bytes s = map (\<lambda>c. word_of_nat (of_char c)) s"

lemma into_bytes_inj: "into_bytes s = into_bytes t \<Longrightarrow> s = t"
proof -
  have "of_char c = (of_char d :: nat)" if "(word_of_nat (of_char c) :: u8) = word_of_nat (of_char d)" for c d :: char
  proof -
    have "(of_char c :: nat) < 256" "(of_char d :: nat) < 256" by (simp_all add: of_char_def)
    with arg_cong [OF that, of unat] show ?thesis by (simp add: unat_of_nat)
  qed
  then have "inj (\<lambda>c :: char. word_of_nat (of_char c) :: u8)" by (auto intro!: injI)
  then show "into_bytes s = into_bytes t \<Longrightarrow> s = t" by (auto simp: into_bytes_def inj_map_eq_map)
qed

datatype VarError = NotPresent | NotUnicode

type_synonym environment = "string \<Rightarrow> (VarError, string) result"

text \<open>\<open>std::env::var(name).unwrap_or_else(|_| default)\<close>.\<close>

definition env_or :: "environment \<Rightarrow> string \<Rightarrow> string \<Rightarrow> string" where
  "env_or env name dflt = (case env name of Inr v \<Rightarrow> v | Inl e \<Rightarrow> dflt)"

text \<open>A variable that is parsed as a number.\<close>

definition env_number :: "environment \<Rightarrow> string \<Rightarrow> string \<Rightarrow> (IntErrorKind, nat) result" where
  "env_number env name dflt = map_sum id unat (parse_u64 (env_or env name dflt))"

end
