(* ===== verification/Queue_State.thy ===== *)
theory Queue_State
  imports Raft_Types
begin

text \<open>
  The replicated queues: \<open>types.rs\<close> and the \<open>QueueState\<close> part of \<open>state_machine.rs\<close>,
  with an abstract specification (a published history and a read position per queue) that
  the code refines.
\<close>

section \<open>Commands, responses and state\<close>

datatype QueueRequest = Publish string bytes | Pop string

record QueueResponse =
  published_offset :: "u64 option"
  popped :: "(u64 \<times> bytes) option"

instantiation QueueResponse_ext :: (default) default
begin

definition default_QueueResponse_ext :: "'a QueueResponse_scheme" where
  "default_QueueResponse_ext = \<lparr>published_offset = default, popped = default, \<dots> = default\<rparr>"

instance ..

end

definition QueueResponse_default :: QueueResponse where
  "QueueResponse_default = default"

lemma QueueResponse_default_eq: "QueueResponse_default = \<lparr>published_offset = None, popped = None\<rparr>"
  by (simp add: QueueResponse_default_def default_QueueResponse_ext_def)

record QueueState =
  queues :: "(string, (u64 \<times> bytes) list) fmap"
  next_offset :: "(string, u64) fmap"

instantiation QueueState_ext :: (default) default
begin

definition default_QueueState_ext :: "'a QueueState_scheme" where
  "default_QueueState_ext = \<lparr>queues = default, next_offset = default, \<dots> = default\<rparr>"

instance ..

end

definition QueueState_default :: QueueState where
  "QueueState_default = default"

lemma QueueState_default_eq: "QueueState_default = \<lparr>queues = fmempty, next_offset = fmempty\<rparr>"
  by (simp add: QueueState_default_def default_QueueState_ext_def)

definition depths :: "QueueState \<Rightarrow> (string, u64) fmap" where
  "depths s = fmmap (\<lambda>q. of_nat (length q)) (queues s)"

fun QueueState_apply ::
  "bool \<Rightarrow> QueueState \<Rightarrow> QueueRequest \<Rightarrow> QueueResponse outcome \<times> QueueState" where
  "QueueState_apply checks s (Publish queue payload) =
     (let (offset, counters) = or_insert (next_offset s) queue 0 in
      case add_u64 checks offset 1 of
        Panicked p \<Rightarrow> (Panicked p, s\<lparr>next_offset := counters\<rparr>)
      | Returned c \<Rightarrow>
          (let s = s\<lparr>next_offset := fmupd queue c counters\<rparr>;
               (q, qs) = or_default (queues s) queue
           in (Returned \<lparr>published_offset = Some offset, popped = None\<rparr>,
               s\<lparr>queues := fmupd queue (q @ [(offset, payload)]) qs\<rparr>)))"
| "QueueState_apply checks s (Pop queue) =
     (case fmlookup (queues s) queue of
        None \<Rightarrow> (Returned \<lparr>published_offset = None, popped = None\<rparr>, s)
      | Some [] \<Rightarrow> (Returned \<lparr>published_offset = None, popped = None\<rparr>, s)
      | Some (m # q) \<Rightarrow>
          (Returned \<lparr>published_offset = None, popped = Some m\<rparr>,
           s\<lparr>queues := fmupd queue q (queues s)\<rparr>))"

section \<open>Each operation on each branch\<close>

lemma apply_Publish:
  "\<not> (checks \<and> get_or (next_offset s) queue 0 = u64_max) \<Longrightarrow>
   QueueState_apply checks s (Publish queue p) =
     (Returned \<lparr>published_offset = Some (get_or (next_offset s) queue 0), popped = None\<rparr>,
      s\<lparr>next_offset := fmupd queue (get_or (next_offset s) queue 0 + 1) (next_offset s),
        queues := fmupd queue (get_or (queues s) queue [] @ [(get_or (next_offset s) queue 0, p)])
          (queues s)\<rparr>)"
  by (auto simp: add_u64_one case_prod_beta Let_def)

lemma or_insert_found: "get_or m k d \<noteq> d \<Longrightarrow> snd (or_insert m k d) = m"
  by (auto simp: or_insert_def get_or_def split: option.splits)

lemma apply_Publish_overflow:
  "\<lbrakk>checks; get_or (next_offset s) queue 0 = u64_max\<rbrakk> \<Longrightarrow>
   QueueState_apply checks s (Publish queue p) = (Panicked ArithmeticOverflow, s)"
  using or_insert_found [of "next_offset s" queue 0]
  by (simp add: add_u64_one case_prod_beta Let_def u64_max_def)

lemma apply_Pop_empty:
  "get_or (queues s) queue [] = [] \<Longrightarrow>
   QueueState_apply checks s (Pop queue) = (Returned QueueResponse_default, s)"
  by (auto simp: get_or_def QueueResponse_default_eq split: option.splits)

lemma apply_Pop_front:
  "get_or (queues s) queue [] = m # q \<Longrightarrow>
   QueueState_apply checks s (Pop queue) =
     (Returned \<lparr>published_offset = None, popped = Some m\<rparr>,
      s\<lparr>queues := fmupd queue q (queues s)\<rparr>)"
  by (auto simp: get_or_def split: option.splits)

lemmas QueueState_apply_branches =
  apply_Publish apply_Publish_overflow apply_Pop_empty apply_Pop_front

section \<open>The abstract queue\<close>

text \<open>
  A queue is the history of what was published to it and how much of that has been taken:
  nothing is ever removed, and the offset of a message is its place in the history.
\<close>

record aqueue =
  hist :: "bytes list"
  taken :: nat

definition aqueue_new :: aqueue where
  "aqueue_new = \<lparr>hist = [], taken = 0\<rparr>"

fun spec_apply ::
  "(string, aqueue) fmap \<Rightarrow> QueueRequest \<Rightarrow> QueueResponse \<times> (string, aqueue) fmap" where
  "spec_apply \<sigma> (Publish q p) =
     (let a = get_or \<sigma> q aqueue_new in
      (\<lparr>published_offset = Some (of_nat (length (hist a))), popped = None\<rparr>,
       fmupd q (a\<lparr>hist := hist a @ [p]\<rparr>) \<sigma>))"
| "spec_apply \<sigma> (Pop q) =
     (let a = get_or \<sigma> q aqueue_new in
      if taken a < length (hist a) then
        (\<lparr>published_offset = None, popped = Some (of_nat (taken a), hist a ! taken a)\<rparr>,
         fmupd q (a\<lparr>taken := Suc (taken a)\<rparr>) \<sigma>)
      else (QueueResponse_default, \<sigma>))"

definition waiting :: "aqueue \<Rightarrow> (u64 \<times> bytes) list" where
  "waiting a = map (\<lambda>i. (of_nat i, hist a ! i)) [taken a..<length (hist a)]"

text \<open>The concrete state that an abstract one stands for.\<close>

definition conc :: "(string, aqueue) fmap \<Rightarrow> QueueState" where
  "conc \<sigma> = \<lparr>queues = fmmap waiting \<sigma>, next_offset = fmmap (\<lambda>a. of_nat (length (hist a))) \<sigma>\<rparr>"

definition aqueues_ok :: "(string, aqueue) fmap \<Rightarrow> bool" where
  "aqueues_ok \<sigma> \<longleftrightarrow> (\<forall>q. taken (get_or \<sigma> q aqueue_new) \<le> length (hist (get_or \<sigma> q aqueue_new)))"

lemma aqueue_new_simps [simp]:
  "hist aqueue_new = []" "taken aqueue_new = 0" "waiting aqueue_new = []"
  by (simp_all add: aqueue_new_def waiting_def)

lemma conc_lookups [simp]:
  "get_or (queues (conc \<sigma>)) q [] = waiting (get_or \<sigma> q aqueue_new)"
  "get_or (next_offset (conc \<sigma>)) q 0 = of_nat (length (hist (get_or \<sigma> q aqueue_new)))"
  by (simp_all add: conc_def get_or_fmmap [where d = aqueue_new])

lemma conc_empty: "conc fmempty = QueueState_default"
  by (simp add: conc_def QueueState_default_eq)

lemma waiting_publish:
  "taken a \<le> length (hist a) \<Longrightarrow>
   waiting (a\<lparr>hist := hist a @ [p]\<rparr>) = waiting a @ [(of_nat (length (hist a)), p)]"
  by (auto simp: waiting_def nth_append)

lemma waiting_take:
  "taken a < length (hist a) \<Longrightarrow>
   waiting a = (of_nat (taken a), hist a ! taken a) # waiting (a\<lparr>taken := Suc (taken a)\<rparr>)"
  by (simp add: waiting_def upt_conv_Cons)

lemma waiting_done: "length (hist a) \<le> taken a \<Longrightarrow> waiting a = []"
  by (simp add: waiting_def)

lemma spec_apply_ok: "aqueues_ok \<sigma> \<Longrightarrow> aqueues_ok (snd (spec_apply \<sigma> r))"
  by (cases r) (auto simp: aqueues_ok_def Let_def le_Suc_eq Suc_le_eq)

lemma fmupd_conc:
  "conc (fmupd q a \<sigma>) =
     \<lparr>queues = fmupd q (waiting a) (queues (conc \<sigma>)),
      next_offset = fmupd q (of_nat (length (hist a))) (next_offset (conc \<sigma>))\<rparr>"
  by (simp add: conc_def fmmap_fmupd)

lemma conc_next_idle:
  "waiting (get_or \<sigma> q aqueue_new) \<noteq> [] \<Longrightarrow>
   fmupd q (of_nat (length (hist (get_or \<sigma> q aqueue_new)))) (next_offset (conc \<sigma>)) = next_offset (conc \<sigma>)"
  by (cases "fmlookup \<sigma> q") (auto simp: conc_def get_or_simps intro: fmupd_idle)

text \<open>
  One command: as long as the counter does not overflow under checks, the code does to the
  concrete state exactly what the specification does to the abstract one.
\<close>

lemma refine_Publish:
  assumes "aqueues_ok \<sigma>"
    and "\<not> (checks \<and> of_nat (length (hist (get_or \<sigma> q aqueue_new))) = u64_max)"
  shows "QueueState_apply checks (conc \<sigma>) (Publish q p) =
    map_prod Returned conc (spec_apply \<sigma> (Publish q p))"
  using assms
  by (simp add: apply_Publish Let_def fmupd_conc waiting_publish aqueues_ok_def add.commute del: QueueState_apply.simps)

lemma refine_Pop:
  "QueueState_apply checks (conc \<sigma>) (Pop q) = map_prod Returned conc (spec_apply \<sigma> (Pop q))"
proof (cases "taken (get_or \<sigma> q aqueue_new) < length (hist (get_or \<sigma> q aqueue_new))")
  case True
  note w = waiting_take [OF True]
  then have "waiting (get_or \<sigma> q aqueue_new) \<noteq> []" by simp
  from conc_next_idle [OF this] w True show ?thesis
    by (simp add: apply_Pop_front Let_def fmupd_conc del: QueueState_apply.simps)
next
  case False
  then show ?thesis
    by (simp add: apply_Pop_empty waiting_done Let_def del: QueueState_apply.simps)
qed

section \<open>Runs of commands\<close>

fun spec_run ::
  "(string, aqueue) fmap \<Rightarrow> QueueRequest list \<Rightarrow> QueueResponse list \<times> (string, aqueue) fmap" where
  "spec_run \<sigma> [] = ([], \<sigma>)"
| "spec_run \<sigma> (r # rs) =
     (let (x, \<sigma>') = spec_apply \<sigma> r; (xs, \<sigma>'') = spec_run \<sigma>' rs in (x # xs, \<sigma>''))"

text \<open>What a run publishes to a queue, which offsets it acknowledges, and what it pops.\<close>

fun published_to :: "string \<Rightarrow> QueueRequest list \<Rightarrow> bytes list" where
  "published_to q [] = []"
| "published_to q (Publish q' p # rs) = (if q' = q then p # published_to q rs else published_to q rs)"
| "published_to q (Pop q' # rs) = published_to q rs"

fun acked_for :: "string \<Rightarrow> QueueRequest list \<Rightarrow> QueueResponse list \<Rightarrow> u64 list" where
  "acked_for q (Publish q' p # rs) (x # xs) =
     (case published_offset x of
        Some k \<Rightarrow> if q' = q then k # acked_for q rs xs else acked_for q rs xs
      | None \<Rightarrow> acked_for q rs xs)"
| "acked_for q (Pop q' # rs) (x # xs) = acked_for q rs xs"
| "acked_for q _ _ = []"

fun popped_from :: "string \<Rightarrow> QueueRequest list \<Rightarrow> QueueResponse list \<Rightarrow> (u64 \<times> bytes) list" where
  "popped_from q (Pop q' # rs) (x # xs) =
     (case popped x of
        Some m \<Rightarrow> if q' = q then m # popped_from q rs xs else popped_from q rs xs
      | None \<Rightarrow> popped_from q rs xs)"
| "popped_from q (Publish q' p # rs) (x # xs) = popped_from q rs xs"
| "popped_from q _ _ = []"

definition with_offsets :: "bytes list \<Rightarrow> (u64 \<times> bytes) list" where
  "with_offsets ps = map (\<lambda>i. (of_nat i, ps ! i)) [0..<length ps]"

lemma spec_run_hist:
  "spec_run \<sigma> rs = (xs, \<sigma>') \<Longrightarrow>
   hist (get_or \<sigma>' q aqueue_new) = hist (get_or \<sigma> q aqueue_new) @ published_to q rs"
proof (induction rs arbitrary: \<sigma> xs)
  case (Cons r rs)
  then show ?case by (cases r) (auto simp: Let_def split: prod.splits if_splits)
qed simp

lemma spec_run_taken_mono:
  "spec_run \<sigma> rs = (xs, \<sigma>') \<Longrightarrow> taken (get_or \<sigma> q aqueue_new) \<le> taken (get_or \<sigma>' q aqueue_new)"
proof (induction rs arbitrary: \<sigma> xs)
  case (Cons r rs)
  then show ?case
    by (cases r) (fastforce simp: Let_def split: prod.splits if_splits)+
qed simp

lemma spec_run_ok: "spec_run \<sigma> rs = (xs, \<sigma>') \<Longrightarrow> aqueues_ok \<sigma> \<Longrightarrow> aqueues_ok \<sigma>'"
proof (induction rs arbitrary: \<sigma> xs)
  case (Cons r rs)
  then show ?case using spec_apply_ok [of \<sigma> r] by (auto simp: Let_def split: prod.splits)
qed simp

lemma spec_run_length: "spec_run \<sigma> rs = (xs, \<sigma>') \<Longrightarrow> length xs = length rs"
  by (induction rs arbitrary: \<sigma> xs) (auto simp: Let_def split: prod.splits)

lemma spec_run_acked:
  "spec_run \<sigma> rs = (xs, \<sigma>') \<Longrightarrow>
   acked_for q rs xs =
     map of_nat [length (hist (get_or \<sigma> q aqueue_new))..<length (hist (get_or \<sigma>' q aqueue_new))]"
proof (induction rs arbitrary: \<sigma> xs)
  case (Cons r rs)
  obtain x \<tau> xs' where step: "spec_apply \<sigma> r = (x, \<tau>)" "spec_run \<tau> rs = (xs', \<sigma>')" "xs = x # xs'"
    using Cons.prems by (auto simp: Let_def split: prod.splits)
  from Cons.IH [OF step(2)] step spec_run_hist [OF step(2), of q] show ?case
    by (cases r) (auto simp: Let_def upt_conv_Cons split: if_splits simp del: upt_Suc)
qed simp

lemma spec_run_popped:
  "spec_run \<sigma> rs = (xs, \<sigma>') \<Longrightarrow>
   popped_from q rs xs =
     map (\<lambda>i. (of_nat i, hist (get_or \<sigma>' q aqueue_new) ! i))
       [taken (get_or \<sigma> q aqueue_new)..<taken (get_or \<sigma>' q aqueue_new)]"
proof (induction rs arbitrary: \<sigma> xs)
  case (Cons r rs)
  obtain x \<tau> xs' where step: "spec_apply \<sigma> r = (x, \<tau>)" "spec_run \<tau> rs = (xs', \<sigma>')" "xs = x # xs'"
    using Cons.prems by (auto simp: Let_def split: prod.splits)
  from Cons.IH [OF step(2)] step spec_run_hist [OF step(2), of q]
    spec_run_taken_mono [OF step(2), of q] show ?case
    by (cases r) (auto simp: Let_def QueueResponse_default_eq upt_conv_Cons nth_append split: if_splits)
qed simp

text \<open>The code's run and the specification's, as long as no counter can reach its end.\<close>

lemma refine_step:
  assumes "aqueues_ok \<sigma>" and "\<And>q. length (hist (get_or \<sigma> q aqueue_new)) < 2 ^ 64 - 1"
  shows "QueueState_apply checks (conc \<sigma>) r = map_prod Returned conc (spec_apply \<sigma> r)"
proof (cases r)
  case (Publish q p)
  from assms(2) [of q] have "of_nat (length (hist (get_or \<sigma> q aqueue_new))) \<noteq> u64_max"
    by (subst of_nat_u64_max_iff) linarith+
  with assms(1) Publish show ?thesis by (metis refine_Publish)
next
  case (Pop q)
  then show ?thesis by (simp only: refine_Pop)
qed

lemma refine_command:
  assumes "aqueues_ok \<sigma>"
    and "\<And>q. checks \<Longrightarrow> length (hist (get_or \<sigma> q aqueue_new)) < 2 ^ 64 - 1"
  shows "QueueState_apply checks (conc \<sigma>) r = map_prod Returned conc (spec_apply \<sigma> r)"
proof (cases checks)
  case True
  then show ?thesis using refine_step assms by blast
next
  case False
  then show ?thesis using assms(1) refine_Publish refine_Pop by (cases r; blast)
qed

lemma spec_apply_hist_le:
  "spec_apply \<sigma> r = (x, \<tau>) \<Longrightarrow>
   length (hist (get_or \<tau> q aqueue_new)) \<le> Suc (length (hist (get_or \<sigma> q aqueue_new)))"
  by (cases r) (auto simp: Let_def split: if_splits)

lemma refine_run:
  "\<lbrakk>aqueues_ok \<sigma>; \<And>q. length (hist (get_or \<sigma> q aqueue_new)) + length rs < 2 ^ 64\<rbrakk> \<Longrightarrow>
   run_cmds (QueueState_apply checks) (conc \<sigma>) rs = map_prod Returned conc (spec_run \<sigma> rs)"
proof (induction rs arbitrary: \<sigma>)
  case (Cons r rs)
  obtain x \<tau> where step: "spec_apply \<sigma> r = (x, \<tau>)" by (cases "spec_apply \<sigma> r")
  have "length (hist (get_or \<sigma> q aqueue_new)) < 2 ^ 64 - 1" for q
    using Cons.prems(2) [of q] by simp
  then have one: "QueueState_apply checks (conc \<sigma>) r = (Returned x, conc \<tau>)"
    using refine_step [OF Cons.prems(1)] step by (metis map_prod_simp)
  have "length (hist (get_or \<tau> q aqueue_new)) + length rs < 2 ^ 64" for q
    using spec_apply_hist_le [OF step, of q] Cons.prems(2) [of q] by simp
  moreover have "aqueues_ok \<tau>"
    using spec_apply_ok [OF Cons.prems(1), of r] step by simp
  ultimately have "run_cmds (QueueState_apply checks) (conc \<tau>) rs = map_prod Returned conc (spec_run \<tau> rs)"
    by (rule Cons.IH [rotated])
  with one step show ?case
    by (auto simp: Let_def case_prod_beta split: prod.splits)
qed simp

lemma upt_split: "k \<le> n \<Longrightarrow> [0..<n] = [0..<k] @ [k..<n]"
  using upt_add_eq_append [of 0 k "n - k"] by simp

lemma with_offsets_split:
  "k \<le> length ps \<Longrightarrow>
   with_offsets ps = map (\<lambda>i. (of_nat i, ps ! i)) [0..<k] @ map (\<lambda>i. (of_nat i, ps ! i)) [k..<length ps]"
  by (simp add: with_offsets_def upt_split [of k "length ps"])

lemma aqueues_ok_empty: "aqueues_ok fmempty"
  by (simp add: aqueues_ok_def)

text \<open>From the empty state every run of fewer than \<open>2 ^ 64\<close> commands completes.\<close>

lemma run_from_default:
  assumes "length rs < 2 ^ 64"
  obtains xs \<sigma> where "run_cmds (QueueState_apply checks) QueueState_default rs = (Returned xs, conc \<sigma>)"
    and "spec_run fmempty rs = (xs, \<sigma>)"
proof -
  obtain xs \<sigma> where s: "spec_run fmempty rs = (xs, \<sigma>)" by (cases "spec_run fmempty rs")
  moreover have "run_cmds (QueueState_apply checks) (conc fmempty) rs = (Returned xs, conc \<sigma>)"
    using refine_run [OF aqueues_ok_empty, of rs checks] assms s by simp
  ultimately show thesis using that by (simp add: conc_empty)
qed

lemma run_delivers:
  assumes "run_cmds (QueueState_apply checks) QueueState_default rs = (Returned xs, s)"
    and "length rs < 2 ^ 64"
  shows "popped_from q rs xs @ get_or (queues s) q [] = with_offsets (published_to q rs)"
    and "acked_for q rs xs = map of_nat [0..<length (published_to q rs)]"
proof -
  obtain \<sigma> where \<sigma>: "s = conc \<sigma>" "spec_run fmempty rs = (xs, \<sigma>)"
    using run_from_default [OF assms(2), of checks] assms(1) by auto
  have h: "hist (get_or \<sigma> q aqueue_new) = published_to q rs"
    using spec_run_hist [OF \<sigma>(2), of q] by simp
  have "taken (get_or \<sigma> q aqueue_new) \<le> length (published_to q rs)"
    using spec_run_ok [OF \<sigma>(2) aqueues_ok_empty] h by (metis aqueues_ok_def)
  then show "popped_from q rs xs @ get_or (queues s) q [] = with_offsets (published_to q rs)"
    using spec_run_popped [OF \<sigma>(2), of q] h
    by (simp add: \<sigma>(1) waiting_def with_offsets_split)
  show "acked_for q rs xs = map of_nat [0..<length (published_to q rs)]"
    using spec_run_acked [OF \<sigma>(2), of q] h by simp
qed

section \<open>Counters and isolation\<close>

lemma fmlookup_depths: "fmlookup (depths s) q = map_option (\<lambda>x. of_nat (length x)) (fmlookup (queues s) q)"
  by (simp add: depths_def)

lemma get_or_depths: "get_or (depths s) q 0 = of_nat (length (get_or (queues s) q []))"
  by (simp add: depths_def get_or_fmmap [where d = "[]"])

fun queue_of :: "QueueRequest \<Rightarrow> string" where
  "queue_of (Publish q p) = q"
| "queue_of (Pop q) = q"

lemma apply_isolated:
  "\<lbrakk>QueueState_apply checks s r = (x, s'); q \<noteq> queue_of r\<rbrakk> \<Longrightarrow>
   fmlookup (queues s') q = fmlookup (queues s) q \<and> fmlookup (next_offset s') q = fmlookup (next_offset s) q"
  by (cases r)
     (auto simp: Let_def or_insert_def split: option.splits list.splits outcome.splits prod.splits)

section \<open>Properties\<close>

text \<open>
  C3: one command of the code does to the queues what the abstract specification (a
  published history and a read position per queue) does, response included, unless an
  overflow check stops the counter at \<open>u64::MAX\<close>.
\<close>

theorem queue_refines_history:
  assumes "aqueues_ok \<sigma>"
    and "\<And>q. checks \<Longrightarrow> length (hist (get_or \<sigma> q aqueue_new)) < 2 ^ 64 - 1"
  shows "QueueState_apply checks (conc \<sigma>) r = map_prod Returned conc (spec_apply \<sigma> r)
    \<and> aqueues_ok (snd (spec_apply \<sigma> r))"
  using refine_command [OF assms] spec_apply_ok [OF assms(1)] by blast

theorem queue_refines_history_witness:
  "QueueState_apply True (conc (fmupd ''q'' \<lparr>hist = [[7], [8]], taken = 1\<rparr> fmempty)) (Pop ''q'') =
   (Returned \<lparr>published_offset = None, popped = Some (1, [8])\<rparr>,
    conc (fmupd ''q'' \<lparr>hist = [[7], [8]], taken = Suc 1\<rparr> fmempty))"
proof -
  let ?\<sigma> = "fmupd ''q'' \<lparr>hist = [[7], [8]], taken = 1\<rparr> fmempty"
  have "aqueues_ok ?\<sigma>" by (simp add: aqueues_ok_def)
  moreover have "length (hist (get_or ?\<sigma> q aqueue_new)) < 2 ^ 64 - 1" for q
    by simp
  ultimately have "QueueState_apply True (conc ?\<sigma>) (Pop ''q'') =
      map_prod Returned conc (spec_apply ?\<sigma> (Pop ''q''))"
    using queue_refines_history [of ?\<sigma> True "Pop ''q''"] by blast
  then show ?thesis by (simp add: Let_def del: QueueState_apply.simps)
qed

text \<open>Offsets that count up from a given value and wrap at the end of a \<open>u64\<close>.\<close>

fun numbered_from :: "u64 \<Rightarrow> bytes list \<Rightarrow> (u64 \<times> bytes) list" where
  "numbered_from n [] = []"
| "numbered_from n (p # ps) = (n, p) # numbered_from (n + 1) ps"

lemma numbered_from_offsets: "numbered_from n ps = map (\<lambda>i. (n + of_nat i, ps ! i)) [0..<length ps]"
proof (induction ps arbitrary: n)
  case (Cons p ps)
  have "[0..<length (p # ps)] = 0 # map Suc [0..<length ps]" by (simp only: list.size upt_conv_Cons map_Suc_upt) simp
  with Cons show ?case by (simp add: o_def add.assoc del: upt_Suc)
qed simp

lemma unchecked_from:
  "\<exists>xs s'. run_cmds (QueueState_apply False) s rs = (Returned xs, s')
     \<and> popped_from q rs xs @ get_or (queues s') q [] =
         get_or (queues s) q [] @ numbered_from (get_or (next_offset s) q 0) (published_to q rs)
     \<and> acked_for q rs xs = map fst (numbered_from (get_or (next_offset s) q 0) (published_to q rs))"
proof (induction rs arbitrary: s)
  case (Cons r rs)
  show ?case
  proof (cases r)
    case (Publish p b)
    let ?c = "get_or (next_offset s) p 0"
    let ?s = "s\<lparr>next_offset := fmupd p (?c + 1) (next_offset s),
      queues := fmupd p (get_or (queues s) p [] @ [(?c, b)]) (queues s)\<rparr>"
    from Cons.IH [of ?s] show ?thesis by (auto simp: Publish apply_Publish simp del: QueueState_apply.simps)
  next
    case (Pop p)
    show ?thesis
    proof (cases "get_or (queues s) p []")
      case Nil
      from Cons.IH [of s] Nil show ?thesis by (auto simp: Pop apply_Pop_empty QueueResponse_default_eq simp del: QueueState_apply.simps)
    next
      case (Cons m ms)
      from Cons.IH [of "s\<lparr>queues := fmupd p ms (queues s)\<rparr>"] Cons show ?thesis
        by (auto simp: Pop apply_Pop_front simp del: QueueState_apply.simps)
    qed
  qed
qed simp

lemma offset_mod: "(of_nat (i mod 2 ^ 64) :: u64) = of_nat i"
  by (simp add: word_of_nat_eq_iff take_bit_eq_mod)

text \<open>
  C26: the queue past the end of its counters, in a build without overflow checks (the release
  profile). A run of any length from the empty state returns on every command; each queue hands
  out exactly what was published to it, first in first out, and every message has its place in
  the history modulo \<open>2 ^ 64\<close> as its offset, which is also what its publish was answered with:
  the order survives the wrap-around, the offsets as identities of messages do not.
\<close>

theorem unchecked_queue_wraps:
  "\<exists>xs s. run_cmds (QueueState_apply False) QueueState_default rs = (Returned xs, s)
     \<and> popped_from q rs xs @ get_or (queues s) q [] =
         map (\<lambda>i. (of_nat (i mod 2 ^ 64), published_to q rs ! i)) [0..<length (published_to q rs)]
     \<and> acked_for q rs xs = map (\<lambda>i. of_nat (i mod 2 ^ 64)) [0..<length (published_to q rs)]"
  unfolding offset_mod using unchecked_from [of QueueState_default rs q]
  by (simp add: numbered_from_offsets QueueState_default_eq o_def)

text \<open>
  A command touches one queue: every other queue keeps its messages and its counter,
  whether the command returns or panics.
\<close>

theorem queues_are_isolated:
  assumes "QueueState_apply checks s r = (x, s')" and "q \<noteq> queue_of r"
  shows "fmlookup (queues s') q = fmlookup (queues s) q
    \<and> fmlookup (next_offset s') q = fmlookup (next_offset s) q"
  using assms by (rule apply_isolated)

theorem queues_are_isolated_witness:
  "fmlookup (queues (snd (QueueState_apply True QueueState_default (Publish ''a'' [1])))) ''b'' = None"
  using queues_are_isolated [of True QueueState_default "Publish ''a'' [1]" _ _ "''b''",
      OF surjective_pairing]
  by (simp add: QueueState_default_eq del: QueueState_apply.simps)

text \<open>
  C27: After any run of fewer than \<open>2 ^ 64\<close> commands from the empty state, the depth reported
  for a queue is the number of messages published to it less the number popped from it.
\<close>

theorem depths_are_balances:
  assumes "length rs < 2 ^ 64"
    and "run_cmds (QueueState_apply checks) QueueState_default rs = (Returned xs, s)"
  shows "get_or (depths s) q 0 =
    of_nat (length (published_to q rs) - length (popped_from q rs xs))"
proof -
  have "length (popped_from q rs xs) + length (get_or (queues s) q []) = length (published_to q rs)"
    using arg_cong [OF run_delivers(1) [OF assms(2,1), of q], of length]
    by (simp add: with_offsets_def)
  then have "length (get_or (queues s) q []) = length (published_to q rs) - length (popped_from q rs xs)"
    by linarith
  then show ?thesis by (simp add: get_or_depths)
qed

theorem depths_are_balances_witness:
  "get_or (depths (snd (run_cmds (QueueState_apply True) QueueState_default
     [Publish ''q'' [1], Publish ''q'' [2], Pop ''q'']))) ''q'' 0 = 1"
proof -
  let ?rs = "[Publish ''q'' [1], Publish ''q'' [2], Pop ''q'']"
  obtain xs s where r: "run_cmds (QueueState_apply True) QueueState_default ?rs = (Returned xs, s)"
    using run_from_default [of ?rs True] by auto
  from r have "xs = [\<lparr>published_offset = Some 0, popped = None\<rparr>,
      \<lparr>published_offset = Some 1, popped = None\<rparr>, \<lparr>published_offset = None, popped = Some (0, [1])\<rparr>]"
    by (auto simp: QueueState_default_eq or_insert_def add_u64_def Let_def)
  with r depths_are_balances [OF _ r, of "''q''"] show ?thesis by simp
qed

end
