(* ===== verification/Replicated_Sm.thy ===== *)
theory Replicated_Sm
  imports Raft_Types
begin

text \<open>
  The interface between openraft and a state machine (\<open>RaftStateMachine\<close> and
  \<open>RaftSnapshotBuilder\<close>), stated once for the two implementations: how the apply loop
  treats one entry, what a snapshot holds and what installing one does. The lemmas proved
  here (batching, convergence of replicas, snapshot transfer) are used by both through
  interpretation.
\<close>

section \<open>One entry, and a whole log, on a bare state\<close>

definition entry_cmd ::
  "('st \<Rightarrow> 'c \<Rightarrow> 'r outcome \<times> 'st) \<Rightarrow> 'r \<Rightarrow> 'st \<Rightarrow> ('lid, 'c, 'mem) Entry \<Rightarrow> 'r outcome \<times> 'st" where
  "entry_cmd f d v e =
     (case entry_payload e of
        Blank \<Rightarrow> (Returned d, v)
      | Normal c \<Rightarrow> f v c
      | Membership m \<Rightarrow> (Returned d, v))"

abbreviation replay ::
  "('st \<Rightarrow> 'c \<Rightarrow> 'r outcome \<times> 'st) \<Rightarrow> 'r \<Rightarrow> 'st \<Rightarrow> ('lid, 'c, 'mem) Entry list
     \<Rightarrow> 'r list outcome \<times> 'st" where
  "replay f d \<equiv> run_cmds (entry_cmd f d)"

text \<open>
  The same entry against the shared cell: only a normal entry takes the lock.
\<close>

definition entry_locked ::
  "('st \<Rightarrow> 'c \<Rightarrow> 'r outcome \<times> 'st) \<Rightarrow> 'r \<Rightarrow> 'st heap \<Rightarrow> addr \<Rightarrow> ('lid, 'c, 'mem) Entry
     \<Rightarrow> 'r outcome \<times> 'st heap" where
  "entry_locked f d h a e =
     (case entry_payload e of
        Blank \<Rightarrow> (Returned d, h)
      | Normal c \<Rightarrow> with_lock h a (\<lambda>v. f v c)
      | Membership m \<Rightarrow> (Returned d, h))"

lemma entry_locked_Returned:
  "\<lbrakk>h a = mutex_new v; entry_cmd f d v e = (Returned r, w)\<rbrakk> \<Longrightarrow>
   entry_locked f d h a e = (Returned r, h(a := mutex_new w))"
  by (cases "entry_payload e") (auto simp: entry_locked_def entry_cmd_def with_lock_Returned)

lemma entry_locked_Panicked:
  "\<lbrakk>h a = mutex_new v; entry_cmd f d v e = (Panicked p, w)\<rbrakk> \<Longrightarrow>
   entry_locked f d h a e = (Panicked p, h(a := \<lparr>guarded = w, poisoned = True\<rparr>))"
  by (cases "entry_payload e") (auto simp: entry_locked_def entry_cmd_def with_lock_Panicked)

lemma entry_locked_frame: "entry_locked f d h a e = (r, h') \<Longrightarrow> b \<noteq> a \<Longrightarrow> h' b = h b"
  by (auto simp: entry_locked_def dest: with_lock_frame split: EntryPayload.splits)

text \<open>What the last membership entry of a log says, and the membership before it.\<close>

fun membership_after ::
  "('lid, 'mem) StoredMembership \<Rightarrow> ('lid, 'c, 'mem) Entry list \<Rightarrow> ('lid, 'mem) StoredMembership" where
  "membership_after sm [] = sm"
| "membership_after sm (e # es) =
     membership_after
       (case entry_payload e of
          Membership m \<Rightarrow> \<lparr>membership_log_id = Some (log_id e), membership = m\<rparr>
        | _ \<Rightarrow> sm) es"

fun applied_after :: "'lid LogId option \<Rightarrow> ('lid, 'c, 'mem) Entry list \<Rightarrow> 'lid LogId option" where
  "applied_after a [] = a"
| "applied_after a (e # es) = applied_after (Some (log_id e)) es"

lemma applied_after_last: "es \<noteq> [] \<Longrightarrow> applied_after a es = Some (log_id (last es))"
  by (induction es arbitrary: a) auto

lemma membership_after_append:
  "membership_after sm (es @ fs) = membership_after (membership_after sm es) fs"
  by (induction es arbitrary: sm) auto

lemma applied_after_append: "applied_after a (es @ fs) = applied_after (applied_after a es) fs"
  by (induction es arbitrary: a) auto

text \<open>The commands of a log, and the responses that answer them.\<close>

fun requests :: "('lid, 'c, 'mem) Entry list \<Rightarrow> 'c list" where
  "requests [] = []"
| "requests (e # es) = (case entry_payload e of Normal c \<Rightarrow> c # requests es | _ \<Rightarrow> requests es)"

fun answers :: "('lid, 'c, 'mem) Entry list \<Rightarrow> 'r list \<Rightarrow> 'r list" where
  "answers (e # es) (x # xs) =
     (case entry_payload e of Normal c \<Rightarrow> x # answers es xs | _ \<Rightarrow> answers es xs)"
| "answers _ _ = []"

lemma requests_length: "length (requests es) \<le> length es"
  by (induction es) (auto split: EntryPayload.split)

lemma entry_cmd_simps:
  "entry_payload e = Normal c \<Longrightarrow> entry_cmd f d v e = f v c"
  "entry_payload e = Blank \<Longrightarrow> entry_cmd f d v e = (Returned d, v)"
  "entry_payload e = Membership m \<Longrightarrow> entry_cmd f d v e = (Returned d, v)"
  by (simp_all add: entry_cmd_def)

lemma replay_requests:
  "run_cmds f v (requests es) = (Returned ys, w) \<Longrightarrow>
   \<exists>xs. replay f d v es = (Returned xs, w) \<and> answers es xs = ys"
proof (induction es arbitrary: v ys)
  case (Cons e es)
  have skip: "\<exists>xs. replay f d v es = (Returned xs, w) \<and> answers es xs = ys"
    if "requests (e # es) = requests es"
    using that Cons.IH [of v ys] Cons.prems by simp
  show ?case
  proof (cases "entry_payload e")
    case (Normal c)
    with Cons.prems obtain r u zs where "f v c = (Returned r, u)"
      "run_cmds f u (requests es) = (Returned zs, w)" "ys = r # zs"
      by (auto split: prod.splits outcome.splits)
    with Cons.IH [of u zs] Normal show ?thesis by (auto simp: entry_cmd_simps)
  next
    case Blank
    with skip show ?thesis by (auto simp: entry_cmd_simps)
  next
    case (Membership m)
    with skip show ?thesis by (auto simp: entry_cmd_simps)
  qed
qed auto

section \<open>The apply loop\<close>

locale raft_state_machine =
  fixes cmd :: "'st \<Rightarrow> 'c \<Rightarrow> 'r outcome \<times> 'st"
    and dflt :: 'r
    and apply_loop :: "'st heap \<Rightarrow> 's \<Rightarrow> ('lid, 'c, 'mem) Entry list \<Rightarrow> 'r list
       \<Rightarrow> (StorageError, 'r list) result outcome \<times> 'st heap \<times> 's"
    and cell :: "'s \<Rightarrow> addr"
    and applied :: "'s \<Rightarrow> 'lid LogId option"
    and members :: "'s \<Rightarrow> ('lid, 'mem) StoredMembership"
    and stored :: "'s \<Rightarrow> ('lid, 'mem) StoredSnapshot option"
    and record_entry :: "('lid, 'c, 'mem) Entry \<Rightarrow> 's \<Rightarrow> 's"
  assumes loop_Nil: "apply_loop h s [] acc = (Returned (Inr acc), h, s)"
    and loop_Cons: "apply_loop h s (e # es) acc =
      (case entry_locked cmd dflt h (cell s) e of
         (Panicked p, h') \<Rightarrow> (Panicked p, h', record_entry e s)
       | (Returned r, h') \<Rightarrow> apply_loop h' (record_entry e s) es (acc @ [r]))"
    and cell_record: "cell (record_entry e s) = cell s"
    and stored_record: "stored (record_entry e s) = stored s"
    and applied_record: "applied (record_entry e s) = Some (log_id e)"
    and members_record: "members (record_entry e s) = membership_after (members s) [e]"
begin

lemma loop_append:
  "apply_loop h s (es @ fs) acc =
     (case apply_loop h s es acc of
        (Panicked p, h', s') \<Rightarrow> (Panicked p, h', s')
      | (Returned (Inl e), h', s') \<Rightarrow> (Returned (Inl e), h', s')
      | (Returned (Inr rs), h', s') \<Rightarrow> apply_loop h' s' fs rs)"
  by (induction es arbitrary: h s acc)
     (auto simp: loop_Nil loop_Cons split: prod.splits outcome.splits)

text \<open>The loop is the replay of the log on the guarded value.\<close>

lemma loop_replay:
  "\<lbrakk>h (cell s) = mutex_new v; replay cmd dflt v es = (Returned rs, w)\<rbrakk> \<Longrightarrow>
   apply_loop h s es acc =
     (Returned (Inr (acc @ rs)), h(cell s := mutex_new w), fold record_entry es s)"
proof (induction es arbitrary: h s v acc rs)
  case Nil
  then show ?case by (simp add: loop_Nil fun_upd_idem)
next
  case (Cons e es)
  from Cons.prems(2) obtain r u ss where step:
    "entry_cmd cmd dflt v e = (Returned r, u)"
    "replay cmd dflt u es = (Returned ss, w)" "rs = r # ss"
    by (auto split: prod.splits outcome.splits)
  let ?h = "h(cell s := mutex_new u)"
  have "apply_loop ?h (record_entry e s) es (acc @ [r]) =
      (Returned (Inr ((acc @ [r]) @ ss)), ?h(cell (record_entry e s) := mutex_new w),
       fold record_entry es (record_entry e s))"
    by (rule Cons.IH [where v = u]) (simp_all add: cell_record step)
  then show ?case
    using entry_locked_Returned [of h "cell s", OF Cons.prems(1) step(1)]
    by (simp add: loop_Cons cell_record step(3) fun_eq_iff)
qed

lemma fold_record:
  "cell (fold record_entry es s) = cell s"
  "stored (fold record_entry es s) = stored s"
  "applied (fold record_entry es s) = applied_after (applied s) es"
  "members (fold record_entry es s) = membership_after (members s) es"
proof (induction es arbitrary: s)
  case (Cons e es)
  { case 1 show ?case using Cons.IH(1) by (simp add: cell_record) }
  { case 2 show ?case using Cons.IH(2) by (simp add: stored_record) }
  { case 3 show ?case using Cons.IH(3) by (simp add: applied_record) }
  { case 4 show ?case using Cons.IH(4) by (simp add: members_record) }
qed simp_all

text \<open>
  Two replicas that start from the same value and are fed the same log, in whatever batches
  and wherever their cells live, give the same responses and end with the same value, the
  same last-applied id and the same membership.
\<close>

lemma replicas_agree:
  assumes "h (cell s) = mutex_new v" "g (cell t) = mutex_new v"
    and "applied s = applied t" "members s = members t"
    and run: "replay cmd dflt v es = (Returned rs, w)"
  shows "\<exists>h' s' g' t'.
      apply_loop h s es [] = (Returned (Inr rs), h', s') \<and>
      apply_loop g t es [] = (Returned (Inr rs), g', t') \<and>
      h' (cell s') = mutex_new w \<and> g' (cell t') = mutex_new w \<and>
      applied t' = applied s' \<and> members t' = members s'"
  using loop_replay [of h s, OF assms(1) run, of "[]"] loop_replay [of g t, OF assms(2) run, of "[]"]
    assms(3,4)
  by (simp add: fold_record)

lemma loop_cell: "apply_loop h s es acc = (o', h', s') \<Longrightarrow> cell s' = cell s"
  by (induction es arbitrary: h s acc)
     (auto simp: loop_Nil loop_Cons cell_record split: prod.splits outcome.splits)

lemma loop_stored: "apply_loop h s es acc = (o', h', s') \<Longrightarrow> stored s' = stored s"
  by (induction es arbitrary: h s acc)
     (auto simp: loop_Nil loop_Cons stored_record split: prod.splits outcome.splits)

lemma loop_frame:
  "\<lbrakk>apply_loop h s es acc = (o', h', s'); b \<noteq> cell s\<rbrakk> \<Longrightarrow> h' b = h b"
proof (induction es arbitrary: h s acc)
  case (Cons e es)
  obtain x g where "entry_locked cmd dflt h (cell s) e = (x, g)" by fastforce
  then show ?case
    using Cons entry_locked_frame [of cmd dflt h "cell s" e x g b]
    by (cases x) (auto simp: loop_Cons cell_record)
qed (simp add: loop_Nil)

text \<open>What every command keeps true of the value, panics included, the loop keeps true of the cell.\<close>

lemma loop_invariant:
  assumes "\<And>v c. P v \<Longrightarrow> P (snd (cmd v c))"
  shows "\<lbrakk>apply_loop h s es acc = (o', h', s'); P (guarded (h (cell s)))\<rbrakk> \<Longrightarrow> P (guarded (h' (cell s)))"
proof (induction es arbitrary: h s acc)
  case (Cons e es)
  obtain x g where one: "entry_locked cmd dflt h (cell s) e = (x, g)" by fastforce
  have "P (guarded (g (cell s)))"
  proof (cases "entry_payload e")
    case (Normal c)
    with one Cons.prems(2) assms [of "guarded (h (cell s))" c] show ?thesis
      by (auto simp: entry_locked_def with_lock_def split: if_splits prod.splits outcome.splits)
  qed (use one Cons.prems(2) in \<open>auto simp: entry_locked_def\<close>)
  with Cons.IH [of g "record_entry e s"] Cons.prems(1) one show ?case
    by (cases x) (auto simp: loop_Cons cell_record)
qed (simp add: loop_Nil)

text \<open>The loop never reports a storage error; it returns or it panics.\<close>

lemma loop_never_errs: "apply_loop h s es acc = (Returned x, h', s') \<Longrightarrow> \<exists>rs. x = Inr rs"
  by (induction es arbitrary: h s acc)
     (auto simp: loop_Nil loop_Cons split: prod.splits outcome.splits)

lemma loop_Returned_replay:
  assumes "h (cell s) = mutex_new v" "apply_loop h s es acc = (Returned (Inr rs), h', s')"
  shows "\<exists>ss w. replay cmd dflt v es = (Returned ss, w) \<and> h' = h(cell s := mutex_new w)
    \<and> rs = acc @ ss \<and> s' = fold record_entry es s"
  using assms
proof (induction es arbitrary: h s v acc)
  case Nil
  then show ?case by (auto simp: loop_Nil fun_upd_idem)
next
  case (Cons e es)
  obtain x u where one: "entry_cmd cmd dflt v e = (x, u)" by fastforce
  show ?case
  proof (cases x)
    case (Panicked p)
    from one [unfolded Panicked] Cons.prems(2) show ?thesis
      by (simp add: loop_Cons entry_locked_Panicked [of h "cell s", OF Cons.prems(1)])
  next
    case (Returned r)
    let ?h = "h(cell s := mutex_new u)"
    have "apply_loop ?h (record_entry e s) es (acc @ [r]) = (Returned (Inr rs), h', s')"
      using one [unfolded Returned] Cons.prems(2)
      by (simp add: loop_Cons entry_locked_Returned [of h "cell s", OF Cons.prems(1)])
    from Cons.IH [OF _ this, of u] one Returned show ?thesis
      by (auto simp: cell_record fun_eq_iff)
  qed
qed

end

section \<open>Snapshots\<close>

text \<open>
  \<open>build\<close> runs on a builder and reads the shared cell; \<open>install\<close> overwrites it;
  \<open>builder\<close> is \<open>get_snapshot_builder\<close>.
\<close>

locale snapshot_state_machine =
  raft_state_machine cmd dflt apply_loop cell applied members stored record_entry
  for cmd :: "'st \<Rightarrow> 'c \<Rightarrow> 'r outcome \<times> 'st"
    and dflt :: 'r
    and apply_loop :: "'st heap \<Rightarrow> 's \<Rightarrow> ('lid, 'c, 'mem) Entry list \<Rightarrow> 'r list
       \<Rightarrow> (StorageError, 'r list) result outcome \<times> 'st heap \<times> 's"
    and cell :: "'s \<Rightarrow> addr"
    and applied :: "'s \<Rightarrow> 'lid LogId option"
    and members :: "'s \<Rightarrow> ('lid, 'mem) StoredMembership"
    and stored :: "'s \<Rightarrow> ('lid, 'mem) StoredSnapshot option"
    and record_entry :: "('lid, 'c, 'mem) Entry \<Rightarrow> 's \<Rightarrow> 's" +
  fixes encode :: "'st \<Rightarrow> (string, bytes) result"
    and decode :: "bytes \<Rightarrow> (string, 'st) result"
    and build :: "nat option \<Rightarrow> 'st heap \<Rightarrow> 's
       \<Rightarrow> (StorageError, ('lid, 'mem) Snapshot) result outcome \<times> 'st heap \<times> 's"
    and install :: "'st heap \<Rightarrow> 's \<Rightarrow> ('lid, 'mem) SnapshotMeta \<Rightarrow> bytes
       \<Rightarrow> (StorageError, unit) result outcome \<times> 'st heap \<times> 's"
    and builder :: "'s \<Rightarrow> 's"
  assumes build_Returned: "\<lbrakk>h (cell s) = mutex_new v; encode v = Inr d\<rbrakk> \<Longrightarrow>
      \<exists>sn s'. build (Some now) h s = (Returned (Inr sn), h, s') \<and>
        snapshot_data sn = d \<and> last_log_id (meta sn) = applied s \<and>
        meta_membership (meta sn) = members s \<and>
        cell s' = cell s \<and> applied s' = applied s \<and> members s' = members s \<and>
        stored s' = Some \<lparr>stored_meta = meta sn, stored_data = d\<rparr>"
    and install_Returned: "\<lbrakk>h (cell s) = mutex_new w; decode d = Inr v\<rbrakk> \<Longrightarrow>
      \<exists>s'. install h s mt d = (Returned (Inr ()), h(cell s := mutex_new v), s') \<and>
        cell s' = cell s \<and> applied s' = last_log_id mt \<and> members s' = meta_membership mt \<and>
        stored s' = Some \<lparr>stored_meta = mt, stored_data = d\<rparr>"
    and builder_view: "cell (builder s) = cell s" "applied (builder s) = applied s"
      "members (builder s) = members s" "stored (builder s) = None"
begin

text \<open>
  Catching up by snapshot: a replica that installs a snapshot of the leader's value and then
  applies what follows in the log ends where the leader does.
\<close>

lemma snapshot_then_suffix:
  assumes "h (cell s) = mutex_new v" "g (cell t) = mutex_new u"
    and "encode v = Inr d" "decode d = Inr v"
    and "replay cmd dflt v es = (Returned rs, w)"
  shows "\<exists>sn s' g' t' g'' t''.
      build (Some now) h s = (Returned (Inr sn), h, s') \<and>
      install g t (meta sn) (snapshot_data sn) = (Returned (Inr ()), g', t') \<and>
      apply_loop g' t' es [] = (Returned (Inr rs), g'', t'') \<and>
      g'' (cell t) = mutex_new w \<and>
      applied t'' = applied_after (applied s) es \<and>
      members t'' = membership_after (members s) es"
proof -
  obtain sn s' where b: "build (Some now) h s = (Returned (Inr sn), h, s')" "snapshot_data sn = d"
      "last_log_id (meta sn) = applied s" "meta_membership (meta sn) = members s"
    using build_Returned [of h s v d now] assms(1,3) by blast
  obtain t' where i: "install g t (meta sn) d = (Returned (Inr ()), g(cell t := mutex_new v), t')"
      "cell t' = cell t" "applied t' = applied s" "members t' = members s"
    using install_Returned [of g t u d v "meta sn"] assms(2,4) b(3,4) by auto
  have "apply_loop (g(cell t := mutex_new v)) t' es [] =
      (Returned (Inr rs), g(cell t := mutex_new w), fold record_entry es t')"
    using loop_replay [of "g(cell t := mutex_new v)" t' v es rs w "[]"] assms(5) i(2) by simp
  with b i show ?thesis by (auto simp: fold_record)
qed

text \<open>
  A builder shares the cell of the machine it was taken from. If entries are applied before
  it runs, the snapshot holds their effect under the log id from before them.
\<close>

lemma builder_after_apply:
  assumes "h (cell s) = mutex_new v" "replay cmd dflt v es = (Returned rs, w)" "encode w = Inr d"
  shows "\<exists>h' s' sn b.
      apply_loop h s es [] = (Returned (Inr rs), h', s') \<and>
      build (Some now) h' (builder s) = (Returned (Inr sn), h', b) \<and>
      last_log_id (meta sn) = applied s \<and> applied s' = applied_after (applied s) es \<and>
      snapshot_data sn = d"
proof -
  let ?h = "h(cell s := mutex_new w)"
  have "?h (cell (builder s)) = mutex_new w" by (simp add: builder_view)
  from build_Returned [of ?h "builder s", OF this assms(3), of now] loop_replay [of h s, OF assms(1,2), of "[]"]
  show ?thesis by (auto simp: builder_view fold_record)
qed

end

end
