(* ===== verification/Queue_Sm.thy ===== *)
theory Queue_Sm
  imports Queue_State Replicated_Sm
begin

text \<open>
  \<open>StateMachineStore\<close> of \<open>state_machine.rs\<close>: the queue group's implementation of
  openraft's \<open>RaftStateMachine\<close> and \<open>RaftSnapshotBuilder\<close>. The queue state lives in a
  shared cell (\<open>Arc<Mutex<QueueState>>\<close>); the store itself holds the cell's address.
\<close>

section \<open>The store and its operations\<close>

record ('lid, 'mem) StateMachineStore =
  sm_state :: addr
  sm_last_applied :: "'lid LogId option"
  sm_last_membership :: "('lid, 'mem) StoredMembership"
  sm_snapshot :: "('lid, 'mem) StoredSnapshot option"

datatype SnapshotPayload =
  SnapshotPayload (payload_queues: "(string, (u64 \<times> bytes) list) fmap")
    (payload_next_offset: "(string, u64) fmap")

instance SnapshotPayload :: countable
  by countable_datatype

text \<open>\<open>new\<close>; openraft's default membership is an argument.\<close>

definition StateMachineStore_new :: "'mem \<Rightarrow> addr \<Rightarrow> ('lid, 'mem) StateMachineStore" where
  "StateMachineStore_new mem0 state =
     \<lparr>sm_state = state, sm_last_applied = None,
      sm_last_membership = \<lparr>membership_log_id = None, membership = mem0\<rparr>,
      sm_snapshot = None\<rparr>"

definition snapshot_payload :: "QueueState \<Rightarrow> SnapshotPayload" where
  "snapshot_payload st =
     SnapshotPayload (fmmap (map (\<lambda>(off, p). (off, p))) (queues st)) (next_offset st)"

definition build_snapshot ::
  "SnapshotPayload codec \<Rightarrow> nat option \<Rightarrow> QueueState heap \<Rightarrow> ('lid, 'mem) StateMachineStore
     \<Rightarrow> (StorageError, ('lid, 'mem) Snapshot) result outcome \<times> QueueState heap
        \<times> ('lid, 'mem) StateMachineStore" where
  "build_snapshot json now h self =
     (case with_lock h (sm_state self) (\<lambda>st. (Returned (snapshot_payload st), st)) of
        (Panicked p, h) \<Rightarrow> (Panicked p, h, self)
      | (Returned pl, h) \<Rightarrow>
          (case expect ''snapshot payload serializes'' (to_vec json pl) of
             Panicked p \<Rightarrow> (Panicked p, h, self)
           | Returned data \<Rightarrow>
               (case uuid_like_id now of
                  Panicked p \<Rightarrow> (Panicked p, h, self)
                | Returned sid \<Rightarrow>
                    (let m = \<lparr>last_log_id = sm_last_applied self,
                              meta_membership = sm_last_membership self,
                              snapshot_id = sid\<rparr>
                     in (Returned (Inr \<lparr>meta = m, snapshot_data = data\<rparr>), h,
                         self\<lparr>sm_snapshot := Some \<lparr>stored_meta = m, stored_data = data\<rparr>\<rparr>)))))"

definition applied_state ::
  "('lid, 'mem) StateMachineStore
     \<Rightarrow> (StorageError, 'lid LogId option \<times> ('lid, 'mem) StoredMembership) result" where
  "applied_state self = Inr (sm_last_applied self, sm_last_membership self)"

fun sm_apply_loop ::
  "bool \<Rightarrow> QueueState heap \<Rightarrow> ('lid, 'mem) StateMachineStore \<Rightarrow> ('lid, QueueRequest, 'mem) Entry list
     \<Rightarrow> QueueResponse list
     \<Rightarrow> (StorageError, QueueResponse list) result outcome \<times> QueueState heap
        \<times> ('lid, 'mem) StateMachineStore" where
  "sm_apply_loop checks h self [] responses = (Returned (Inr responses), h, self)"
| "sm_apply_loop checks h self (entry # entries) responses =
     (let self = self\<lparr>sm_last_applied := Some (log_id entry)\<rparr> in
      case entry_payload entry of
        Blank \<Rightarrow> sm_apply_loop checks h self entries (responses @ [QueueResponse_default])
      | Normal req \<Rightarrow>
          (case with_lock h (sm_state self) (\<lambda>st. QueueState_apply checks st req) of
             (Panicked p, h) \<Rightarrow> (Panicked p, h, self)
           | (Returned r, h) \<Rightarrow> sm_apply_loop checks h self entries (responses @ [r]))
      | Membership mem \<Rightarrow>
          sm_apply_loop checks h
            (self\<lparr>sm_last_membership :=
                \<lparr>membership_log_id = Some (log_id entry), membership = mem\<rparr>\<rparr>)
            entries (responses @ [QueueResponse_default]))"

definition sm_apply ::
  "bool \<Rightarrow> QueueState heap \<Rightarrow> ('lid, 'mem) StateMachineStore \<Rightarrow> ('lid, QueueRequest, 'mem) Entry list
     \<Rightarrow> (StorageError, QueueResponse list) result outcome \<times> QueueState heap
        \<times> ('lid, 'mem) StateMachineStore" where
  "sm_apply checks h self entries = sm_apply_loop checks h self entries []"

definition get_snapshot_builder ::
  "('lid, 'mem) StateMachineStore \<Rightarrow> ('lid, 'mem) StateMachineStore" where
  "get_snapshot_builder self =
     \<lparr>sm_state = sm_state self, sm_last_applied = sm_last_applied self,
      sm_last_membership = sm_last_membership self, sm_snapshot = None\<rparr>"

definition begin_receiving_snapshot :: "(StorageError, bytes) result" where
  "begin_receiving_snapshot = Inr []"

definition install_snapshot ::
  "SnapshotPayload codec \<Rightarrow> QueueState heap \<Rightarrow> ('lid, 'mem) StateMachineStore
     \<Rightarrow> ('lid, 'mem) SnapshotMeta \<Rightarrow> bytes
     \<Rightarrow> (StorageError, unit) result outcome \<times> QueueState heap \<times> ('lid, 'mem) StateMachineStore" where
  "install_snapshot json h self m data =
     (case expect ''snapshot payload deserializes'' (from_slice json data) of
        Panicked p \<Rightarrow> (Panicked p, h, self)
      | Returned pl \<Rightarrow>
          (case with_lock h (sm_state self)
             (\<lambda>st. (Returned (), st\<lparr>queues := fmmap (map (\<lambda>(off, p). (off, p))) (payload_queues pl),
                              next_offset := payload_next_offset pl\<rparr>)) of
             (Panicked p, h) \<Rightarrow> (Panicked p, h, self)
           | (Returned u, h) \<Rightarrow>
               (Returned (Inr ()), h,
                self\<lparr>sm_last_applied := last_log_id m, sm_last_membership := meta_membership m,
                     sm_snapshot := Some \<lparr>stored_meta = m, stored_data = data\<rparr>\<rparr>)))"

definition get_current_snapshot ::
  "('lid, 'mem) StateMachineStore \<Rightarrow> (StorageError, ('lid, 'mem) Snapshot option) result" where
  "get_current_snapshot self =
     Inr (map_option (\<lambda>s. \<lparr>meta = stored_meta s, snapshot_data = stored_data s\<rparr>) (sm_snapshot self))"

section \<open>The interface, discharged\<close>

text \<open>What one entry does to the store's own fields.\<close>

definition sm_record ::
  "('lid, QueueRequest, 'mem) Entry \<Rightarrow> ('lid, 'mem) StateMachineStore \<Rightarrow> ('lid, 'mem) StateMachineStore" where
  "sm_record e self =
     self\<lparr>sm_last_applied := Some (log_id e),
          sm_last_membership := membership_after (sm_last_membership self) [e]\<rparr>"

definition queue_encode :: "SnapshotPayload codec \<Rightarrow> QueueState \<Rightarrow> (string, bytes) result" where
  "queue_encode json st = to_vec json (snapshot_payload st)"

definition queue_decode :: "SnapshotPayload codec \<Rightarrow> bytes \<Rightarrow> (string, QueueState) result" where
  "queue_decode json data =
     map_sum id (\<lambda>pl. \<lparr>queues = payload_queues pl, next_offset = payload_next_offset pl\<rparr>)
       (from_slice json data)"

lemma snapshot_payload_inverse:
  "payload_queues (snapshot_payload st) = queues st"
  "payload_next_offset (snapshot_payload st) = next_offset st"
  by (simp_all add: snapshot_payload_def)

lemma queue_decode_encode:
  "\<lbrakk>codec_ok json; queue_encode json st = Inr d\<rbrakk> \<Longrightarrow> queue_decode json d = Inr st"
  by (simp add: queue_encode_def queue_decode_def codec_okD snapshot_payload_inverse)

lemma sm_loop_Cons:
  "sm_apply_loop checks h self (e # es) acc =
     (case entry_locked (QueueState_apply checks) QueueResponse_default h (sm_state self) e of
        (Panicked p, h') \<Rightarrow> (Panicked p, h', sm_record e self)
      | (Returned r, h') \<Rightarrow> sm_apply_loop checks h' (sm_record e self) es (acc @ [r]))"
  by (cases "entry_payload e")
     (auto simp: entry_locked_def sm_record_def Let_def split: prod.split outcome.split)

interpretation queue_sm: raft_state_machine
  "QueueState_apply checks" QueueResponse_default "sm_apply_loop checks"
  sm_state sm_last_applied sm_last_membership sm_snapshot sm_record
  for checks
  by unfold_locales (simp_all add: sm_loop_Cons sm_record_def del: sm_apply_loop.simps(2))

interpretation queue_snap: snapshot_state_machine
  "QueueState_apply checks" QueueResponse_default "sm_apply_loop checks"
  sm_state sm_last_applied sm_last_membership sm_snapshot sm_record
  "queue_encode json" "queue_decode json" "build_snapshot json" "install_snapshot json"
  get_snapshot_builder
  for checks json
proof unfold_locales
  fix h :: "QueueState heap" and self :: "('a, 'b) StateMachineStore" and v d now
  assume "h (sm_state self) = mutex_new v" "queue_encode json v = Inr d"
  then show "\<exists>sn s'. build_snapshot json (Some now) h self = (Returned (Inr sn), h, s') \<and>
      snapshot_data sn = d \<and> last_log_id (meta sn) = sm_last_applied self \<and>
      meta_membership (meta sn) = sm_last_membership self \<and> sm_state s' = sm_state self \<and>
      sm_last_applied s' = sm_last_applied self \<and> sm_last_membership s' = sm_last_membership self \<and>
      sm_snapshot s' = Some \<lparr>stored_meta = meta sn, stored_data = d\<rparr>"
    by (simp add: build_snapshot_def with_lock_def queue_encode_def fun_upd_idem Let_def)
next
  fix h :: "QueueState heap" and self :: "('a, 'b) StateMachineStore" and w d v mt
  assume "h (sm_state self) = mutex_new w" "queue_decode json d = Inr v"
  then show "\<exists>s'. install_snapshot json h self mt d =
        (Returned (Inr ()), h(sm_state self := mutex_new v), s') \<and>
      sm_state s' = sm_state self \<and> sm_last_applied s' = last_log_id mt \<and>
      sm_last_membership s' = meta_membership mt \<and>
      sm_snapshot s' = Some \<lparr>stored_meta = mt, stored_data = d\<rparr>"
    by (cases "from_slice json d")
       (auto simp: install_snapshot_def with_lock_def queue_decode_def)
qed (simp_all add: get_snapshot_builder_def)

section \<open>Batches and events\<close>

text \<open>openraft hands the log over in batches of its choosing.\<close>

fun sm_apply_batches ::
  "bool \<Rightarrow> QueueState heap \<Rightarrow> ('lid, 'mem) StateMachineStore
     \<Rightarrow> ('lid, QueueRequest, 'mem) Entry list list
     \<Rightarrow> (StorageError, QueueResponse list) result outcome \<times> QueueState heap
        \<times> ('lid, 'mem) StateMachineStore" where
  "sm_apply_batches checks h self [] = (Returned (Inr []), h, self)"
| "sm_apply_batches checks h self (es # ess) =
     (case sm_apply checks h self es of
        (Panicked p, h, self) \<Rightarrow> (Panicked p, h, self)
      | (Returned (Inl e), h, self) \<Rightarrow> (Returned (Inl e), h, self)
      | (Returned (Inr rs), h, self) \<Rightarrow>
          (case sm_apply_batches checks h self ess of
             (Returned (Inr ss), h, self) \<Rightarrow> (Returned (Inr (rs @ ss)), h, self)
           | failed \<Rightarrow> failed))"

lemma sm_apply_replay:
  "\<lbrakk>h (sm_state s) = mutex_new v;
    replay (QueueState_apply checks) QueueResponse_default v es = (Returned rs, w)\<rbrakk> \<Longrightarrow>
   sm_apply checks h s es =
     (Returned (Inr rs), h(sm_state s := mutex_new w), fold sm_record es s)"
  using queue_sm.loop_replay [of h s v checks es rs w "[]"] by (simp add: sm_apply_def)

lemma sm_apply_batches_replay:
  "\<lbrakk>h (sm_state s) = mutex_new v;
    replay (QueueState_apply checks) QueueResponse_default v (concat ess) = (Returned rs, w)\<rbrakk> \<Longrightarrow>
   sm_apply_batches checks h s ess =
     (Returned (Inr rs), h(sm_state s := mutex_new w), fold sm_record (concat ess) s)"
proof (induction ess arbitrary: h s v rs)
  case Nil
  then show ?case by (simp add: fun_upd_idem)
next
  case (Cons es ess)
  from Cons.prems(2) obtain r1 u r2 where step:
    "replay (QueueState_apply checks) QueueResponse_default v es = (Returned r1, u)"
    "replay (QueueState_apply checks) QueueResponse_default u (concat ess) = (Returned r2, w)"
    "rs = r1 @ r2"
    by (auto simp: run_cmds_append split: prod.splits outcome.splits)
  let ?h = "h(sm_state s := mutex_new u)" and ?s = "fold sm_record es s"
  have "sm_apply_batches checks ?h ?s ess =
      (Returned (Inr r2), ?h(sm_state ?s := mutex_new w), fold sm_record (concat ess) ?s)"
    by (rule Cons.IH [where v = u]) (simp_all add: queue_sm.fold_record step)
  then show ?case
    using sm_apply_replay [of h s, OF Cons.prems(1) step(1)] step(3)
    by (simp add: queue_sm.fold_record fun_eq_iff)
qed

text \<open>
  What can happen to one node's machine: a batch is applied, a builder is taken from it, a
  builder runs (whatever the clock says and whether or not it succeeds), a snapshot from the
  leader is installed.
\<close>

datatype ('lid, 'mem) sm_event =
    Applied "('lid, QueueRequest, 'mem) Entry list"
  | BuilderTaken
  | BuilderRan nat
  | Installed "('lid, 'mem) SnapshotMeta" bytes

record ('lid, 'mem) sm_node =
  node_heap :: "QueueState heap"
  node_machine :: "('lid, 'mem) StateMachineStore"
  node_builders :: "('lid, 'mem) StateMachineStore list"

inductive sm_step ::
  "bool \<Rightarrow> SnapshotPayload codec \<Rightarrow> ('lid, 'mem) sm_node \<Rightarrow> ('lid, 'mem) sm_event
     \<Rightarrow> ('lid, 'mem) sm_node \<Rightarrow> bool" for checks json where
  step_apply: "sm_apply checks (node_heap n) (node_machine n) es = (r, h, m) \<Longrightarrow>
    sm_step checks json n (Applied es) (n\<lparr>node_heap := h, node_machine := m\<rparr>)"
| step_builder: "sm_step checks json n BuilderTaken
    (n\<lparr>node_builders := node_builders n @ [get_snapshot_builder (node_machine n)]\<rparr>)"
| step_build: "\<lbrakk>i < length (node_builders n);
      build_snapshot json now (node_heap n) (node_builders n ! i) = (r, h, b)\<rbrakk> \<Longrightarrow>
    sm_step checks json n (BuilderRan i)
      (n\<lparr>node_heap := h, node_builders := (node_builders n)[i := b]\<rparr>)"
| step_install: "install_snapshot json (node_heap n) (node_machine n) mt data = (r, h, m) \<Longrightarrow>
    sm_step checks json n (Installed mt data) (n\<lparr>node_heap := h, node_machine := m\<rparr>)"

inductive_cases sm_step_elims [elim!]:
  "sm_step checks json n (Applied es) n'"
  "sm_step checks json n BuilderTaken n'"
  "sm_step checks json n (BuilderRan i) n'"
  "sm_step checks json n (Installed mt data) n'"

inductive sm_run ::
  "bool \<Rightarrow> SnapshotPayload codec \<Rightarrow> ('lid, 'mem) sm_node \<Rightarrow> ('lid, 'mem) sm_event list
     \<Rightarrow> ('lid, 'mem) sm_node \<Rightarrow> bool" for checks json where
  run_Nil: "sm_run checks json n [] n"
| run_snoc: "\<lbrakk>sm_run checks json n evs n'; sm_step checks json n' ev n''\<rbrakk> \<Longrightarrow>
    sm_run checks json n (evs @ [ev]) n''"

lemma step_keeps_snapshot:
  "\<lbrakk>sm_step checks json n ev n'; \<And>mt data. ev \<noteq> Installed mt data\<rbrakk> \<Longrightarrow>
   sm_snapshot (node_machine n') = sm_snapshot (node_machine n)"
  by (cases ev) (auto simp: sm_apply_def dest: queue_sm.loop_stored)

lemma run_keeps_snapshot:
  "\<lbrakk>sm_run checks json n evs n'; \<And>mt data. Installed mt data \<notin> set evs\<rbrakk> \<Longrightarrow>
   sm_snapshot (node_machine n') = sm_snapshot (node_machine n)"
proof (induction rule: sm_run.induct)
  case (run_snoc n evs n' ev n'')
  then have "sm_snapshot (node_machine n'') = sm_snapshot (node_machine n')"
    by (intro step_keeps_snapshot) auto
  with run_snoc show ?case by simp
qed simp

section \<open>Concrete nodes for the witnesses\<close>

definition normal_at :: "u64 \<Rightarrow> QueueRequest \<Rightarrow> (nat, QueueRequest, nat) Entry" where
  "normal_at i r = \<lparr>log_id = \<lparr>leader_id = 1, index = i\<rparr>, entry_payload = Normal r\<rparr>"

definition fresh_heap :: "QueueState heap" where
  "fresh_heap = (\<lambda>_. mutex_new QueueState_default)"

abbreviation fresh_machine :: "addr \<Rightarrow> (nat, nat) StateMachineStore" where
  "fresh_machine \<equiv> StateMachineStore_new 0"

lemma fresh_cell [simp]: "fresh_heap a = mutex_new QueueState_default"
  by (simp add: fresh_heap_def)

lemma new_fields [simp]:
  "sm_state (StateMachineStore_new m a) = a"
  "sm_last_applied (StateMachineStore_new m a) = None"
  "sm_last_membership (StateMachineStore_new m a) = \<lparr>membership_log_id = None, membership = m\<rparr>"
  "sm_snapshot (StateMachineStore_new m a) = None"
  by (simp_all add: StateMachineStore_new_def)

lemma normal_at_fields [simp]:
  "log_id (normal_at i r) = \<lparr>leader_id = 1, index = i\<rparr>" "entry_payload (normal_at i r) = Normal r"
  by (simp_all add: normal_at_def)

lemma replay_publish_pop:
  "replay (QueueState_apply checks) QueueResponse_default QueueState_default
     [normal_at 1 (Publish ''q'' p), normal_at 2 (Pop ''q'')] =
   (Returned [\<lparr>published_offset = Some 0, popped = None\<rparr>, \<lparr>published_offset = None, popped = Some (0, p)\<rparr>],
    \<lparr>queues = fmupd ''q'' [] fmempty, next_offset = fmupd ''q'' 1 fmempty\<rparr>)"
  by (simp add: entry_cmd_def QueueState_default_eq or_insert_def add_u64_def Let_def)

section \<open>Properties\<close>

text \<open>
  C1: exactly-once delivery in order. A fresh machine that is fed any log of fewer than
  \<open>2 ^ 64\<close> entries, membership changes and blanks included, answers every entry without
  error or panic. For every queue, what was popped followed by what is still queued is
  exactly what was published, in publish order, under the offsets 0, 1, 2 and so on, and
  each publish was acknowledged with its offset.
\<close>

theorem exactly_once_delivery:
  fixes es :: "('lid, QueueRequest, 'mem) Entry list"
  assumes "h (sm_state s) = mutex_new QueueState_default" and "length es < 2 ^ 64"
  shows "\<exists>xs h' s' st.
    sm_apply checks h s es = (Returned (Inr xs), h', s') \<and> h' (sm_state s') = mutex_new st \<and>
    length xs = length es \<and>
    (\<forall>q. popped_from q (requests es) (answers es xs) @ get_or (queues st) q [] =
           with_offsets (published_to q (requests es)) \<and>
         acked_for q (requests es) (answers es xs) =
           map of_nat [0..<length (published_to q (requests es))])"
proof -
  have len: "length (requests es) < 2 ^ 64"
    using requests_length [of es] assms(2) by linarith
  obtain ys \<sigma> where run:
    "run_cmds (QueueState_apply checks) QueueState_default (requests es) = (Returned ys, conc \<sigma>)"
    using run_from_default [OF len] by metis
  then obtain xs where xs:
    "replay (QueueState_apply checks) QueueResponse_default QueueState_default es = (Returned xs, conc \<sigma>)"
    "answers es xs = ys"
    using replay_requests [OF run, of QueueResponse_default] by blast
  have "sm_apply checks h s es =
      (Returned (Inr xs), h(sm_state s := mutex_new (conc \<sigma>)), fold sm_record es s)"
    by (rule sm_apply_replay [of h s, OF assms(1) xs(1)])
  with run_delivers [OF run len] xs run_cmds_length [OF xs(1)] show ?thesis
    by (simp add: queue_sm.fold_record)
qed

theorem exactly_once_delivery_witness:
  "\<exists>xs h' s' st.
    sm_apply True fresh_heap (fresh_machine 0)
      [normal_at 1 (Publish ''q'' [5]), normal_at 2 (Publish ''q'' [6]), normal_at 3 (Pop ''q'')] =
      (Returned (Inr xs), h', s') \<and> h' (sm_state s') = mutex_new st \<and> length xs = 3 \<and>
    popped_from ''q'' [Publish ''q'' [5], Publish ''q'' [6], Pop ''q''] xs @ get_or (queues st) ''q'' [] =
      [(0, [5]), (1, [6])]"
proof -
  let ?es = "[normal_at 1 (Publish ''q'' [5]), normal_at 2 (Publish ''q'' [6]), normal_at 3 (Pop ''q'')]"
  have "fresh_heap (sm_state (fresh_machine 0)) = mutex_new QueueState_default" by simp
  moreover have "length ?es < 2 ^ 64" by simp
  ultimately obtain xs h' s' st where w:
    "sm_apply True fresh_heap (fresh_machine 0) ?es = (Returned (Inr xs), h', s')"
    "h' (sm_state s') = mutex_new st" "length xs = length ?es"
    "popped_from ''q'' (requests ?es) (answers ?es xs) @ get_or (queues st) ''q'' [] =
      with_offsets (published_to ''q'' (requests ?es))"
    using exactly_once_delivery [of fresh_heap "fresh_machine 0" ?es True] by blast
  moreover have "answers ?es xs = xs" using w(3) by (auto simp: length_Suc_conv)
  moreover have "with_offsets [[5], [6]] = [(0, [5]), (1, [6])]"
    by (simp add: with_offsets_def upt_rec)
  ultimately show ?thesis by auto
qed

text \<open>
  C2: replicas converge. Two machines that hold the same state and are fed the same log, cut
  into batches differently and living at different addresses, give the same responses and
  end with the same queues, the same last-applied id and the same membership.
\<close>

theorem replicas_converge:
  assumes "h (sm_state s) = mutex_new v" and "g (sm_state t) = mutex_new v"
    and "applied_state s = applied_state t" and "concat ess = concat fss"
    and "replay (QueueState_apply checks) QueueResponse_default v (concat ess) = (Returned rs, w)"
  shows "\<exists>h' s' g' t'.
    sm_apply_batches checks h s ess = (Returned (Inr rs), h', s') \<and>
    sm_apply_batches checks g t fss = (Returned (Inr rs), g', t') \<and>
    h' (sm_state s') = mutex_new w \<and> g' (sm_state t') = mutex_new w \<and>
    applied_state s' = applied_state t'"
  using sm_apply_batches_replay [of h s, OF assms(1) assms(5)]
    sm_apply_batches_replay [of g t, OF assms(2) assms(5) [unfolded assms(4)]] assms(3,4)
  by (simp add: applied_state_def queue_sm.fold_record)

theorem replicas_converge_witness:
  "\<exists>rs h' s' g' t'.
    sm_apply_batches True fresh_heap (fresh_machine 0)
      [[normal_at 1 (Publish ''q'' [5]), normal_at 2 (Pop ''q'')]] = (Returned (Inr rs), h', s') \<and>
    sm_apply_batches True fresh_heap (fresh_machine 7)
      [[normal_at 1 (Publish ''q'' [5])], [normal_at 2 (Pop ''q'')]] = (Returned (Inr rs), g', t') \<and>
    applied_state s' = applied_state t'"
  using replicas_converge [of fresh_heap "fresh_machine 0" QueueState_default fresh_heap "fresh_machine 7"
      "[[normal_at 1 (Publish ''q'' [5]), normal_at 2 (Pop ''q'')]]"
      "[[normal_at 1 (Publish ''q'' [5])], [normal_at 2 (Pop ''q'')]]"]
    replay_publish_pop [of True "[5]"]
  by (fastforce simp: applied_state_def)

text \<open>
  C4: catching up by snapshot. A snapshot built from a machine and installed on any other
  machine whose lock is sound gives that machine the first one's queues, counters, last
  applied id and membership; applying what follows in the log then gives both the same
  responses and the same state.
\<close>

theorem snapshot_catch_up:
  assumes "codec_ok json" and "h (sm_state s) = mutex_new v" and "g (sm_state t) = mutex_new u"
    and "to_vec json (snapshot_payload v) = Inr d"
    and "replay (QueueState_apply checks) QueueResponse_default v es = (Returned rs, w)"
  shows "\<exists>sn s' g' t' g'' t''.
    build_snapshot json (Some now) h s = (Returned (Inr sn), h, s') \<and>
    install_snapshot json g t (meta sn) (snapshot_data sn) = (Returned (Inr ()), g', t') \<and>
    g' (sm_state t') = h (sm_state s) \<and> applied_state t' = applied_state s \<and>
    sm_apply checks g' t' es = (Returned (Inr rs), g'', t'') \<and> g'' (sm_state t) = mutex_new w"
proof -
  have enc: "queue_encode json v = Inr d" and dec: "queue_decode json d = Inr v"
    using assms(1,4) queue_decode_encode by (simp_all add: queue_encode_def)
  obtain sn s' where b: "build_snapshot json (Some now) h s = (Returned (Inr sn), h, s')"
      "snapshot_data sn = d" "last_log_id (meta sn) = sm_last_applied s"
      "meta_membership (meta sn) = sm_last_membership s"
    using queue_snap.build_Returned [of h s v json d now] assms(2) enc by blast
  obtain t' where i: "install_snapshot json g t (meta sn) d =
      (Returned (Inr ()), g(sm_state t := mutex_new v), t')" "sm_state t' = sm_state t"
      "sm_last_applied t' = sm_last_applied s" "sm_last_membership t' = sm_last_membership s"
    using queue_snap.install_Returned [of g t u json d v "meta sn"] assms(3) dec b(3,4) by auto
  from b i assms(2) sm_apply_replay [of "g(sm_state t := mutex_new v)" t' v checks es rs w] assms(5)
  show ?thesis by (auto simp: applied_state_def)
qed

theorem snapshot_catch_up_witness:
  "\<exists>sn s' g' t' g'' t'' rs.
    build_snapshot unary_codec (Some 255) fresh_heap (fresh_machine 0) =
      (Returned (Inr sn), fresh_heap, s') \<and>
    install_snapshot unary_codec fresh_heap (fresh_machine 1) (meta sn) (snapshot_data sn) =
      (Returned (Inr ()), g', t') \<and>
    sm_apply True g' t' [normal_at 1 (Publish ''q'' [5]), normal_at 2 (Pop ''q'')] =
      (Returned (Inr rs), g'', t'')"
  using snapshot_catch_up [OF unary_codec_ok, of fresh_heap "fresh_machine 0" QueueState_default
      fresh_heap "fresh_machine 1" QueueState_default, OF fresh_cell fresh_cell unary_to_vec
      replay_publish_pop [of True "[5]"], of 255]
  by blast

text \<open>
  C23: a snapshot builder is no snapshot view. A builder taken from a machine shares its queue
  state; when entries are applied between taking the builder and running it, the snapshot it
  returns carries the log id from before those entries together with the state after them.
\<close>

theorem builder_sees_later_entries:
  assumes "codec_ok json" and "h (sm_state s) = mutex_new v"
    and "replay (QueueState_apply checks) QueueResponse_default v es = (Returned rs, w)"
    and "to_vec json (snapshot_payload w) = Inr d"
  shows "\<exists>h' s' sn b.
    sm_apply checks h s es = (Returned (Inr rs), h', s') \<and>
    build_snapshot json (Some now) h' (get_snapshot_builder s) = (Returned (Inr sn), h', b) \<and>
    last_log_id (meta sn) = sm_last_applied s \<and>
    from_slice json (snapshot_data sn) = Inr (snapshot_payload w)"
proof -
  have "queue_encode json w = Inr d" using assms(4) by (simp add: queue_encode_def)
  from queue_snap.builder_after_apply [of h s, OF assms(2,3) this, of now]
  show ?thesis
    using codec_okD [OF assms(1,4)] by (auto simp: sm_apply_def)
qed

text \<open>
  The consequence on a concrete cluster: the leader publishes one message while a builder is
  waiting; a follower that installs the snapshot and then applies the entries after the
  snapshot's log id, as Raft prescribes, holds the message twice.
\<close>

lemma replay_publish:
  "replay (QueueState_apply checks) QueueResponse_default QueueState_default
     [normal_at 1 (Publish ''q'' p)] =
   (Returned [\<lparr>published_offset = Some 0, popped = None\<rparr>],
    \<lparr>queues = fmupd ''q'' [(0, p)] fmempty, next_offset = fmupd ''q'' 1 fmempty\<rparr>)"
  by (simp add: entry_cmd_def QueueState_default_eq or_insert_def add_u64_def Let_def)

lemma replay_publish_twice:
  "replay (QueueState_apply checks) QueueResponse_default
     \<lparr>queues = fmupd ''q'' [(0, p)] fmempty, next_offset = fmupd ''q'' 1 fmempty\<rparr>
     [normal_at 1 (Publish ''q'' p)] =
   (Returned [\<lparr>published_offset = Some 1, popped = None\<rparr>],
    \<lparr>queues = fmupd ''q'' [(0, p), (1, p)] fmempty, next_offset = fmupd ''q'' 2 fmempty\<rparr>)"
  by (simp add: entry_cmd_def or_insert_def add_u64_def Let_def)

theorem builder_sees_later_entries_witness:
  "\<exists>h' s' sn b g' t' rs g'' t''.
    sm_apply True fresh_heap (fresh_machine 0) [normal_at 1 (Publish ''q'' [5])] =
      (Returned (Inr [\<lparr>published_offset = Some 0, popped = None\<rparr>]), h', s') \<and>
    build_snapshot unary_codec (Some 1) h' (get_snapshot_builder (fresh_machine 0)) =
      (Returned (Inr sn), h', b) \<and>
    last_log_id (meta sn) = None \<and>
    install_snapshot unary_codec fresh_heap (fresh_machine 1) (meta sn) (snapshot_data sn) =
      (Returned (Inr ()), g', t') \<and>
    sm_apply True g' t' [normal_at 1 (Publish ''q'' [5])] = (Returned (Inr rs), g'', t'') \<and>
    get_or (queues (guarded (g'' 1))) ''q'' [] = [(0, [5]), (1, [5])]"
proof -
  let ?w = "\<lparr>queues = fmupd ''q'' [(0, [5])] fmempty, next_offset = fmupd ''q'' 1 fmempty\<rparr> :: QueueState"
  obtain h' s' sn b where w:
    "sm_apply True fresh_heap (fresh_machine 0) [normal_at 1 (Publish ''q'' [5])] =
      (Returned (Inr [\<lparr>published_offset = Some 0, popped = None\<rparr>]), h', s')"
    "build_snapshot unary_codec (Some 1) h' (get_snapshot_builder (fresh_machine 0)) =
      (Returned (Inr sn), h', b)"
    "last_log_id (meta sn) = None"
    "from_slice unary_codec (snapshot_data sn) = Inr (snapshot_payload ?w)"
    using builder_sees_later_entries [OF unary_codec_ok, of fresh_heap "fresh_machine 0" QueueState_default,
        OF fresh_cell replay_publish unary_to_vec, of True "[5]" 1]
    by auto
  have "queue_decode unary_codec (snapshot_data sn) = Inr ?w"
    using w(4) by (simp add: queue_decode_def snapshot_payload_def)
  from queue_snap.install_Returned [of fresh_heap "fresh_machine 1", OF fresh_cell this, of "meta sn"]
  obtain t' where i: "install_snapshot unary_codec fresh_heap (fresh_machine 1) (meta sn) (snapshot_data sn) =
      (Returned (Inr ()), fresh_heap(1 := mutex_new ?w), t')" "sm_state t' = 1"
    by auto
  with w sm_apply_replay [of "fresh_heap(1 := mutex_new ?w)" t' ?w True, OF _ replay_publish_twice]
  show ?thesis by fastforce
qed

text \<open>
  C24: the machine never learns of the snapshots its builders make. Whatever batches are
  applied and builders taken and run, as long as no snapshot is installed from outside, the
  current snapshot that openraft reads back from a new machine stays absent.
\<close>

theorem built_snapshots_are_not_kept:
  assumes "sm_run checks json
      \<lparr>node_heap = h, node_machine = StateMachineStore_new mem0 a, node_builders = []\<rparr> evs n"
    and "\<And>mt data. Installed mt data \<notin> set evs"
  shows "get_current_snapshot (node_machine n) = Inr None"
  using run_keeps_snapshot [OF assms] by (simp add: get_current_snapshot_def)

theorem built_snapshots_are_not_kept_witness:
  "\<exists>n :: (nat, nat) sm_node.
    sm_run True unary_codec
      \<lparr>node_heap = fresh_heap, node_machine = fresh_machine 0, node_builders = []\<rparr>
      [BuilderTaken, BuilderRan 0] n \<and>
    (\<exists>b sn. node_builders n = [b] \<and> get_current_snapshot b = Inr (Some sn)) \<and>
    get_current_snapshot (node_machine n) = Inr None"
proof -
  let ?n = "\<lparr>node_heap = fresh_heap, node_machine = fresh_machine 0, node_builders = []\<rparr>"
  let ?b = "get_snapshot_builder (fresh_machine 0)"
  have "fresh_heap (sm_state ?b) = mutex_new QueueState_default" by simp
  moreover have "queue_encode unary_codec QueueState_default =
      Inr (replicate (to_nat (snapshot_payload QueueState_default)) 0)"
    by (simp add: queue_encode_def unary_to_vec)
  ultimately obtain sn b where b: "build_snapshot unary_codec (Some 1) fresh_heap ?b = (Returned (Inr sn), fresh_heap, b)"
      "sm_snapshot b \<noteq> None"
    using queue_snap.build_Returned [of fresh_heap ?b QueueState_default unary_codec _ 1] by fastforce
  have "sm_run True unary_codec ?n ([] @ [BuilderTaken]) (?n\<lparr>node_builders := [?b]\<rparr>)"
    using step_builder [of True unary_codec ?n] by (intro run_snoc [OF run_Nil]) simp
  moreover have "sm_step True unary_codec (?n\<lparr>node_builders := [?b]\<rparr>) (BuilderRan 0)
      (?n\<lparr>node_builders := [b]\<rparr>)"
    using step_build [of 0 "?n\<lparr>node_builders := [?b]\<rparr>" unary_codec "Some 1" _ fresh_heap b True] b
    by simp
  ultimately have "sm_run True unary_codec ?n (([] @ [BuilderTaken]) @ [BuilderRan 0])
      (?n\<lparr>node_builders := [b]\<rparr>)"
    by (rule run_snoc)
  then have r: "sm_run True unary_codec ?n [BuilderTaken, BuilderRan 0] (?n\<lparr>node_builders := [b]\<rparr>)"
    by simp
  with b(2) built_snapshots_are_not_kept [OF r] show ?thesis
    by (intro exI [of _ "?n\<lparr>node_builders := [b]\<rparr>"]) (auto simp: get_current_snapshot_def)
qed

text \<open>
  C25: an overflow under checks kills the group for good. The publish that would push a
  counter past \<open>u64::MAX\<close> panics inside the lock; from then on every command entry, every
  snapshot build and every install panics on the poisoned lock and changes nothing.
\<close>

theorem overflow_poisons_the_queue:
  assumes "h (sm_state s) = mutex_new v" and "get_or (next_offset v) q 0 = u64_max"
    and "entry_payload e = Normal (Publish q p)"
  shows "\<exists>h' s'. sm_apply True h s [e] = (Panicked ArithmeticOverflow, h', s') \<and>
    guarded (h' (sm_state s)) = v \<and>
    (\<forall>f r. entry_payload f = Normal r \<longrightarrow>
       fst (sm_apply True h' s' [f]) = Panicked PoisonedLock \<and>
       fst (snd (sm_apply True h' s' [f])) = h') \<and>
    build_snapshot json now h' s' = (Panicked PoisonedLock, h', s') \<and>
    (\<forall>mt d. \<exists>pn. install_snapshot json h' s' mt d = (Panicked pn, h', s'))"
proof -
  let ?h = "h(sm_state s := \<lparr>guarded = v, poisoned = True\<rparr>)" and ?s = "sm_record e s"
  have "with_lock h (sm_state s) (\<lambda>st. QueueState_apply True st (Publish q p)) =
      (Panicked ArithmeticOverflow, ?h)"
    using assms(1,2) by (simp add: with_lock_def apply_Publish_overflow del: QueueState_apply.simps)
  then have "sm_apply True h s [e] = (Panicked ArithmeticOverflow, ?h, ?s)"
    by (simp add: sm_apply_def sm_loop_Cons entry_locked_def assms(3) del: sm_apply_loop.simps(2))
  moreover have "poisoned (?h (sm_state ?s))" by (simp add: sm_record_def)
  moreover have "\<exists>pn. install_snapshot json ?h ?s mt d = (Panicked pn, ?h, ?s)" for mt d
    using \<open>poisoned (?h (sm_state ?s))\<close>
    by (cases "from_slice json d") (simp_all add: install_snapshot_def with_lock_poisoned)
  ultimately show ?thesis
    by (intro exI [of _ ?h] exI [of _ ?s])
       (auto simp: sm_apply_def build_snapshot_def with_lock_poisoned Let_def)
qed

theorem overflow_poisons_the_queue_witness:
  "\<exists>h' s'. sm_apply True
      (\<lambda>_. mutex_new \<lparr>queues = fmempty, next_offset = fmupd ''q'' u64_max fmempty\<rparr>)
      (fresh_machine 0) [normal_at 9 (Publish ''q'' [1])] = (Panicked ArithmeticOverflow, h', s') \<and>
    build_snapshot unary_codec (Some 0) h' s' = (Panicked PoisonedLock, h', s')"
  using overflow_poisons_the_queue [of
      "\<lambda>_. mutex_new \<lparr>queues = fmempty, next_offset = fmupd ''q'' u64_max fmempty\<rparr>" "fresh_machine 0"
      "\<lparr>queues = fmempty, next_offset = fmupd ''q'' u64_max fmempty\<rparr>" "''q''"
      "normal_at 9 (Publish ''q'' [1])" "[1]" unary_codec "Some 0"]
  by auto

end
