(* ===== verification/Raft_Api.thy ===== *)
theory Raft_Api
  imports Queue_Sm
begin

text \<open>
  What the host relies on when it calls \<open>openraft::Raft::client_write\<close>: an accepted command
  is committed, applied by the state machine in log order, and answered with that
  application's response; a node that is not the leader refuses and names the leader it
  knows. The interface is the locale \<open>raft_client\<close>; it is interpreted on a group whose log
  is applied by the queue state machine of this development.
\<close>

section \<open>Errors of a write\<close>

text \<open>
  \<open>RaftError::APIError(ClientWriteError::ForwardToLeader(_))\<close> with its \<open>leader_id\<close>; every
  other error is known to the host by its \<open>Debug\<close> text.
\<close>

datatype write_error = ForwardToLeader "u64 option" | WriteFailed string

section \<open>The interface\<close>

text \<open>
  A call is atomic at the moment openraft commits it; what other clients do happens between
  calls. \<open>commands\<close> is the list of committed commands, \<open>ok\<close> the states openraft can be
  in. A write that fails for another reason may or may not have been committed.
\<close>

locale raft_client =
  fixes app :: "'st \<Rightarrow> 'req \<Rightarrow> 'resp outcome \<times> 'st"
    and start :: 'st
    and ok :: "'w \<Rightarrow> bool"
    and client_write :: "'req \<Rightarrow> 'w \<Rightarrow> (write_error, 'resp) result \<times> 'w"
    and commands :: "'w \<Rightarrow> 'req list"
  assumes stays_ok: "\<lbrakk>ok w; client_write req w = (r, w')\<rbrakk> \<Longrightarrow> ok w'"
    and accepted: "\<lbrakk>ok w; client_write req w = (Inr resp, w')\<rbrakk> \<Longrightarrow>
      commands w' = commands w @ [req] \<and>
      (\<exists>resps st. run_cmds app start (commands w @ [req]) = (Returned (resps @ [resp]), st))"
    and forwarded: "\<lbrakk>ok w; client_write req w = (Inl (ForwardToLeader leader), w')\<rbrakk> \<Longrightarrow>
      commands w' = commands w"
    and failed: "\<lbrakk>ok w; client_write req w = (Inl (WriteFailed err), w')\<rbrakk> \<Longrightarrow>
      commands w' = commands w \<or> commands w' = commands w @ [req]"
begin

text \<open>The answers of the committed commands; a run that panicked has none.\<close>

definition answers_of :: "'w \<Rightarrow> 'resp list" where
  "answers_of w = (case run_cmds app start (commands w) of (Returned resps, st) \<Rightarrow> resps | _ \<Rightarrow> [])"

lemma accepted_answer:
  assumes "ok w" "client_write req w = (Inr resp, w')"
  shows "commands w' = commands w @ [req] \<and> answers_of w' = answers_of w @ [resp] \<and>
    length (answers_of w) = length (commands w)"
proof -
  from accepted [OF assms] obtain resps st where
    c: "commands w' = commands w @ [req]"
    and r: "run_cmds app start (commands w @ [req]) = (Returned (resps @ [resp]), st)" by blast
  then obtain mid st' where m: "run_cmds app start (commands w) = (Returned mid, st')" "mid = resps"
    by (auto simp: run_cmds_append split: prod.splits outcome.splits)
  with c r show ?thesis
    using run_cmds_length [OF m(1)] by (simp add: answers_of_def)
qed

text \<open>No write ever takes a command back.\<close>

lemma write_extends:
  assumes "ok w" "client_write req w = (r, w')"
  shows "\<exists>added. commands w' = commands w @ added \<and> (added = [] \<or> added = [req])"
proof (cases r)
  case (Inr resp)
  with assms accepted show ?thesis by blast
next
  case (Inl e)
  then show ?thesis using assms forwarded failed by (cases e) fastforce+
qed

end

section \<open>A group that applies its log with the queue state machine\<close>

record queue_group =
  grp_id :: u64
  grp_leader :: "u64 option"
  grp_log :: "(nat, QueueRequest, nat) Entry list"
  grp_heap :: "QueueState heap"
  grp_machine :: "(nat, nat) StateMachineStore"

definition group_write ::
  "bool \<Rightarrow> QueueRequest \<Rightarrow> queue_group \<Rightarrow> (write_error, QueueResponse) result \<times> queue_group" where
  "group_write checks req g =
     (if grp_leader g \<noteq> Some (grp_id g) then (Inl (ForwardToLeader (grp_leader g)), g)
      else
        let entry = normal_at (of_nat (length (grp_log g)) + 1) req;
            g' = g\<lparr>grp_log := grp_log g @ [entry]\<rparr>
        in case sm_apply checks (grp_heap g) (grp_machine g) [entry] of
             (Returned (Inr [resp]), h, m) \<Rightarrow> (Inr resp, g'\<lparr>grp_heap := h, grp_machine := m\<rparr>)
           | (_, h, m) \<Rightarrow> (Inl (WriteFailed ''Fatal(Panicked)''), g'\<lparr>grp_heap := h, grp_machine := m\<rparr>))"

definition group_commands :: "queue_group \<Rightarrow> QueueRequest list" where
  "group_commands g = requests (grp_log g)"


text \<open>The machine's cell holds what the log replays to, or is poisoned by its panic.\<close>

definition group_ok :: "bool \<Rightarrow> queue_group \<Rightarrow> bool" where
  "group_ok checks g =
     (case run_cmds (QueueState_apply checks) QueueState_default (group_commands g) of
        (Returned resps, v) \<Rightarrow> grp_heap g (sm_state (grp_machine g)) = mutex_new v
      | (Panicked p, v) \<Rightarrow> poisoned (grp_heap g (sm_state (grp_machine g))))"

definition group_new :: "u64 \<Rightarrow> u64 option \<Rightarrow> queue_group" where
  "group_new n leader =
     \<lparr>grp_id = n, grp_leader = leader, grp_log = [], grp_heap = fresh_heap, grp_machine = fresh_machine 0\<rparr>"

lemma group_new_ok: "group_ok checks (group_new n leader)"
  by (simp add: group_ok_def group_new_def group_commands_def)

lemma group_commands_new: "group_commands (group_new n leader) = []"
  by (simp add: group_new_def group_commands_def)

lemma requests_append: "requests (es @ fs) = requests es @ requests fs"
  by (induction es) (auto split: EntryPayload.split)

lemma sm_apply_one:
  "sm_apply checks h m [normal_at i req] =
     (case with_lock h (sm_state m) (\<lambda>v. QueueState_apply checks v req) of
        (Panicked p, h) \<Rightarrow> (Panicked p, h, sm_record (normal_at i req) m)
      | (Returned r, h) \<Rightarrow> (Returned (Inr [r]), h, sm_record (normal_at i req) m))"
  by (simp add: sm_apply_def sm_loop_Cons entry_locked_def del: sm_apply_loop.simps(2)
      split: prod.split outcome.split)

lemma group_write_leader:
  assumes "grp_leader g = Some (grp_id g)"
  shows "group_write checks req g =
    (let e = normal_at (of_nat (length (grp_log g)) + 1) req;
         (x, h) = with_lock (grp_heap g) (sm_state (grp_machine g)) (\<lambda>v. QueueState_apply checks v req);
         g' = g\<lparr>grp_log := grp_log g @ [e], grp_heap := h, grp_machine := sm_record e (grp_machine g)\<rparr>
     in (case x of Returned r \<Rightarrow> Inr r | Panicked p \<Rightarrow> Inl (WriteFailed ''Fatal(Panicked)''), g'))"
  using assms by (auto simp: group_write_def sm_apply_one Let_def split: prod.split outcome.split)

lemma sm_record_state [simp]: "sm_state (sm_record e m) = sm_state m"
  by (simp add: sm_record_def)

text \<open>What a write does on a leader, by what the log so far replays to.\<close>

lemma group_write_step:
  assumes "grp_leader g = Some (grp_id g)" "group_ok checks g" "group_write checks req g = (r, g')"
  shows "group_commands g' = group_commands g @ [req] \<and> group_ok checks g' \<and>
    (\<forall>resp. r = Inr resp \<longrightarrow> (\<exists>resps v.
       run_cmds (QueueState_apply checks) QueueState_default (group_commands g @ [req]) =
         (Returned (resps @ [resp]), v)))
    \<and> (\<forall>l. r \<noteq> Inl (ForwardToLeader l))"
proof -
  have c: "group_commands g' = group_commands g @ [req]"
    using assms(3) unfolding group_write_leader [OF assms(1)]
    by (auto simp: Let_def group_commands_def requests_append split: prod.splits)
  obtain x v where run: "run_cmds (QueueState_apply checks) QueueState_default (group_commands g) = (x, v)"
    by fastforce
  show ?thesis
  proof (cases x)
    case (Panicked p)
    with assms run c show ?thesis
      unfolding group_write_leader [OF assms(1)]
      by (auto simp: Let_def group_ok_def run_cmds_append with_lock_poisoned)
  next
    case (Returned rs)
    obtain y u where one: "QueueState_apply checks v req = (y, u)" by fastforce
    have cell: "grp_heap g (sm_state (grp_machine g)) = mutex_new v"
      using assms(2) run Returned by (simp add: group_ok_def)
    then show ?thesis
      using assms(3) run Returned c one unfolding group_write_leader [OF assms(1)]
      by (cases y) (auto simp: Let_def group_ok_def run_cmds_append with_lock_def)
  qed
qed

lemma group_write_follower:
  "grp_leader g \<noteq> Some (grp_id g) \<Longrightarrow> group_write checks req g = (Inl (ForwardToLeader (grp_leader g)), g)"
  by (simp add: group_write_def)

lemma group_write_any:
  assumes "group_ok checks g" "group_write checks req g = (r, g')"
  obtains (follower) "r = Inl (ForwardToLeader (grp_leader g))" "g' = g"
  | (leader) "group_commands g' = group_commands g @ [req]" "group_ok checks g'"
    "\<forall>resp. r = Inr resp \<longrightarrow> (\<exists>resps v.
       run_cmds (QueueState_apply checks) QueueState_default (group_commands g @ [req]) =
         (Returned (resps @ [resp]), v))"
    "\<forall>l. r \<noteq> Inl (ForwardToLeader l)"
proof (cases "grp_leader g = Some (grp_id g)")
  case True
  from group_write_step [OF True assms] show thesis by (intro leader) simp_all
next
  case False
  have "r = Inl (ForwardToLeader (grp_leader g))" "g' = g"
    using assms(2) unfolding group_write_follower [OF False] by auto
  then show thesis by (rule follower)
qed

interpretation group: raft_client
  "QueueState_apply checks" QueueState_default "group_ok checks" "group_write checks" group_commands
  for checks
proof unfold_locales
  fix g req r g'
  assume a: "group_ok checks g" "group_write checks req g = (r, g')"
  then show "group_ok checks g'" by (cases rule: group_write_any) (simp_all add: a(1))
next
  fix g req resp g'
  assume "group_ok checks g" "group_write checks req g = (Inr resp, g')"
  then show "group_commands g' = group_commands g @ [req] \<and>
      (\<exists>resps st. run_cmds (QueueState_apply checks) QueueState_default (group_commands g @ [req]) =
         (Returned (resps @ [resp]), st))"
    by (cases rule: group_write_any) auto
next
  fix g req l g'
  assume "group_ok checks g" "group_write checks req g = (Inl (ForwardToLeader l), g')"
  then show "group_commands g' = group_commands g" by (cases rule: group_write_any) auto
next
  fix g req err g'
  assume "group_ok checks g" "group_write checks req g = (Inl (WriteFailed err), g')"
  then show "group_commands g' = group_commands g \<or> group_commands g' = group_commands g @ [req]"
    by (cases rule: group_write_any) auto
qed

section \<open>The group while its node leads\<close>

definition leads_group :: "bool \<Rightarrow> queue_group \<Rightarrow> bool" where
  "leads_group checks g \<longleftrightarrow> group_ok checks g \<and> grp_leader g = Some (grp_id g)"

lemma leading_write:
  assumes "leads_group checks g" "group_write checks req g = (r, g')"
  shows "leads_group checks g'" "group_commands g' = group_commands g @ [req]" "r \<noteq> Inl (ForwardToLeader hint)"
proof -
  from assms have l: "grp_leader g = Some (grp_id g)" "group_ok checks g" by (simp_all add: leads_group_def)
  from assms(2) have "grp_leader g' = Some (grp_id g')"
    unfolding group_write_leader [OF l(1)] by (auto simp: Let_def l split: prod.splits)
  with group_write_step [OF l assms(2)] show "leads_group checks g'"
    "group_commands g' = group_commands g @ [req]" "r \<noteq> Inl (ForwardToLeader hint)"
    by (simp_all add: leads_group_def)
qed

text \<open>A leader's write, when the value of its machine is known.\<close>

lemma leading_value:
  assumes "grp_leader g = Some (grp_id g)" "grp_heap g (sm_state (grp_machine g)) = mutex_new v"
    and "QueueState_apply checks v req = (Returned r, v')"
  obtains g' where "group_write checks req g = (Inr r, g')" "grp_leader g' = Some (grp_id g')"
    "grp_heap g' (sm_state (grp_machine g')) = mutex_new v'" "group_commands g' = group_commands g @ [req]"
  using assms(2,3) unfolding group_write_leader [OF assms(1)]
  by (auto simp: Let_def with_lock_def assms(1) group_commands_def requests_append intro!: that)

text \<open>Without overflow checks no command panics, so a leader accepts every write.\<close>

lemma unchecked_returns: "\<exists>r v'. QueueState_apply False v req = (Returned r, v')"
proof (cases req)
  case (Publish q p)
  then show ?thesis by (simp add: apply_Publish del: QueueState_apply.simps)
next
  case (Pop q)
  then show ?thesis by (auto split: option.splits list.splits)
qed

lemma unchecked_run_returns: "\<exists>rs v'. run_cmds (QueueState_apply False) v cs = (Returned rs, v')"
proof (induction cs arbitrary: v)
  case (Cons c cs)
  obtain r u where "QueueState_apply False v c = (Returned r, u)" using unchecked_returns by blast
  with Cons.IH [of u] show ?case by auto
qed simp

lemma unchecked_accepts:
  assumes "leads_group False g" shows "\<exists>resp g'. group_write False req g = (Inr resp, g')"
proof -
  obtain rs v where "run_cmds (QueueState_apply False) QueueState_default (group_commands g) = (Returned rs, v)"
    using unchecked_run_returns by blast
  with assms have v: "grp_leader g = Some (grp_id g)" "grp_heap g (sm_state (grp_machine g)) = mutex_new v"
    by (simp_all add: leads_group_def group_ok_def)
  obtain r v' where "QueueState_apply False v req = (Returned r, v')" using unchecked_returns by blast
  from leading_value [OF v this] show ?thesis by metis
qed

interpretation leader_group: raft_client
  "QueueState_apply checks" QueueState_default "leads_group checks" "group_write checks" group_commands
  for checks
proof unfold_locales
  fix g req resp g'
  assume a: "leads_group checks g" "group_write checks req g = (Inr resp, g')"
  then show "group_commands g' = group_commands g @ [req] \<and>
      (\<exists>resps st. run_cmds (QueueState_apply checks) QueueState_default (group_commands g @ [req]) =
         (Returned (resps @ [resp]), st))"
    using group.accepted [of checks g req resp g'] by (simp add: leads_group_def)
qed (use leading_write in \<open>fastforce+\<close>)

end
