(* ===== verification/Node_Sm.thy ===== *)
theory Node_Sm
  imports Replicated_Sm
begin

text \<open>
  \<open>node_state_machine.rs\<close>: the cluster directory (node id to address) and the state
  machine of the nodes group, the second implementation of the interface of
  \<open>Replicated_Sm\<close>.
\<close>

section \<open>The directory\<close>

datatype NodeCommand = UpsertNode u64 string

datatype NodeResponse = NodeResponse

record NodeDirectory =
  nodes :: "(u64, string) fmap"

instantiation NodeDirectory_ext :: (default) default
begin

definition default_NodeDirectory_ext :: "'a NodeDirectory_scheme" where
  "default_NodeDirectory_ext = \<lparr>nodes = default, \<dots> = default\<rparr>"

instance ..

end

definition NodeDirectory_default :: NodeDirectory where
  "NodeDirectory_default = default"

lemma NodeDirectory_default_eq: "NodeDirectory_default = \<lparr>nodes = fmempty\<rparr>"
  by (simp add: NodeDirectory_default_def default_NodeDirectory_ext_def)

fun NodeDirectory_apply :: "NodeDirectory \<Rightarrow> NodeCommand \<Rightarrow> NodeResponse outcome \<times> NodeDirectory" where
  "NodeDirectory_apply d (UpsertNode nid address) =
     (Returned NodeResponse, d\<lparr>nodes := fmupd nid address (nodes d)\<rparr>)"

section \<open>The store and its operations\<close>

record ('lid, 'mem) NodeStateMachineStore =
  nsm_state :: addr
  nsm_last_applied :: "'lid LogId option"
  nsm_last_membership :: "('lid, 'mem) StoredMembership"
  nsm_snapshot :: "('lid, 'mem) StoredSnapshot option"

definition NodeStateMachineStore_new :: "'mem \<Rightarrow> addr \<Rightarrow> ('lid, 'mem) NodeStateMachineStore" where
  "NodeStateMachineStore_new mem0 state =
     \<lparr>nsm_state = state, nsm_last_applied = None,
      nsm_last_membership = \<lparr>membership_log_id = None, membership = mem0\<rparr>,
      nsm_snapshot = None\<rparr>"

fun node_uuid_like_id :: "nat option \<Rightarrow> string outcome" where
  "node_uuid_like_id None = Panicked UnwrapFailed"
| "node_uuid_like_id (Some nanos) = Returned (lower_hex nanos)"

definition node_build_snapshot ::
  "(u64, string) fmap codec \<Rightarrow> nat option \<Rightarrow> NodeDirectory heap \<Rightarrow> ('lid, 'mem) NodeStateMachineStore
     \<Rightarrow> (StorageError, ('lid, 'mem) Snapshot) result outcome \<times> NodeDirectory heap
        \<times> ('lid, 'mem) NodeStateMachineStore" where
  "node_build_snapshot json now h self =
     (case with_lock h (nsm_state self) (\<lambda>d. (Returned (nodes d), d)) of
        (Panicked p, h) \<Rightarrow> (Panicked p, h, self)
      | (Returned ns, h) \<Rightarrow>
          (case expect ''snapshot payload serializes'' (to_vec json ns) of
             Panicked p \<Rightarrow> (Panicked p, h, self)
           | Returned data \<Rightarrow>
               (case node_uuid_like_id now of
                  Panicked p \<Rightarrow> (Panicked p, h, self)
                | Returned sid \<Rightarrow>
                    (let m = \<lparr>last_log_id = nsm_last_applied self,
                              meta_membership = nsm_last_membership self,
                              snapshot_id = sid\<rparr>
                     in (Returned (Inr \<lparr>meta = m, snapshot_data = data\<rparr>), h,
                         self\<lparr>nsm_snapshot := Some \<lparr>stored_meta = m, stored_data = data\<rparr>\<rparr>)))))"

definition node_applied_state ::
  "('lid, 'mem) NodeStateMachineStore
     \<Rightarrow> (StorageError, 'lid LogId option \<times> ('lid, 'mem) StoredMembership) result" where
  "node_applied_state self = Inr (nsm_last_applied self, nsm_last_membership self)"

fun node_apply_loop ::
  "NodeDirectory heap \<Rightarrow> ('lid, 'mem) NodeStateMachineStore \<Rightarrow> ('lid, NodeCommand, 'mem) Entry list
     \<Rightarrow> NodeResponse list
     \<Rightarrow> (StorageError, NodeResponse list) result outcome \<times> NodeDirectory heap
        \<times> ('lid, 'mem) NodeStateMachineStore" where
  "node_apply_loop h self [] responses = (Returned (Inr responses), h, self)"
| "node_apply_loop h self (entry # entries) responses =
     (let self = self\<lparr>nsm_last_applied := Some (log_id entry)\<rparr> in
      case entry_payload entry of
        Blank \<Rightarrow> node_apply_loop h self entries (responses @ [NodeResponse])
      | Normal cmd \<Rightarrow>
          (case with_lock h (nsm_state self) (\<lambda>d. NodeDirectory_apply d cmd) of
             (Panicked p, h) \<Rightarrow> (Panicked p, h, self)
           | (Returned r, h) \<Rightarrow> node_apply_loop h self entries (responses @ [r]))
      | Membership mem \<Rightarrow>
          node_apply_loop h
            (self\<lparr>nsm_last_membership :=
                \<lparr>membership_log_id = Some (log_id entry), membership = mem\<rparr>\<rparr>)
            entries (responses @ [NodeResponse]))"

definition node_apply ::
  "NodeDirectory heap \<Rightarrow> ('lid, 'mem) NodeStateMachineStore \<Rightarrow> ('lid, NodeCommand, 'mem) Entry list
     \<Rightarrow> (StorageError, NodeResponse list) result outcome \<times> NodeDirectory heap
        \<times> ('lid, 'mem) NodeStateMachineStore" where
  "node_apply h self entries = node_apply_loop h self entries []"

definition node_get_snapshot_builder ::
  "('lid, 'mem) NodeStateMachineStore \<Rightarrow> ('lid, 'mem) NodeStateMachineStore" where
  "node_get_snapshot_builder self =
     \<lparr>nsm_state = nsm_state self, nsm_last_applied = nsm_last_applied self,
      nsm_last_membership = nsm_last_membership self, nsm_snapshot = None\<rparr>"

definition node_begin_receiving_snapshot :: "(StorageError, bytes) result" where
  "node_begin_receiving_snapshot = Inr []"

definition node_install_snapshot ::
  "(u64, string) fmap codec \<Rightarrow> NodeDirectory heap \<Rightarrow> ('lid, 'mem) NodeStateMachineStore
     \<Rightarrow> ('lid, 'mem) SnapshotMeta \<Rightarrow> bytes
     \<Rightarrow> (StorageError, unit) result outcome \<times> NodeDirectory heap \<times> ('lid, 'mem) NodeStateMachineStore" where
  "node_install_snapshot json h self m data =
     (case expect ''snapshot payload deserializes'' (from_slice json data) of
        Panicked p \<Rightarrow> (Panicked p, h, self)
      | Returned ns \<Rightarrow>
          (case with_lock h (nsm_state self) (\<lambda>d. (Returned (), d\<lparr>nodes := ns\<rparr>)) of
             (Panicked p, h) \<Rightarrow> (Panicked p, h, self)
           | (Returned u, h) \<Rightarrow>
               (Returned (Inr ()), h,
                self\<lparr>nsm_last_applied := last_log_id m, nsm_last_membership := meta_membership m,
                     nsm_snapshot := Some \<lparr>stored_meta = m, stored_data = data\<rparr>\<rparr>)))"

definition node_get_current_snapshot ::
  "('lid, 'mem) NodeStateMachineStore \<Rightarrow> (StorageError, ('lid, 'mem) Snapshot option) result" where
  "node_get_current_snapshot self =
     Inr (map_option (\<lambda>s. \<lparr>meta = stored_meta s, snapshot_data = stored_data s\<rparr>) (nsm_snapshot self))"

section \<open>The interface, discharged\<close>

definition nsm_record ::
  "('lid, NodeCommand, 'mem) Entry \<Rightarrow> ('lid, 'mem) NodeStateMachineStore
     \<Rightarrow> ('lid, 'mem) NodeStateMachineStore" where
  "nsm_record e self =
     self\<lparr>nsm_last_applied := Some (log_id e),
          nsm_last_membership := membership_after (nsm_last_membership self) [e]\<rparr>"

definition node_encode :: "(u64, string) fmap codec \<Rightarrow> NodeDirectory \<Rightarrow> (string, bytes) result" where
  "node_encode json d = to_vec json (nodes d)"

definition node_decode :: "(u64, string) fmap codec \<Rightarrow> bytes \<Rightarrow> (string, NodeDirectory) result" where
  "node_decode json data = map_sum id (\<lambda>ns. \<lparr>nodes = ns\<rparr>) (from_slice json data)"

lemma node_decode_encode:
  "\<lbrakk>codec_ok json; node_encode json d = Inr bs\<rbrakk> \<Longrightarrow> node_decode json bs = Inr d"
  by (simp add: node_encode_def node_decode_def codec_okD)

lemma node_loop_Cons:
  "node_apply_loop h self (e # es) acc =
     (case entry_locked NodeDirectory_apply NodeResponse h (nsm_state self) e of
        (Panicked p, h') \<Rightarrow> (Panicked p, h', nsm_record e self)
      | (Returned r, h') \<Rightarrow> node_apply_loop h' (nsm_record e self) es (acc @ [r]))"
  by (cases "entry_payload e")
     (auto simp: entry_locked_def nsm_record_def Let_def split: prod.split outcome.split)

interpretation node_sm: raft_state_machine
  NodeDirectory_apply NodeResponse node_apply_loop
  nsm_state nsm_last_applied nsm_last_membership nsm_snapshot nsm_record
  by unfold_locales (simp_all add: node_loop_Cons nsm_record_def del: node_apply_loop.simps(2))

interpretation node_snap: snapshot_state_machine
  NodeDirectory_apply NodeResponse node_apply_loop
  nsm_state nsm_last_applied nsm_last_membership nsm_snapshot nsm_record
  "node_encode json" "node_decode json" "node_build_snapshot json" "node_install_snapshot json"
  node_get_snapshot_builder
  for json
proof unfold_locales
  fix h :: "NodeDirectory heap" and self :: "('a, 'b) NodeStateMachineStore" and v d now
  assume "h (nsm_state self) = mutex_new v" "node_encode json v = Inr d"
  then show "\<exists>sn s'. node_build_snapshot json (Some now) h self = (Returned (Inr sn), h, s') \<and>
      snapshot_data sn = d \<and> last_log_id (meta sn) = nsm_last_applied self \<and>
      meta_membership (meta sn) = nsm_last_membership self \<and> nsm_state s' = nsm_state self \<and>
      nsm_last_applied s' = nsm_last_applied self \<and> nsm_last_membership s' = nsm_last_membership self \<and>
      nsm_snapshot s' = Some \<lparr>stored_meta = meta sn, stored_data = d\<rparr>"
    by (simp add: node_build_snapshot_def with_lock_def node_encode_def fun_upd_idem Let_def)
next
  fix h :: "NodeDirectory heap" and self :: "('a, 'b) NodeStateMachineStore" and w d v mt
  assume "h (nsm_state self) = mutex_new w" "node_decode json d = Inr v"
  then show "\<exists>s'. node_install_snapshot json h self mt d =
        (Returned (Inr ()), h(nsm_state self := mutex_new v), s') \<and>
      nsm_state s' = nsm_state self \<and> nsm_last_applied s' = last_log_id mt \<and>
      nsm_last_membership s' = meta_membership mt \<and>
      nsm_snapshot s' = Some \<lparr>stored_meta = mt, stored_data = d\<rparr>"
    by (cases "from_slice json d")
       (auto simp: node_install_snapshot_def with_lock_def node_decode_def)
qed (simp_all add: node_get_snapshot_builder_def)

section \<open>The directory's contents\<close>

text \<open>The last address a log registers for a node.\<close>

fun last_address :: "u64 \<Rightarrow> ('lid, NodeCommand, 'mem) Entry list \<Rightarrow> string option \<Rightarrow> string option" where
  "last_address n [] x = x"
| "last_address n (e # es) x =
     last_address n es
       (case entry_payload e of
          Normal (UpsertNode m address) \<Rightarrow> if m = n then Some address else x
        | _ \<Rightarrow> x)"

lemma node_entry:
  "\<exists>d'. entry_cmd NodeDirectory_apply NodeResponse d e = (Returned NodeResponse, d')
    \<and> (\<forall>n. fmlookup (nodes d') n = last_address n [e] (fmlookup (nodes d) n))"
proof (cases "entry_payload e")
  case (Normal c)
  then show ?thesis by (cases c) (auto simp: entry_cmd_def)
qed (auto simp: entry_cmd_def)

lemma node_replay:
  "\<exists>w. replay NodeDirectory_apply NodeResponse d es = (Returned (replicate (length es) NodeResponse), w)
    \<and> (\<forall>n. fmlookup (nodes w) n = last_address n es (fmlookup (nodes d) n))"
proof (induction es arbitrary: d)
  case (Cons e es)
  obtain d' where one: "entry_cmd NodeDirectory_apply NodeResponse d e = (Returned NodeResponse, d')"
    and look: "\<And>n. fmlookup (nodes d') n = last_address n [e] (fmlookup (nodes d) n)"
    using node_entry [of d e] by blast
  from Cons.IH [of d'] one look show ?case by auto
qed auto

section \<open>Properties\<close>

lemma node_apply_replay:
  "\<lbrakk>h (nsm_state s) = mutex_new v; replay NodeDirectory_apply NodeResponse v es = (Returned rs, w)\<rbrakk> \<Longrightarrow>
   node_apply h s es = (Returned (Inr rs), h(nsm_state s := mutex_new w), fold nsm_record es s)"
  using node_sm.loop_replay [of h s v es rs w "[]"] by (simp add: node_apply_def)

text \<open>
  C29: the directory holds the last address registered for each node. Applying any log to a
  machine with a sound lock always succeeds with one response per entry; afterwards a node's
  address is the one of its last registration in the log, and nodes the log does not mention
  keep theirs. The last applied id is the id of the last entry.
\<close>

theorem directory_holds_last_registration:
  fixes es :: "('lid, NodeCommand, 'mem) Entry list"
  assumes "h (nsm_state s) = mutex_new d"
  shows "\<exists>h' s' d'. node_apply h s es = (Returned (Inr (replicate (length es) NodeResponse)), h', s') \<and>
    h' (nsm_state s') = mutex_new d' \<and>
    (\<forall>n. fmlookup (nodes d') n = last_address n es (fmlookup (nodes d) n)) \<and>
    node_applied_state s' =
      Inr (applied_after (nsm_last_applied s) es, membership_after (nsm_last_membership s) es)"
proof -
  obtain d' where "replay NodeDirectory_apply NodeResponse d es =
      (Returned (replicate (length es) NodeResponse), d')"
    "\<forall>n. fmlookup (nodes d') n = last_address n es (fmlookup (nodes d) n)"
    using node_replay [of d es] by blast
  with node_apply_replay [of h s, OF assms] show ?thesis
    by (simp add: node_sm.fold_record node_applied_state_def)
qed

theorem directory_holds_last_registration_witness:
  "\<exists>h' s' d'. node_apply (\<lambda>_. mutex_new NodeDirectory_default) (NodeStateMachineStore_new (0::nat) 3)
      [\<lparr>log_id = \<lparr>leader_id = (1::nat), index = 1\<rparr>, entry_payload = Normal (UpsertNode 2 ''http://a'')\<rparr>,
       \<lparr>log_id = \<lparr>leader_id = 1, index = 2\<rparr>, entry_payload = Blank\<rparr>,
       \<lparr>log_id = \<lparr>leader_id = 1, index = 3\<rparr>, entry_payload = Normal (UpsertNode 2 ''http://b'')\<rparr>] =
      (Returned (Inr [NodeResponse, NodeResponse, NodeResponse]), h', s') \<and>
    h' (nsm_state s') = mutex_new d' \<and> fmlookup (nodes d') 2 = Some ''http://b''"
proof -
  let ?es = "[\<lparr>log_id = \<lparr>leader_id = (1::nat), index = 1\<rparr>, entry_payload = Normal (UpsertNode 2 ''http://a'')\<rparr>,
       \<lparr>log_id = \<lparr>leader_id = 1, index = 2\<rparr>, entry_payload = Blank\<rparr>,
       \<lparr>log_id = \<lparr>leader_id = 1, index = 3\<rparr>, entry_payload = Normal (UpsertNode 2 ''http://b'')\<rparr>]
       :: (nat, NodeCommand, nat) Entry list"
  from directory_holds_last_registration [of "\<lambda>_. mutex_new NodeDirectory_default"
      "NodeStateMachineStore_new 0 3" NodeDirectory_default ?es]
  obtain h' s' d' where w: "node_apply (\<lambda>_. mutex_new NodeDirectory_default) (NodeStateMachineStore_new 0 3) ?es =
      (Returned (Inr (replicate (length ?es) NodeResponse)), h', s')" "h' (nsm_state s') = mutex_new d'"
      "fmlookup (nodes d') 2 = last_address 2 ?es (fmlookup (nodes NodeDirectory_default) 2)" by blast
  moreover from w(3) have "fmlookup (nodes d') 2 = Some ''http://b''" by simp
  ultimately show ?thesis by auto
qed

text \<open>
  A snapshot of the directory, installed on another machine, gives that machine the same
  directory, last applied id and membership, and is what it then reports as its current
  snapshot.
\<close>

theorem directory_snapshot_round_trip:
  assumes "codec_ok json" and "h (nsm_state s) = mutex_new d" and "g (nsm_state t) = mutex_new c"
    and "to_vec json (nodes d) = Inr bs"
  shows "\<exists>sn s' t'.
    node_build_snapshot json (Some now) h s = (Returned (Inr sn), h, s') \<and>
    node_install_snapshot json g t (meta sn) (snapshot_data sn) =
      (Returned (Inr ()), g(nsm_state t := mutex_new d), t') \<and>
    node_applied_state t' = node_applied_state s \<and>
    node_get_current_snapshot t' = Inr (Some sn) \<and> node_get_current_snapshot s' = Inr (Some sn)"
proof -
  have enc: "node_encode json d = Inr bs" and dec: "node_decode json bs = Inr d"
    using assms(1,4) node_decode_encode by (simp_all add: node_encode_def)
  obtain sn s' where b: "node_build_snapshot json (Some now) h s = (Returned (Inr sn), h, s')"
      "snapshot_data sn = bs" "last_log_id (meta sn) = nsm_last_applied s"
      "meta_membership (meta sn) = nsm_last_membership s"
      "nsm_snapshot s' = Some \<lparr>stored_meta = meta sn, stored_data = bs\<rparr>"
    using node_snap.build_Returned [of h s d json bs now] assms(2) enc by blast
  obtain t' where i: "node_install_snapshot json g t (meta sn) bs =
      (Returned (Inr ()), g(nsm_state t := mutex_new d), t')"
      "nsm_last_applied t' = nsm_last_applied s" "nsm_last_membership t' = nsm_last_membership s"
      "nsm_snapshot t' = Some \<lparr>stored_meta = meta sn, stored_data = bs\<rparr>"
    using node_snap.install_Returned [of g t c json bs d "meta sn"] assms(3) dec b(3,4) by auto
  from b i show ?thesis
    by (auto simp: node_applied_state_def node_get_current_snapshot_def)
qed

theorem directory_snapshot_round_trip_witness:
  "\<exists>sn s' t'.
    node_build_snapshot unary_codec (Some 16) (\<lambda>_. mutex_new \<lparr>nodes = fmupd 1 ''http://a'' fmempty\<rparr>)
      (NodeStateMachineStore_new (0::nat) 0 :: (nat, nat) NodeStateMachineStore) =
      (Returned (Inr sn), (\<lambda>_. mutex_new \<lparr>nodes = fmupd 1 ''http://a'' fmempty\<rparr>), s') \<and>
    node_install_snapshot unary_codec (\<lambda>_. mutex_new NodeDirectory_default)
      (NodeStateMachineStore_new 0 5) (meta sn) (snapshot_data sn) =
      (Returned (Inr ()), (\<lambda>_. mutex_new NodeDirectory_default)
         (5 := mutex_new \<lparr>nodes = fmupd 1 ''http://a'' fmempty\<rparr>), t')"
  using directory_snapshot_round_trip [OF unary_codec_ok, of
      "\<lambda>_. mutex_new \<lparr>nodes = fmupd 1 ''http://a'' fmempty\<rparr>"
      "NodeStateMachineStore_new (0::nat) 0 :: (nat, nat) NodeStateMachineStore"
      "\<lparr>nodes = fmupd 1 ''http://a'' fmempty\<rparr>" "\<lambda>_. mutex_new NodeDirectory_default"
      "NodeStateMachineStore_new 0 5" NodeDirectory_default, OF refl refl unary_to_vec, of 16]
  by (auto simp: NodeStateMachineStore_new_def)

end
