(* ===== verification/Host_Main.thy ===== *)
theory Host_Main
  imports Rust_Str Raft_Api Node_Sm
begin

text \<open>
  \<open>main.rs\<close> of the host: reading the peer list, choosing who bootstraps, the bounded
  bootstrap loop and the unbounded registration loop. Calls into openraft are arguments that
  pass the cluster's state along.
\<close>

section \<open>The peer list\<close>

definition parse_peer :: "string \<Rightarrow> (u64 \<times> string) outcome" where
  "parse_peer part =
     (case split_once CHR ''='' part of
        None \<Rightarrow> Panicked (ExplicitPanic (''invalid MQ_PEERS entry: '' @ part))
      | Some (ident, address) \<Rightarrow>
          bind_outcome (expect ''peer id must be a u64'' (parse_u64 (trim ident)))
            (\<lambda>n. Returned (n, trim address)))"

fun collect_peers :: "string list \<Rightarrow> (u64, string) fmap \<Rightarrow> (u64, string) fmap outcome" where
  "collect_peers [] m = Returned m"
| "collect_peers (part # parts) m =
     bind_outcome (parse_peer part) (\<lambda>(k, v). collect_peers parts (fmupd k v m))"

definition parse_peers :: "string \<Rightarrow> (u64, string) fmap outcome" where
  "parse_peers s =
     collect_peers (filter (\<lambda>part. trim part \<noteq> []) (split_on CHR '','' s)) fmempty"

text \<open>The format the parser documents, for the round trip.\<close>

fun show_peer :: "u64 \<times> string \<Rightarrow> string" where
  "show_peer (n, address) = show_u64 n @ CHR ''='' # address"

fun show_peers :: "(u64 \<times> string) list \<Rightarrow> string" where
  "show_peers [] = []"
| "show_peers [p] = show_peer p"
| "show_peers (p # q # ps) = show_peer p @ CHR '','' # show_peers (q # ps)"

section \<open>Starting up\<close>

text \<open>
  The smallest key of the ordered map is the node that bootstraps both groups; an empty peer
  list panics.
\<close>

definition lowest_id :: "(u64, string) fmap \<Rightarrow> u64 outcome" where
  "lowest_id peers =
     (case sorted_list_of_fset (fmdom peers) of
        [] \<Rightarrow> Panicked (ExpectFailed ''MQ_PEERS must not be empty'')
      | k # ks \<Rightarrow> Returned k)"

definition bootstraps :: "u64 \<Rightarrow> (u64, string) fmap \<Rightarrow> bool outcome" where
  "bootstraps node_num peers =
     bind_outcome (lowest_id peers) (\<lambda>lowest. Returned (node_num = lowest))"

text \<open>
  The bootstrap task: at most 20 calls of \<open>initialize\<close>, half a second apart, stopping at the
  first success. Returns whether it succeeded, the milliseconds slept and the cluster.
\<close>

fun bootstrap_loop ::
  "('w \<Rightarrow> (string, unit) result \<times> 'w) \<Rightarrow> nat list \<Rightarrow> nat \<Rightarrow> 'w \<Rightarrow> bool \<times> nat \<times> 'w" where
  "bootstrap_loop initialize [] slept w = (False, slept, w)"
| "bootstrap_loop initialize (attempt # attempts) slept w =
     (case initialize w of
        (Inr u, w) \<Rightarrow> (True, slept, w)
      | (Inl err, w) \<Rightarrow> bootstrap_loop initialize attempts (slept + 500) w)"

definition bootstrap ::
  "((u64, string) fmap \<Rightarrow> 'w \<Rightarrow> (string, unit) result \<times> 'w) \<Rightarrow> (u64, string) fmap \<Rightarrow> 'w
     \<Rightarrow> bool \<times> nat \<times> 'w" where
  "bootstrap initialize peers w = bootstrap_loop (initialize peers) [1..<21] 0 w"

text \<open>
  Self-registration: propose the node's own address until a proposal is accepted, half a
  second apart. The loop has no bound of its own; \<open>fuel\<close> counts its attempts and
  \<open>None\<close> is a loop that has not ended after that many.
\<close>

definition self_address :: "u64 \<Rightarrow> (u64, string) fmap \<Rightarrow> string \<Rightarrow> string" where
  "self_address node_num peers grpc_addr =
     (case fmlookup peers node_num of Some address \<Rightarrow> address | None \<Rightarrow> grpc_addr)"

fun register_loop ::
  "(NodeCommand \<Rightarrow> 'w \<Rightarrow> (write_error, NodeResponse) result \<times> 'w) \<Rightarrow> NodeCommand \<Rightarrow> nat \<Rightarrow> 'w \<Rightarrow> (nat \<times> 'w) option" where
  "register_loop client_write upsert 0 w = None"
| "register_loop client_write upsert (Suc fuel) w =
     (case client_write upsert w of
        (Inr r, w) \<Rightarrow> Some (0, w)
      | (Inl e, w) \<Rightarrow> map_option (map_prod Suc id) (register_loop client_write upsert fuel w))"

definition register_self ::
  "(NodeCommand \<Rightarrow> 'w \<Rightarrow> (write_error, NodeResponse) result \<times> 'w) \<Rightarrow> u64 \<Rightarrow> (u64, string) fmap
     \<Rightarrow> string \<Rightarrow> nat \<Rightarrow> 'w \<Rightarrow> (nat \<times> 'w) option" where
  "register_self client_write node_num peers grpc_addr fuel w =
     register_loop client_write (UpsertNode node_num (self_address node_num peers grpc_addr)) fuel w"

section \<open>Lemmas on the peer format\<close>

lemma white_space_no_digit:
  assumes "w \<in> set white_space" and "x \<in> set w" shows "to_digit x = None"
proof -
  have "\<forall>w\<in>set white_space. \<forall>x\<in>set w. to_digit x = None"
    unfolding white_space_def by code_simp
  with assms show ?thesis by blast
qed

lemma leading_zeroI: "(\<And>w. \<lbrakk>w \<in> set ws; w \<noteq> []\<rbrakk> \<Longrightarrow> hd w \<noteq> c) \<Longrightarrow> leading ws (c # s) = 0"
proof -
  assume *: "\<And>w. \<lbrakk>w \<in> set ws; w \<noteq> []\<rbrakk> \<Longrightarrow> hd w \<noteq> c"
  have "find (\<lambda>w. w \<noteq> [] \<and> prefix w (c # s)) ws = None"
    using * by (fastforce simp: find_None_iff prefix_Cons)
  then show ?thesis by (simp add: leading_def)
qed

lemma leading_digit:
  "to_digit c \<noteq> None \<Longrightarrow> leading white_space (c # s) = 0"
  "to_digit c \<noteq> None \<Longrightarrow> leading (map rev white_space) (c # s) = 0"
  by (rule leading_zeroI, metis hd_in_set white_space_no_digit)
     (rule leading_zeroI, metis (no_types, lifting) hd_in_set image_iff list.set_map set_rev white_space_no_digit)

lemma trimmed_show: "trimmed (show_u64 n)"
proof -
  obtain c cs where s: "show_u64 n = c # cs" by (metis neq_Nil_conv show_nat_nonempty)
  obtain d ds where r: "rev (show_u64 n) = d # ds" by (metis neq_Nil_conv rev_is_Nil_conv show_nat_nonempty)
  have "d \<in> set (show_u64 n)" using r by (metis list.set_intros(1) set_rev)
  with s r show ?thesis
    using show_nat_digits [of c "unat n"] show_nat_digits [of d "unat n"]
    by (simp add: trimmed_def leading_digit)
qed

lemma strip_keeps_last:
  "\<lbrakk>s \<noteq> []; \<And>w. w \<in> set ws \<Longrightarrow> last s \<notin> set w\<rbrakk> \<Longrightarrow> strip ws s \<noteq> []"
proof (induction ws s rule: strip.induct)
  case (1 ws s)
  show ?case
  proof (cases "leading ws s = 0")
    case False
    then obtain w where w: "w \<in> set ws" "prefix w s" "leading ws s = length w"
      using leading_prefix by blast
    have "length w \<noteq> length s"
      using w "1.prems" by (metis last_in_set not_equal_is_parallel parallelE prefix_order.refl)
    then have "length w < length s" using w(2) prefix_length_le le_neq_implies_less by blast
    then have "strip ws (drop (leading ws s) s) \<noteq> []"
      using False w(3) "1.prems" by (intro "1.IH") (auto simp: last_drop)
    with False show ?thesis by (subst strip.simps) simp
  qed (use 1 in \<open>simp add: strip_idle\<close>)
qed

lemma trim_show_peer: "trim (show_peer (n, a)) \<noteq> []"
proof -
  obtain c cs where s: "show_u64 n = c # cs" by (metis neq_Nil_conv show_nat_nonempty)
  then have d: "to_digit c \<noteq> None" using show_nat_digits [of c "unat n"] by simp
  let ?t = "show_peer (n, a)"
  have "strip white_space ?t = ?t" using s d by (simp add: strip_idle leading_digit)
  moreover have "strip (map rev white_space) (rev ?t) \<noteq> []"
  proof (rule strip_keeps_last)
    fix w assume "w \<in> set (map rev white_space)"
    then show "last (rev ?t) \<notin> set w"
      using s d white_space_no_digit by (auto simp: last_rev)
  qed (simp add: s)
  ultimately show ?thesis by (simp add: trim_def)
qed

lemma parse_show_peer: "trimmed a \<Longrightarrow> parse_peer (show_peer (n, a)) = Returned (n, a)"
proof -
  assume a: "trimmed a"
  have "CHR ''='' \<notin> set (show_u64 n)"
    using show_nat_digits [of "CHR ''=''" "unat n"] by (auto simp: to_digit_def)
  then show ?thesis
    using a by (simp add: parse_peer_def split_once_found trim_trimmed trimmed_show parse_show_u64)
qed

lemma show_peer_no_comma:
  "CHR '','' \<notin> set a \<Longrightarrow> CHR '','' \<notin> set (show_peer (n, a))"
  using show_nat_digits [of "CHR '',''" "unat n"] by (auto simp: to_digit_def)

lemma split_show_peers:
  "\<lbrakk>ps \<noteq> []; \<And>p. p \<in> set ps \<Longrightarrow> CHR '','' \<notin> set (snd p)\<rbrakk> \<Longrightarrow>
   split_on CHR '','' (show_peers ps) = map show_peer ps"
proof (induction ps rule: show_peers.induct)
  case (2 p)
  from "2.prems"(2) [of p] show ?case
    by (cases p) (simp add: split_on_none show_peer_no_comma del: show_peer.simps)
next
  case (3 p q ps)
  from 3 "3.prems"(2) [of p] show ?case
    by (cases p) (simp add: split_on_append show_peer_no_comma del: show_peer.simps)
qed simp

lemma collect_show_peers:
  "(\<And>p. p \<in> set ps \<Longrightarrow> trimmed (snd p)) \<Longrightarrow>
   collect_peers (map show_peer ps) m = Returned (fold (\<lambda>(k, v). fmupd k v) ps m)"
proof (induction ps arbitrary: m)
  case (Cons p ps)
  from Cons.IH Cons.prems Cons.prems [of p] show ?case
    by (cases p) (simp add: parse_show_peer del: show_peer.simps)
qed simp

lemma parse_show_peers:
  assumes "\<And>n a. (n, a) \<in> set ps \<Longrightarrow> CHR '','' \<notin> set a \<and> trimmed a"
  shows "parse_peers (show_peers ps) = Returned (fold (\<lambda>(k, v). fmupd k v) ps fmempty)"
proof (cases "ps = []")
  case True
  then show ?thesis by (simp add: parse_peers_def)
next
  case False
  have "filter (\<lambda>part. trim part \<noteq> []) (map show_peer ps) = map show_peer ps"
    by (auto simp: filter_id_conv trim_show_peer simp del: show_peer.simps)
  moreover have "split_on CHR '','' (show_peers ps) = map show_peer ps"
    using False assms by (intro split_show_peers) auto
  ultimately show ?thesis
    using assms collect_show_peers [of ps fmempty] by (auto simp: parse_peers_def)
qed

lemma bootstraps_verdict:
  "(peers = fmempty \<longrightarrow> bootstraps n peers = Panicked (ExpectFailed ''MQ_PEERS must not be empty'')) \<and>
   (peers \<noteq> fmempty \<longrightarrow>
     bootstraps n peers = Returned (n \<in> fset (fmdom peers) \<and> (\<forall>m \<in> fset (fmdom peers). n \<le> m)))"
proof (cases "sorted_list_of_fset (fmdom peers)")
  case Nil
  then have "fmdom peers = {||}"
    using sorted_list_of_fset_simps(2) [of "fmdom peers"] by simp
  then have "peers = fmempty" by (metis fmdom_empty fmrestrict_fset_dom fmrestrict_fset_null)
  with Nil show ?thesis by (simp add: bootstraps_def lowest_id_def)
next
  case (Cons k ks)
  have s: "set (k # ks) = fset (fmdom peers)"
    using sorted_list_of_fset_simps(1) [of "fmdom peers"] Cons
    by (simp add: fset_of_list.rep_eq flip: fset_inject)
  have "sorted (k # ks)" by (metis Cons sorted_list_of_fset.rep_eq sorted_sorted_list_of_set)
  with s have "(n = k) = (n \<in> fset (fmdom peers) \<and> (\<forall>m \<in> fset (fmdom peers). n \<le> m))"
    by (auto simp flip: s)
  moreover have "peers \<noteq> fmempty" using s by auto
  ultimately show ?thesis using Cons by (simp add: bootstraps_def lowest_id_def)
qed

section \<open>Properties\<close>

text \<open>
  C30: the peer list parser reads back what the documented format writes. For any list of
  ids with addresses that hold no comma and no white space at either end, parsing
  \<open>id=addr,id=addr,...\<close> gives the map of the list, the last entry winning for an id that
  occurs twice.
\<close>

theorem parse_peers_round_trip:
  assumes "\<And>n a. (n, a) \<in> set ps \<Longrightarrow> CHR '','' \<notin> set a \<and> trimmed a"
  shows "parse_peers (show_peers ps) = Returned (fold (\<lambda>(k, v). fmupd k v) ps fmempty)"
  using assms by (rule parse_show_peers)

theorem parse_peers_round_trip_witness:
  "parse_peers ''1=http://a:5001,2=http://b:5002'' =
     Returned (fmupd 2 ''http://b:5002'' (fmupd 1 ''http://a:5001'' fmempty))"
proof -
  have "trimmed ''http://a:5001''" "trimmed ''http://b:5002''"
    unfolding trimmed_def leading_def white_space_def by code_simp+
  then have "parse_peers (show_peers [(1, ''http://a:5001''), (2, ''http://b:5002'')]) =
      Returned (fold (\<lambda>(k, v). fmupd k v) [(1, ''http://a:5001''), (2, ''http://b:5002'')] fmempty)"
    by (intro parse_peers_round_trip) auto
  moreover have "show_nat 1 = ''1''" "show_nat 2 = ''2''" by code_simp+
  ultimately show ?thesis by simp
qed

fun attempts_until :: "('w \<Rightarrow> ('e, 'r) result \<times> 'w) \<Rightarrow> nat \<Rightarrow> 'w \<Rightarrow> bool" where
  "attempts_until f 0 w = (\<exists>u. fst (f w) = Inr u)"
| "attempts_until f (Suc k) w = ((\<exists>e. fst (f w) = Inl e) \<and> attempts_until f k (snd (f w)))"

lemma bootstrap_loop_attempts:
  "bootstrap_loop f as slept w = (done, slept', w') \<Longrightarrow>
   \<exists>k\<le>length as. slept' = slept + 500 * k \<and> (done \<longrightarrow> k < length as \<and> attempts_until f k w) \<and>
     (\<not> done \<longrightarrow> k = length as)"
proof (induction as arbitrary: slept w)
  case (Cons a as)
  show ?case
  proof (cases "fst (f w)")
    case (Inr u)
    with Cons.prems show ?thesis by (intro exI [of _ 0]) (auto split: prod.splits)
  next
    case (Inl e)
    with Cons.prems have "bootstrap_loop f as (slept + 500) (snd (f w)) = (done, slept', w')"
      by (auto split: prod.splits)
    from Cons.IH [OF this] obtain k where "k \<le> length as" "slept' = slept + 500 + 500 * k"
      "done \<longrightarrow> k < length as \<and> attempts_until f k (snd (f w))" "\<not> done \<longrightarrow> k = length as" by blast
    with Inl show ?thesis by (intro exI [of _ "Suc k"]) auto
  qed
qed simp

text \<open>
  C36: the bootstrap task calls \<open>initialize\<close> at most 20 times and sleeps at most ten seconds;
  if it reports success, the last call succeeded and every earlier one failed.
\<close>

theorem bootstrap_is_bounded:
  "case bootstrap initialize peers w of
     (success, slept, w') \<Rightarrow>
       slept \<le> 10000 \<and>
       (if success then \<exists>k<20. slept = 500 * k \<and> attempts_until (initialize peers) k w else slept = 10000)"
proof -
  obtain success slept w' where b: "bootstrap initialize peers w = (success, slept, w')"
    by (metis prod_cases3)
  from bootstrap_loop_attempts [OF this [unfolded bootstrap_def]]
  obtain k where "k \<le> 20" "slept = 500 * k" "success \<longrightarrow> k < 20 \<and> attempts_until (initialize peers) k w"
    "\<not> success \<longrightarrow> k = 20"
    by auto
  with b show ?thesis by auto
qed

text \<open>
  C31: exactly one node of a peer list bootstraps: with at least one peer the check gives a
  verdict for every node, and it is true for the smallest id only. With no peers every node
  panics.
\<close>

theorem one_node_bootstraps:
  "(peers = fmempty \<longrightarrow> bootstraps n peers = Panicked (ExpectFailed ''MQ_PEERS must not be empty'')) \<and>
   (peers \<noteq> fmempty \<longrightarrow>
     bootstraps n peers = Returned (n \<in> fset (fmdom peers) \<and> (\<forall>m \<in> fset (fmdom peers). n \<le> m)))"
  by (rule bootstraps_verdict)

theorem one_node_bootstraps_witness:
  "bootstraps 2 (fmupd 2 ''b'' (fmupd 3 ''c'' fmempty)) = Returned True"
proof -
  have "fmlookup (fmupd 2 ''b'' (fmupd 3 ''c'' fmempty)) (2 :: u64) \<noteq> fmlookup fmempty 2" by simp
  then have "fmupd (2 :: u64) ''b'' (fmupd 3 ''c'' fmempty) \<noteq> fmempty" by metis
  with one_node_bootstraps [of "fmupd 2 ''b'' (fmupd 3 ''c'' fmempty)" 2] show ?thesis
    by (simp add: word_le_nat_alt)
qed

lemma register_loop_attempts:
  "(\<exists>w'. register_loop client_write upsert fuel w = Some (k, w')) =
     (k < fuel \<and> attempts_until (client_write upsert) k w)"
proof (induction fuel arbitrary: k w)
  case (Suc fuel)
  obtain r w' where one: "client_write upsert w = (r, w')" by fastforce
  show ?case
  proof (cases r)
    case (Inr x)
    with one show ?thesis by (cases k) auto
  next
    case (Inl e)
    with one Suc.IH [where w = w'] show ?thesis by (cases k) auto
  qed
qed simp

text \<open>
  Self-registration ends at the first write that the group accepts. It has ended within
  a number of attempts exactly when one of them was accepted, and it stops there.
\<close>

theorem registration_ends_at_first_acceptance:
  "(\<exists>w'. register_self client_write n peers a fuel w = Some (k, w')) =
     (k < fuel \<and> attempts_until (client_write (UpsertNode n (self_address n peers a))) k w)"
  unfolding register_self_def by (rule register_loop_attempts)

text \<open>
  C37: a node that does not lead the directory group never registers. While a write is
  answered with \<open>ForwardToLeader\<close>, which is what openraft answers on every other node, the
  loop goes on: after any number of attempts it has not ended, because the write is never
  forwarded.
\<close>

theorem followers_never_register:
  assumes "\<And>cmd w. \<not> leads w \<Longrightarrow>
      \<exists>hint w'. client_write cmd w = (Inl (ForwardToLeader hint), w') \<and> \<not> leads w'"
    and "\<not> leads w"
  shows "register_self client_write n peers a fuel w = None"
proof -
  have "register_loop client_write cmd fuel w = None" for cmd
    using assms(2)
  proof (induction fuel arbitrary: w)
    case (Suc fuel)
    from assms(1) [OF Suc.prems, of cmd] obtain hint w' where
      "client_write cmd w = (Inl (ForwardToLeader hint), w')" "\<not> leads w'" by blast
    with Suc.IH show ?case by simp
  qed simp
  then show ?thesis by (simp add: register_self_def)
qed

theorem followers_never_register_witness:
  "\<forall>fuel. register_self (\<lambda>cmd refused. (Inl (ForwardToLeader (Some 1)), Suc refused)) 2
     (fmupd 2 ''http://b:5002'' fmempty) ''0.0.0.0:5001'' fuel 0 = None"
  by (intro allI followers_never_register [where leads = "\<lambda>_. False"]) auto

end
