(* ===== verification/Grpc_Types.thy ===== *)
theory Grpc_Types
  imports Rust_Str Raft_Types
begin

text \<open>
  The messages of \<open>mq.proto\<close> and the gRPC status a handler answers with. prost represents a
  proto3 enum field by its number, so the group tag of an envelope is an \<open>i32\<close> that need
  not name a group.
\<close>

section \<open>Status\<close>

datatype Code = InvalidArgument | Internal | Unavailable | OtherCode nat

record Status =
  code :: Code
  message :: string

definition status_internal :: "string \<Rightarrow> Status" where
  "status_internal msg = \<lparr>code = Internal, message = msg\<rparr>"

definition status_unavailable :: "string \<Rightarrow> Status" where
  "status_unavailable msg = \<lparr>code = Unavailable, message = msg\<rparr>"

definition status_invalid_argument :: "string \<Rightarrow> Status" where
  "status_invalid_argument msg = \<lparr>code = InvalidArgument, message = msg\<rparr>"

section \<open>Messages of the queue service\<close>

record PublishRequest =
  pub_queue :: string
  pub_payload :: bytes

record PublishResponse =
  pub_offset :: u64

datatype Kind = Subscribe string | Ack u64

record ConsumeRequest =
  kind :: "Kind option"

record ConsumeResponse =
  con_offset :: u64
  con_payload :: bytes

record StatusUpdate =
  upd_node_id :: string
  upd_queue_depths :: "(string, u64) fmap"
  upd_nodes_group_leader :: u64
  upd_queue_group_leader :: u64

section \<open>Messages of the Raft service\<close>

datatype RaftGroup = Nodes | Spam

fun group_as_i32 :: "RaftGroup \<Rightarrow> i32" where
  "group_as_i32 Nodes = 0"
| "group_as_i32 Spam = 1"

definition group_try_from :: "i32 \<Rightarrow> (string, RaftGroup) result" where
  "group_try_from n =
     (if n = 0 then Inr Nodes else if n = 1 then Inr Spam else Inl ''unknown enumeration value'')"

record RaftEnvelope =
  env_payload :: bytes
  env_group :: i32

lemma group_round_trip [simp]: "group_try_from (group_as_i32 g) = Inr g"
  by (cases g) (simp_all add: group_try_from_def)

end
