(* ===== verification/Raft_Rpc.thy ===== *)
theory Raft_Rpc
  imports Grpc_Types
begin

text \<open>
  The transport between the nodes' openraft instances: \<open>network.rs\<close> on the calling side,
  \<open>grpc_raft.rs\<close> on the serving side. A node serves two Raft groups behind one gRPC
  service, and the envelope's group tag chooses between them. The openraft instances, the
  serde codecs, tonic's channels and its transmission are arguments.
\<close>

section \<open>openraft and serde as arguments\<close>

text \<open>
  The three calls of an \<open>openraft::Raft\<close>: a request and the instance's state give a result
  (an error is known by its \<open>Debug\<close> text) and a new state.
\<close>

record ('ae, 'vq, 'is, 'aer, 'vr, 'isr, 'w) raft =
  raft_append_entries :: "'ae \<Rightarrow> 'w \<Rightarrow> (string, 'aer) result \<times> 'w"
  raft_vote :: "'vq \<Rightarrow> 'w \<Rightarrow> (string, 'vr) result \<times> 'w"
  raft_install_snapshot :: "'is \<Rightarrow> 'w \<Rightarrow> (string, 'isr) result \<times> 'w"

record ('ae, 'vq, 'is, 'aer, 'vr, 'isr) rpc_codecs =
  ae_req :: "'ae codec"
  ae_resp :: "'aer codec"
  vote_req :: "'vq codec"
  vote_resp :: "'vr codec"
  is_req :: "'is codec"
  is_resp :: "'isr codec"

text \<open>Everything that is sent can be written, and reads back as it was.\<close>

definition wire_codec :: "'a codec \<Rightarrow> bool" where
  "wire_codec c \<longleftrightarrow> codec_ok c \<and> (\<forall>x. \<exists>bs. to_vec c x = Inr bs)"

definition wire_codecs :: "('ae, 'vq, 'is, 'aer, 'vr, 'isr) rpc_codecs \<Rightarrow> bool" where
  "wire_codecs cs \<longleftrightarrow> wire_codec (ae_req cs) \<and> wire_codec (ae_resp cs) \<and> wire_codec (vote_req cs) \<and>
     wire_codec (vote_resp cs) \<and> wire_codec (is_req cs) \<and> wire_codec (is_resp cs)"

section \<open>Serving\<close>

record ('nr, 'qr) RaftRpcImpl =
  node_raft :: 'nr
  queue_raft :: 'qr

definition to_status :: "string \<Rightarrow> Status" where
  "to_status err = status_internal err"

definition group_of :: "RaftEnvelope \<Rightarrow> RaftGroup" where
  "group_of envelope = (case group_try_from (env_group envelope) of Inr g \<Rightarrow> g | Inl e \<Rightarrow> Spam)"

text \<open>
  One arm of a handler's match: decode the request, hand it to the group's openraft, encode
  its response. The two arms of each handler differ in the instance and in the types serde
  decodes to.
\<close>

definition serve_arm ::
  "'req codec \<Rightarrow> 'resp codec \<Rightarrow> ('req \<Rightarrow> 'w \<Rightarrow> (string, 'resp) result \<times> 'w) \<Rightarrow> bytes \<Rightarrow> 'w
     \<Rightarrow> (Status, bytes) result \<times> 'w" where
  "serve_arm req_codec resp_codec call payload w =
     (case from_slice req_codec payload of
        Inl e \<Rightarrow> (Inl (to_status e), w)
      | Inr req \<Rightarrow>
          (case call req w of
             (Inl e, w) \<Rightarrow> (Inl (to_status e), w)
           | (Inr resp, w) \<Rightarrow>
               (case to_vec resp_codec resp of
                  Inl e \<Rightarrow> (Inl (to_status e), w)
                | Inr bs \<Rightarrow> (Inr bs, w))))"

definition reply :: "RaftEnvelope \<Rightarrow> (Status, bytes) result \<Rightarrow> (Status, RaftEnvelope) result" where
  "reply envelope r =
     map_sum id (\<lambda>bs. \<lparr>env_payload = bs, env_group = env_group envelope\<rparr>) r"

text \<open>
  The three handlers. The state is that of the two instances, the directory group's first.
\<close>

definition rpc_append_entries where
  "rpc_append_entries ncs qcs impl envelope w =
     (case group_of envelope of
        Nodes \<Rightarrow>
          (case serve_arm (ae_req ncs) (ae_resp ncs) (raft_append_entries (node_raft impl))
                  (env_payload envelope) (fst w) of
             (r, wn) \<Rightarrow> (reply envelope r, (wn, snd w)))
      | Spam \<Rightarrow>
          (case serve_arm (ae_req qcs) (ae_resp qcs) (raft_append_entries (queue_raft impl))
                  (env_payload envelope) (snd w) of
             (r, wq) \<Rightarrow> (reply envelope r, (fst w, wq))))"

definition rpc_vote where
  "rpc_vote ncs qcs impl envelope w =
     (case group_of envelope of
        Nodes \<Rightarrow>
          (case serve_arm (vote_req ncs) (vote_resp ncs) (raft_vote (node_raft impl))
                  (env_payload envelope) (fst w) of
             (r, wn) \<Rightarrow> (reply envelope r, (wn, snd w)))
      | Spam \<Rightarrow>
          (case serve_arm (vote_req qcs) (vote_resp qcs) (raft_vote (queue_raft impl))
                  (env_payload envelope) (snd w) of
             (r, wq) \<Rightarrow> (reply envelope r, (fst w, wq))))"

definition rpc_install_snapshot where
  "rpc_install_snapshot ncs qcs impl envelope w =
     (case group_of envelope of
        Nodes \<Rightarrow>
          (case serve_arm (is_req ncs) (is_resp ncs) (raft_install_snapshot (node_raft impl))
                  (env_payload envelope) (fst w) of
             (r, wn) \<Rightarrow> (reply envelope r, (wn, snd w)))
      | Spam \<Rightarrow>
          (case serve_arm (is_req qcs) (is_resp qcs) (raft_install_snapshot (queue_raft impl))
                  (env_payload envelope) (snd w) of
             (r, wq) \<Rightarrow> (reply envelope r, (fst w, wq))))"

section \<open>Calling\<close>

record Network =
  net_peers :: "(u64, string) fmap"
  net_group :: RaftGroup

definition Network_new :: "(u64, string) fmap \<Rightarrow> RaftGroup \<Rightarrow> Network" where
  "Network_new peers grp = \<lparr>net_peers = peers, net_group = grp\<rparr>"

record 'ch NetworkConnection =
  conn_client :: 'ch
  conn_group :: RaftGroup

text \<open>
  \<open>new_client\<close>: an id that is not in the peer list and an address that is no URI both
  panic; connecting is lazy and cannot fail here.
\<close>

definition new_client ::
  "(string \<Rightarrow> (string, 'ch) result) \<Rightarrow> Network \<Rightarrow> u64 \<Rightarrow> 'ch NetworkConnection outcome" where
  "new_client from_shared self target =
     (case fmlookup (net_peers self) target of
        None \<Rightarrow> Panicked (ExplicitPanic (''unknown raft peer id '' @ show_u64 target))
      | Some address \<Rightarrow>
          bind_outcome (expect ''valid grpc address'' (from_shared address))
            (\<lambda>channel. Returned \<lparr>conn_client = channel, conn_group = net_group self\<rparr>))"

text \<open>\<open>RPCError::Network\<close> around the status that the call ended with.\<close>

datatype RPCError = RPCError_Network Status

definition to_rpc_err :: "Status \<Rightarrow> RPCError" where
  "to_rpc_err err = RPCError_Network err"

text \<open>
  The three calls; \<open>send\<close> is the generated client's method on the connection's channel.
\<close>

definition net_append_entries where
  "net_append_entries cs send self rpc w =
     (case expect ''serializable'' (to_vec (ae_req cs) rpc) of
        Panicked p \<Rightarrow> (Panicked p, w)
      | Returned payload \<Rightarrow>
          (case send (conn_client self) \<lparr>env_payload = payload, env_group = group_as_i32 (conn_group self)\<rparr> w of
             (Inl status, w) \<Rightarrow> (Returned (Inl (to_rpc_err status)), w)
           | (Inr resp, w) \<Rightarrow>
               (bind_outcome (expect ''deserializable'' (from_slice (ae_resp cs) (env_payload resp)))
                  (\<lambda>x. Returned (Inr x)), w)))"

definition net_vote where
  "net_vote cs send self rpc w =
     (case expect ''serializable'' (to_vec (vote_req cs) rpc) of
        Panicked p \<Rightarrow> (Panicked p, w)
      | Returned payload \<Rightarrow>
          (case send (conn_client self) \<lparr>env_payload = payload, env_group = group_as_i32 (conn_group self)\<rparr> w of
             (Inl status, w) \<Rightarrow> (Returned (Inl (to_rpc_err status)), w)
           | (Inr resp, w) \<Rightarrow>
               (bind_outcome (expect ''deserializable'' (from_slice (vote_resp cs) (env_payload resp)))
                  (\<lambda>x. Returned (Inr x)), w)))"

definition net_install_snapshot where
  "net_install_snapshot cs send self rpc w =
     (case expect ''serializable'' (to_vec (is_req cs) rpc) of
        Panicked p \<Rightarrow> (Panicked p, w)
      | Returned payload \<Rightarrow>
          (case send (conn_client self) \<lparr>env_payload = payload, env_group = group_as_i32 (conn_group self)\<rparr> w of
             (Inl status, w) \<Rightarrow> (Returned (Inl (RPCError_Network status)), w)
           | (Inr resp, w) \<Rightarrow>
               (bind_outcome (expect ''deserializable'' (from_slice (is_resp cs) (env_payload resp)))
                  (\<lambda>x. Returned (Inr x)), w)))"

section \<open>One call across the wire\<close>

lemma wire_codecD:
  assumes "wire_codec c" obtains bs where "to_vec c x = Inr bs" "from_slice c bs = Inr x"
  using assms by (meson codec_okD wire_codec_def)

lemma group_of_tag [simp]: "group_of \<lparr>env_payload = bs, env_group = group_as_i32 g\<rparr> = g"
  by (simp add: group_of_def)

text \<open>What the caller gets of a remote result.\<close>

definition delivered :: "(string, 'r) result \<Rightarrow> (RPCError, 'r) result outcome" where
  "delivered r = Returned (map_sum (\<lambda>e. RPCError_Network (to_status e)) id r)"

text \<open>
  The caller's decoding undoes the server's encoding, whichever way the remote call went.
\<close>

lemma serve_arm_decoded:
  assumes "wire_codec a" "to_vec a rpc = Inr payload" "wire_codec b" "call rpc w = (r, w')"
  obtains e where "r = Inl e" "serve_arm a b call payload w = (Inl (to_status e), w')"
  | x bs where "r = Inr x" "serve_arm a b call payload w = (Inr bs, w')" "from_slice b bs = Inr x"
proof (cases r)
  case (Inl e)
  with assms show thesis by (intro that(1)) (auto simp: serve_arm_def wire_codec_def codec_okD)
next
  case (Inr x)
  obtain bs where "to_vec b x = Inr bs" "from_slice b bs = Inr x" using wire_codecD [OF assms(3)] .
  with Inr assms show thesis by (intro that(2)) (auto simp: serve_arm_def wire_codec_def codec_okD)
qed

lemmas net_defs = net_append_entries_def net_vote_def net_install_snapshot_def
  rpc_append_entries_def rpc_vote_def rpc_install_snapshot_def to_rpc_err_def reply_def delivered_def

section \<open>A concrete pair of nodes for the witnesses\<close>

text \<open>Instances that count what reaches them and refuse a request below their count.\<close>

definition counting_call :: "nat \<Rightarrow> nat \<Rightarrow> (string, nat) result \<times> nat" where
  "counting_call n w = (if w \<le> n then (Inr w, Suc n) else (Inl ''stale'', w))"

definition counting_raft :: "(nat, nat, nat, nat, nat, nat, nat) raft" where
  "counting_raft =
     \<lparr>raft_append_entries = counting_call, raft_vote = counting_call, raft_install_snapshot = counting_call\<rparr>"

definition counting_codecs :: "(nat, nat, nat, nat, nat, nat) rpc_codecs" where
  "counting_codecs = \<lparr>ae_req = unary_codec, ae_resp = unary_codec, vote_req = unary_codec,
     vote_resp = unary_codec, is_req = unary_codec, is_resp = unary_codec\<rparr>"

abbreviation counting_impl where
  "counting_impl \<equiv> \<lparr>node_raft = counting_raft, queue_raft = counting_raft\<rparr>"

lemma counting_codecs_ok: "wire_codecs counting_codecs"
  by (simp add: wire_codecs_def counting_codecs_def wire_codec_def unary_codec_ok unary_to_vec)

text \<open>A codec that refuses some inputs: a request is one byte.\<close>

definition one_byte_codec :: "u8 codec" where
  "one_byte_codec = \<lparr>to_vec = (\<lambda>n. Inr [n]),
     from_slice = (\<lambda>bs. case bs of [n] \<Rightarrow> Inr n | _ \<Rightarrow> Inl ''bad length'')\<rparr>"

definition one_byte_codecs :: "(u8, u8, u8, u8, u8, u8) rpc_codecs" where
  "one_byte_codecs = \<lparr>ae_req = one_byte_codec, ae_resp = one_byte_codec, vote_req = one_byte_codec,
     vote_resp = one_byte_codec, is_req = one_byte_codec, is_resp = one_byte_codec\<rparr>"

definition impl_of_counters ::
  "((u8, u8, u8, u8, u8, u8, nat) raft, (u8, u8, u8, u8, u8, u8, nat) raft) RaftRpcImpl" where
  "impl_of_counters =
     (let count = (\<lambda>x w. (Inr x, Suc w));
          r = \<lparr>raft_append_entries = count, raft_vote = count, raft_install_snapshot = count\<rparr>
      in \<lparr>node_raft = r, queue_raft = r\<rparr>)"

lemmas counting_simps = counting_raft_def counting_call_def delivered_def to_status_def

section \<open>Properties\<close>

text \<open>
  A call on a connection of the directory group is a call on the remote node's directory
  instance. If serde writes every request and response so that it reads back, then each of
  the three calls returns what that instance answers, an error of it wrapped as a network
  error, without a panic; the instance takes the same step as for a local call and the
  remote queue instance is not touched.
\<close>

theorem directory_rpcs_are_transparent:
  fixes impl :: "(('ae, 'vq, 'is, 'aer, 'vr, 'isr, 'wn) raft, ('be, 'bq, 'js, 'ber, 'br, 'jsr, 'wq) raft) RaftRpcImpl"
  assumes "wire_codecs ncs" and "conn_group conn = Nodes"
    and "send_ae (conn_client conn) = rpc_append_entries ncs qcs impl"
    and "send_vote (conn_client conn) = rpc_vote ncs qcs impl"
    and "send_is (conn_client conn) = rpc_install_snapshot ncs qcs impl"
  shows "net_append_entries ncs send_ae conn ae (wn, wq) =
      map_prod delivered (\<lambda>wn'. (wn', wq)) (raft_append_entries (node_raft impl) ae wn)
    \<and> net_vote ncs send_vote conn vq (wn, wq) =
      map_prod delivered (\<lambda>wn'. (wn', wq)) (raft_vote (node_raft impl) vq wn)
    \<and> net_install_snapshot ncs send_is conn sn (wn, wq) =
      map_prod delivered (\<lambda>wn'. (wn', wq)) (raft_install_snapshot (node_raft impl) sn wn)"
proof -
  from assms(1) have c: "wire_codec (ae_req ncs)" "wire_codec (ae_resp ncs)" "wire_codec (vote_req ncs)"
    "wire_codec (vote_resp ncs)" "wire_codec (is_req ncs)" "wire_codec (is_resp ncs)"
    by (simp_all add: wire_codecs_def)
  obtain p1 p2 p3 where p: "to_vec (ae_req ncs) ae = Inr p1" "to_vec (vote_req ncs) vq = Inr p2"
    "to_vec (is_req ncs) sn = Inr p3"
    using wire_codecD c by metis
  obtain r1 w1 r2 w2 r3 w3 where r: "raft_append_entries (node_raft impl) ae wn = (r1, w1)"
    "raft_vote (node_raft impl) vq wn = (r2, w2)" "raft_install_snapshot (node_raft impl) sn wn = (r3, w3)"
    by fastforce
  note tag = group_of_tag [of _ Nodes, simplified]
  have "net_append_entries ncs send_ae conn ae (wn, wq) = (delivered r1, (w1, wq))"
    by (rule serve_arm_decoded [where call = "raft_append_entries (node_raft impl)" and w = wn, OF c(1) p(1) c(2) r(1)]) (simp_all add: net_defs assms p tag)
  moreover have "net_vote ncs send_vote conn vq (wn, wq) = (delivered r2, (w2, wq))"
    by (rule serve_arm_decoded [where call = "raft_vote (node_raft impl)" and w = wn, OF c(3) p(2) c(4) r(2)]) (simp_all add: net_defs assms p tag)
  moreover have "net_install_snapshot ncs send_is conn sn (wn, wq) = (delivered r3, (w3, wq))"
    by (rule serve_arm_decoded [where call = "raft_install_snapshot (node_raft impl)" and w = wn, OF c(5) p(3) c(6) r(3)]) (simp_all add: net_defs assms p tag)
  ultimately show ?thesis using r by simp
qed

theorem directory_rpcs_are_transparent_witness:
  "net_vote counting_codecs (\<lambda>ch. rpc_vote counting_codecs counting_codecs counting_impl)
     \<lparr>conn_client = (), conn_group = Nodes\<rparr> 7 (3, 100) = (Returned (Inr 3), (8, 100))"
  using directory_rpcs_are_transparent [OF counting_codecs_ok, of "\<lparr>conn_client = (), conn_group = Nodes\<rparr>"
      "\<lambda>ch. rpc_append_entries counting_codecs counting_codecs counting_impl"
      counting_codecs counting_impl
      "\<lambda>ch. rpc_vote counting_codecs counting_codecs counting_impl"
      "\<lambda>ch. rpc_install_snapshot counting_codecs counting_codecs counting_impl" 0 3 100 7]
  by (simp add: counting_simps)

text \<open>
  C28: a call on a connection of the queue group is a call on the remote node's queue
  instance. If serde writes every request and response so that it reads back, then each of
  the three calls returns what that instance answers, an error of it wrapped as a network
  error, without a panic; the instance takes the same step as for a local call and the
  remote directory instance is not touched.
\<close>

theorem queue_rpcs_are_transparent:
  fixes impl :: "(('ae, 'vq, 'is, 'aer, 'vr, 'isr, 'wn) raft, ('be, 'bq, 'js, 'ber, 'br, 'jsr, 'wq) raft) RaftRpcImpl"
  assumes "wire_codecs qcs" and "conn_group conn = Spam"
    and "send_ae (conn_client conn) = rpc_append_entries ncs qcs impl"
    and "send_vote (conn_client conn) = rpc_vote ncs qcs impl"
    and "send_is (conn_client conn) = rpc_install_snapshot ncs qcs impl"
  shows "net_append_entries qcs send_ae conn ae (wn, wq) =
      map_prod delivered (\<lambda>wq'. (wn, wq')) (raft_append_entries (queue_raft impl) ae wq)
    \<and> net_vote qcs send_vote conn vq (wn, wq) =
      map_prod delivered (\<lambda>wq'. (wn, wq')) (raft_vote (queue_raft impl) vq wq)
    \<and> net_install_snapshot qcs send_is conn sn (wn, wq) =
      map_prod delivered (\<lambda>wq'. (wn, wq')) (raft_install_snapshot (queue_raft impl) sn wq)"
proof -
  from assms(1) have c: "wire_codec (ae_req qcs)" "wire_codec (ae_resp qcs)" "wire_codec (vote_req qcs)"
    "wire_codec (vote_resp qcs)" "wire_codec (is_req qcs)" "wire_codec (is_resp qcs)"
    by (simp_all add: wire_codecs_def)
  obtain p1 p2 p3 where p: "to_vec (ae_req qcs) ae = Inr p1" "to_vec (vote_req qcs) vq = Inr p2"
    "to_vec (is_req qcs) sn = Inr p3"
    using wire_codecD c by metis
  obtain r1 w1 r2 w2 r3 w3 where r: "raft_append_entries (queue_raft impl) ae wq = (r1, w1)"
    "raft_vote (queue_raft impl) vq wq = (r2, w2)" "raft_install_snapshot (queue_raft impl) sn wq = (r3, w3)"
    by fastforce
  note tag = group_of_tag [of _ Spam, simplified]
  have "net_append_entries qcs send_ae conn ae (wn, wq) = (delivered r1, (wn, w1))"
    by (rule serve_arm_decoded [where call = "raft_append_entries (queue_raft impl)" and w = wq, OF c(1) p(1) c(2) r(1)]) (simp_all add: net_defs assms p tag)
  moreover have "net_vote qcs send_vote conn vq (wn, wq) = (delivered r2, (wn, w2))"
    by (rule serve_arm_decoded [where call = "raft_vote (queue_raft impl)" and w = wq, OF c(3) p(2) c(4) r(2)]) (simp_all add: net_defs assms p tag)
  moreover have "net_install_snapshot qcs send_is conn sn (wn, wq) = (delivered r3, (wn, w3))"
    by (rule serve_arm_decoded [where call = "raft_install_snapshot (queue_raft impl)" and w = wq, OF c(5) p(3) c(6) r(3)]) (simp_all add: net_defs assms p tag)
  ultimately show ?thesis using r by simp
qed

theorem queue_rpcs_are_transparent_witness:
  "net_vote counting_codecs (\<lambda>ch. rpc_vote counting_codecs counting_codecs counting_impl)
     \<lparr>conn_client = (), conn_group = Spam\<rparr> 7 (100, 3) = (Returned (Inr 3), (100, 8))"
  using queue_rpcs_are_transparent [OF counting_codecs_ok, of "\<lparr>conn_client = (), conn_group = Spam\<rparr>"
      "\<lambda>ch. rpc_append_entries counting_codecs counting_codecs counting_impl"
      counting_codecs counting_impl
      "\<lambda>ch. rpc_vote counting_codecs counting_codecs counting_impl"
      "\<lambda>ch. rpc_install_snapshot counting_codecs counting_codecs counting_impl" 0 100 3 7]
  by (simp add: counting_simps)

text \<open>
  An envelope is dispatched by its tag alone: tag 0 reaches the directory instance, and
  every other tag, those that name no group included, reaches the queue instance. The
  response carries the tag of the request.
\<close>

theorem dispatch_by_tag:
  "rpc_vote ncs qcs impl \<lparr>env_payload = bs, env_group = tag\<rparr> (wn, wq) =
     (if tag = 0 then
        map_prod (map_sum id (\<lambda>out. \<lparr>env_payload = out, env_group = tag\<rparr>)) (\<lambda>w. (w, wq))
          (serve_arm (vote_req ncs) (vote_resp ncs) (raft_vote (node_raft impl)) bs wn)
      else
        map_prod (map_sum id (\<lambda>out. \<lparr>env_payload = out, env_group = tag\<rparr>)) (\<lambda>w. (wn, w))
          (serve_arm (vote_req qcs) (vote_resp qcs) (raft_vote (queue_raft impl)) bs wq))"
  by (simp add: rpc_vote_def group_of_def group_try_from_def reply_def split: prod.split)

text \<open>
  A payload that is no request is answered with an internal status and reaches neither
  instance, in each of the three handlers.
\<close>

theorem malformed_payloads_are_refused:
  assumes "from_slice (ae_req ncs) bs = Inl e1" "from_slice (ae_req qcs) bs = Inl e2"
    and "from_slice (vote_req ncs) bs = Inl e3" "from_slice (vote_req qcs) bs = Inl e4"
    and "from_slice (is_req ncs) bs = Inl e5" "from_slice (is_req qcs) bs = Inl e6"
  shows "rpc_append_entries ncs qcs impl \<lparr>env_payload = bs, env_group = tag\<rparr> w =
      (Inl (status_internal (if tag = 0 then e1 else e2)), w)
    \<and> rpc_vote ncs qcs impl \<lparr>env_payload = bs, env_group = tag\<rparr> w =
      (Inl (status_internal (if tag = 0 then e3 else e4)), w)
    \<and> rpc_install_snapshot ncs qcs impl \<lparr>env_payload = bs, env_group = tag\<rparr> w =
      (Inl (status_internal (if tag = 0 then e5 else e6)), w)"
  using assms by (simp add: net_defs group_of_def group_try_from_def serve_arm_def to_status_def)

theorem malformed_payloads_are_refused_witness:
  "rpc_vote one_byte_codecs one_byte_codecs impl_of_counters \<lparr>env_payload = [], env_group = 1\<rparr> (3, 4) =
     (Inl (status_internal ''bad length''), (3, 4))"
  using malformed_payloads_are_refused [of one_byte_codecs "[]" "''bad length''" one_byte_codecs
      "''bad length''" "''bad length''" "''bad length''" "''bad length''" "''bad length''"
      impl_of_counters 1 "(3, 4)"]
  by (simp add: one_byte_codecs_def one_byte_codec_def)

end
