(* ===== verification/Queue_Client.thy ===== *)
theory Queue_Client
  imports Raft_Api
begin

text \<open>
  What a client of the queue group may rely on: the contract of \<open>client_write\<close> with the
  queue commands, and what the answers to a publish and a pop then say about the committed
  commands. Interpreted on the group of the previous theory.
\<close>

section \<open>Answers, split at a point of the run\<close>

lemma published_to_append: "published_to q (cs @ ds) = published_to q cs @ published_to q ds"
  by (induction q cs rule: published_to.induct) auto

lemma acked_for_append:
  "length cs = length xs \<Longrightarrow> acked_for q (cs @ ds) (xs @ ys) = acked_for q cs xs @ acked_for q ds ys"
proof (induction cs xs rule: list_induct2)
  case (Cons c cs x xs)
  then show ?case by (cases c) (auto split: option.split)
qed simp

lemma popped_from_append:
  "length cs = length xs \<Longrightarrow> popped_from q (cs @ ds) (xs @ ys) = popped_from q cs xs @ popped_from q ds ys"
proof (induction cs xs rule: list_induct2)
  case (Cons c cs x xs)
  then show ?case by (cases c) (auto split: option.split)
qed simp

lemma popped_from_count: "length (popped_from q cs xs) \<le> count_list cs (Pop q)"
  by (induction q cs xs rule: popped_from.induct) (auto split: option.split)

lemma length_with_offsets [simp]: "length (with_offsets ps) = length ps"
  by (simp add: with_offsets_def)

lemma with_offsets_nth [simp]: "i < length ps \<Longrightarrow> with_offsets ps ! i = (of_nat i, ps ! i)"
  by (simp add: with_offsets_def)

lemma distinct_with_offsets: "length ps \<le> 2 ^ 64 \<Longrightarrow> distinct (map fst (with_offsets ps))"
  by (auto simp: distinct_conv_nth of_nat_u64_inj)

lemma published_to_length: "length (published_to q cs) \<le> length cs"
  by (induction q cs rule: published_to.induct) auto

section \<open>The contract on queue commands\<close>

locale queue_client =
  raft_client "QueueState_apply checks" QueueState_default ok client_write commands
  for checks :: bool
    and ok :: "'w \<Rightarrow> bool"
    and client_write :: "QueueRequest \<Rightarrow> 'w \<Rightarrow> (write_error, QueueResponse) result \<times> 'w"
    and commands :: "'w \<Rightarrow> QueueRequest list"
begin

text \<open>The messages that committed pops have taken from a queue.\<close>

definition taken_from :: "string \<Rightarrow> 'w \<Rightarrow> (u64 \<times> bytes) list" where
  "taken_from q w = popped_from q (commands w) (answers_of w)"

lemma accepted_run:
  assumes "ok w" "client_write req w = (Inr resp, w')" "length (commands w) < 2 ^ 64 - 1"
  obtains s where
    "run_cmds (QueueState_apply checks) QueueState_default (commands w @ [req]) =
       (Returned (answers_of w @ [resp]), s)"
    "length (answers_of w) = length (commands w)" "length (commands w @ [req]) < 2 ^ 64"
proof -
  from accepted [OF assms(1,2)] obtain resps st where
    r: "run_cmds (QueueState_apply checks) QueueState_default (commands w @ [req]) =
      (Returned (resps @ [resp]), st)" by blast
  then have "answers_of w = resps"
    by (auto simp: answers_of_def run_cmds_append split: prod.splits outcome.splits)
  with r run_cmds_length [OF r] assms(3) show thesis by (intro that [of st]) simp_all
qed

text \<open>A publish is answered with the number of messages published to the queue before it.\<close>

lemma publish_answer:
  assumes "ok w" "client_write (Publish q p) w = (Inr resp, w')" "length (commands w) < 2 ^ 64 - 1"
  shows "published_offset resp = Some (of_nat (length (published_to q (commands w))))"
proof -
  from accepted_run [OF assms] obtain s where
    r: "run_cmds (QueueState_apply checks) QueueState_default (commands w @ [Publish q p]) =
      (Returned (answers_of w @ [resp]), s)"
    and l: "length (answers_of w) = length (commands w)" "length (commands w @ [Publish q p]) < 2 ^ 64" .
  have "run_cmds (QueueState_apply checks) QueueState_default (commands w) = (Returned (answers_of w), u)
      \<Longrightarrow> acked_for q (commands w) (answers_of w) = map of_nat [0..<length (published_to q (commands w))]" for u
    using run_delivers(2) l(2) by simp
  then have "acked_for q (commands w) (answers_of w) = map of_nat [0..<length (published_to q (commands w))]"
    using r l(1) by (auto simp: run_cmds_append split: prod.splits outcome.splits)
  then show ?thesis
    using run_delivers(2) [OF r l(2), of q] l(1)
    by (auto simp: acked_for_append published_to_append split: option.splits)
qed

text \<open>What committed pops take is a prefix of what was published, in order, with its offsets.\<close>

lemma pop_answer:
  assumes "ok w" "client_write (Pop q) w = (Inr resp, w')" "length (commands w) < 2 ^ 64 - 1"
  shows "taken_from q w' = taken_from q w @ (case popped resp of None \<Rightarrow> [] | Some m \<Rightarrow> [m])"
    and "\<exists>rest. taken_from q w' @ rest = with_offsets (published_to q (commands w))"
proof -
  from accepted_run [OF assms] obtain s where
    r: "run_cmds (QueueState_apply checks) QueueState_default (commands w @ [Pop q]) =
      (Returned (answers_of w @ [resp]), s)"
    and l: "length (answers_of w) = length (commands w)" "length (commands w @ [Pop q]) < 2 ^ 64" .
  note w' = accepted_answer [OF assms(1,2)]
  show "taken_from q w' = taken_from q w @ (case popped resp of None \<Rightarrow> [] | Some m \<Rightarrow> [m])"
    using w' by (auto simp: taken_from_def popped_from_append split: option.split)
  show "\<exists>rest. taken_from q w' @ rest = with_offsets (published_to q (commands w))"
    using run_delivers(1) [OF r l(2), of q] w'
    by (auto simp: taken_from_def published_to_append)
qed

text \<open>Below the counters' bound every committed command has an answer.\<close>

lemma all_answered:
  assumes "length (commands w) < 2 ^ 64"
  shows "\<exists>s. run_cmds (QueueState_apply checks) QueueState_default (commands w) = (Returned (answers_of w), s)"
proof -
  obtain xs \<sigma> where "run_cmds (QueueState_apply checks) QueueState_default (commands w) = (Returned xs, conc \<sigma>)"
    using run_from_default [OF assms] by metis
  then show ?thesis by (simp add: answers_of_def)
qed

lemma taken_in_run:
  "\<lbrakk>run_cmds (QueueState_apply checks) QueueState_default (commands w) = (Returned xs, s);
    m \<in> set (popped_from q (commands w) xs)\<rbrakk> \<Longrightarrow> m \<in> set (taken_from q w)"
  by (simp add: taken_from_def answers_of_def)

lemma taken_grows:
  assumes "commands w' = commands w @ added" "length (commands w') < 2 ^ 64"
  shows "\<exists>more. taken_from q w' = taken_from q w @ more \<and> length more \<le> count_list added (Pop q)"
proof -
  obtain s s' where
    r: "run_cmds (QueueState_apply checks) QueueState_default (commands w) = (Returned (answers_of w), s)"
    and r': "run_cmds (QueueState_apply checks) QueueState_default (commands w') = (Returned (answers_of w'), s')"
    using all_answered [of w] all_answered [of w'] assms by auto
  have "\<exists>ys. answers_of w @ ys = answers_of w'"
    using r' [unfolded assms(1) run_cmds_append r] by (auto split: prod.splits outcome.splits)
  then obtain ys where "answers_of w' = answers_of w @ ys" by metis
  then show ?thesis
    using assms(1) run_cmds_length [OF r] popped_from_count [of q added ys]
    by (simp add: taken_from_def popped_from_append)
qed

lemma taken_extends:
  "\<lbrakk>commands w' = commands w @ added; length (commands w') < 2 ^ 64\<rbrakk> \<Longrightarrow>
   \<exists>more. taken_from q w' = taken_from q w @ more"
  using taken_grows by blast

text \<open>What a pop has taken is not in the replicated queue.\<close>

lemma taken_not_queued:
  assumes "m \<in> set (taken_from q w)" "length (commands w) < 2 ^ 64"
  shows "\<exists>xs s. run_cmds (QueueState_apply checks) QueueState_default (commands w) = (Returned xs, s)
    \<and> m \<notin> set (get_or (queues s) q [])"
proof -
  obtain s where r: "run_cmds (QueueState_apply checks) QueueState_default (commands w) = (Returned (answers_of w), s)"
    using all_answered [OF assms(2)] by blast
  have "length (published_to q (commands w)) \<le> 2 ^ 64"
    using published_to_length [of q "commands w"] assms(2) by simp
  from distinct_with_offsets [OF this] have "distinct (with_offsets (published_to q (commands w)))"
    by (simp add: distinct_map)
  then have "distinct (taken_from q w @ get_or (queues s) q [])"
    using run_delivers(1) [OF r assms(2), of q] by (simp add: taken_from_def)
  with assms(1) r show ?thesis by auto
qed

lemma taken_published:
  assumes "length (commands w) < 2 ^ 64"
  shows "\<exists>rest. taken_from q w @ rest = with_offsets (published_to q (commands w))"
  using all_answered [OF assms] run_delivers(1) assms by (metis taken_from_def)

end

interpretation qgroup: queue_client checks "group_ok checks" "group_write checks" group_commands
  for checks
  by unfold_locales

interpretation qleader: queue_client checks "leads_group checks" "group_write checks" group_commands
  for checks
  by unfold_locales

end
