(* ===== verification/Mq_Service.thy ===== *)
theory Mq_Service
  imports Grpc_Types Queue_Client
begin

text \<open>
  \<open>MqServiceImpl\<close> of \<open>grpc.rs\<close>: publishing with forwarding to the leader, the channel
  cache, opening a consume stream, one iteration of a pop worker and the status stream. The
  Raft handle, tonic's channels and remote calls are the arguments \<open>mq_api\<close>; a handler
  takes and returns the heap of channel caches together with the state those calls act on.
\<close>

section \<open>Arguments and state\<close>

type_synonym 'ch channel_heap = "(u64, 'ch) fmap heap"

text \<open>
  A remote call acts on the whole cluster: on the channel caches, which every node keeps at
  its own address, and on the rest of the state.
  \<open>send_one n r\<close> creates an mpsc channel of capacity \<open>n\<close>, sends \<open>r\<close> and turns the
  receiver into the stream to be sent; \<open>next_within ms\<close> waits for a stream's next item,
  \<open>Inl ()\<close> when the time has elapsed.
\<close>

record ('ch, 's, 'w) mq_api =
  client_write :: "QueueRequest \<Rightarrow> 'w \<Rightarrow> (write_error, QueueResponse) result \<times> 'w"
  from_shared :: "string \<Rightarrow> (string, 'ch) result"
  call_publish :: "'ch \<Rightarrow> PublishRequest \<Rightarrow> 'ch channel_heap \<times> 'w
    \<Rightarrow> (Status, PublishResponse) result \<times> 'ch channel_heap \<times> 'w"
  send_one :: "nat \<Rightarrow> ConsumeRequest \<Rightarrow> (unit, ConsumeRequest list) result"
  call_consume :: "'ch \<Rightarrow> ConsumeRequest list \<Rightarrow> 'ch channel_heap \<times> 'w
    \<Rightarrow> (Status, 's) result \<times> 'ch channel_heap \<times> 'w"
  next_within :: "nat \<Rightarrow> 's \<Rightarrow> 'ch channel_heap \<times> 'w
    \<Rightarrow> (unit, (Status, ConsumeResponse) result option) result \<times> 'ch channel_heap \<times> 'w"

record MqServiceImpl =
  svc_node_id :: string
  svc_state :: addr
  svc_peers :: "(u64, string) fmap"
  forward_channels :: addr

section \<open>Publishing\<close>

definition channel_for ::
  "('ch, 's, 'w) mq_api \<Rightarrow> MqServiceImpl \<Rightarrow> u64 \<Rightarrow> string \<Rightarrow> 'ch channel_heap
     \<Rightarrow> (Status, 'ch) result outcome \<times> 'ch channel_heap" where
  "channel_for api self ident address h =
     with_lock h (forward_channels self)
       (\<lambda>channels.
          case fmlookup channels ident of
            Some ch \<Rightarrow> (Returned (Inr ch), channels)
          | None \<Rightarrow>
              (case from_shared api address of
                 Inl e \<Rightarrow> (Returned (Inl (status_internal e)), channels)
               | Inr ch \<Rightarrow> (Returned (Inr ch), fmupd ident ch channels)))"

definition forward ::
  "('ch, 's, 'w) mq_api \<Rightarrow> MqServiceImpl \<Rightarrow> u64 \<Rightarrow> string \<Rightarrow> QueueRequest \<Rightarrow> 'ch channel_heap \<times> 'w
     \<Rightarrow> (Status, QueueResponse) result outcome \<times> 'ch channel_heap \<times> 'w" where
  "forward api self leader address req hw =
     (case channel_for api self leader address (fst hw) of
        (Panicked p, h) \<Rightarrow> (Panicked p, h, snd hw)
      | (Returned (Inl status), h) \<Rightarrow> (Returned (Inl status), h, snd hw)
      | (Returned (Inr channel), h) \<Rightarrow>
          (case req of
             Publish queue payload \<Rightarrow>
               (case call_publish api channel \<lparr>pub_queue = queue, pub_payload = payload\<rparr> (h, snd hw) of
                  (Inl status, hw) \<Rightarrow> (Returned (Inl status), hw)
                | (Inr resp, hw) \<Rightarrow>
                    (Returned (Inr \<lparr>published_offset = Some (pub_offset resp), popped = None\<rparr>), hw))
           | Pop queue \<Rightarrow> (Returned (Inl (status_unavailable ''retry against leader'')), h, snd hw)))"

definition propose ::
  "('ch, 's, 'w) mq_api \<Rightarrow> MqServiceImpl \<Rightarrow> QueueRequest \<Rightarrow> 'ch channel_heap \<times> 'w
     \<Rightarrow> (Status, QueueResponse) result outcome \<times> 'ch channel_heap \<times> 'w" where
  "propose api self req hw =
     (case client_write api req (snd hw) of
        (Inr resp, w) \<Rightarrow> (Returned (Inr resp), fst hw, w)
      | (Inl (ForwardToLeader None), w) \<Rightarrow>
          (Returned (Inl (status_unavailable ''no raft leader elected yet'')), fst hw, w)
      | (Inl (ForwardToLeader (Some leader)), w) \<Rightarrow>
          (case fmlookup (svc_peers self) leader of
             None \<Rightarrow> (Returned (Inl (status_internal ''unknown leader address'')), fst hw, w)
           | Some address \<Rightarrow> forward api self leader address req (fst hw, w))
      | (Inl (WriteFailed err), w) \<Rightarrow>
          (Returned (Inl (status_internal (''raft write failed: '' @ err))), fst hw, w))"

definition publish ::
  "('ch, 's, 'w) mq_api \<Rightarrow> MqServiceImpl \<Rightarrow> PublishRequest \<Rightarrow> 'ch channel_heap \<times> 'w
     \<Rightarrow> (Status, PublishResponse) result outcome \<times> 'ch channel_heap \<times> 'w" where
  "publish api self req hw =
     (case propose api self (Publish (pub_queue req) (pub_payload req)) hw of
        (Panicked p, hw) \<Rightarrow> (Panicked p, hw)
      | (Returned (Inl status), hw) \<Rightarrow> (Returned (Inl status), hw)
      | (Returned (Inr resp), hw) \<Rightarrow>
          (Returned (Inr \<lparr>pub_offset = unwrap_or_default (published_offset resp)\<rparr>), hw))"

section \<open>Consuming\<close>

text \<open>The first message of the inbound stream must subscribe to a queue.\<close>

definition consume_open :: "(Status, ConsumeRequest) result list \<Rightarrow> (Status, string) result" where
  "consume_open inbound =
     (case inbound of
        [] \<Rightarrow> Inl (status_invalid_argument ''expected Subscribe as first message'')
      | Inl status # rest \<Rightarrow> Inl status
      | Inr first # rest \<Rightarrow>
          (case kind first of
             Some (Subscribe queue_name) \<Rightarrow> Inr queue_name
           | _ \<Rightarrow> Inl (status_invalid_argument ''first message must be Subscribe'')))"

definition pop_via_forward ::
  "('ch, 's, 'w) mq_api \<Rightarrow> addr \<Rightarrow> u64 \<Rightarrow> string \<Rightarrow> string \<Rightarrow> 'ch channel_heap \<times> 'w
     \<Rightarrow> (Status, (u64 \<times> bytes) option) result outcome \<times> 'ch channel_heap \<times> 'w" where
  "pop_via_forward api channels leader address queue hw =
     (case with_lock (fst hw) channels
             (\<lambda>cs. case fmlookup cs leader of
                     Some ch \<Rightarrow> (Returned (Inr ch), cs)
                   | None \<Rightarrow>
                       (case from_shared api address of
                          Inl e \<Rightarrow> (Returned (Inl (status_internal e)), cs)
                        | Inr ch \<Rightarrow> (Returned (Inr ch), fmupd leader ch cs))) of
        (Panicked p, h) \<Rightarrow> (Panicked p, h, snd hw)
      | (Returned (Inl status), h) \<Rightarrow> (Returned (Inl status), h, snd hw)
      | (Returned (Inr channel), h) \<Rightarrow>
          (case send_one api 4 \<lparr>kind = Some (Subscribe queue)\<rparr> of
             Inl e \<Rightarrow> (Returned (Inl (status_internal ''forward channel closed'')), h, snd hw)
           | Inr outbound \<Rightarrow>
               (case call_consume api channel outbound (h, snd hw) of
                  (Inl status, hw) \<Rightarrow> (Returned (Inl status), hw)
                | (Inr inbound, hw) \<Rightarrow>
                    (case next_within api 300 inbound hw of
                       (Inr (Some (Inr resp)), hw) \<Rightarrow>
                         (Returned (Inr (Some (con_offset resp, con_payload resp))), hw)
                     | (_, hw) \<Rightarrow> (Returned (Inr None), hw)))))"

text \<open>
  A worker of a consume stream is about to propose a pop, or holds a popped message for the
  outbound channel, or sleeps for some milliseconds, or has returned.
\<close>

datatype worker = Proposing | Sending "u64 \<times> bytes" | Sleeping nat | Stopped

definition after_pop :: "(u64 \<times> bytes) option \<Rightarrow> worker" where
  "after_pop p = (case p of Some m \<Rightarrow> Sending m | None \<Rightarrow> Sleeping 150)"

text \<open>
  The first half of a worker's loop, up to having a message or a reason to wait; a panic
  ends the worker's task.
\<close>

definition worker_pop ::
  "('ch, 's, 'w) mq_api \<Rightarrow> MqServiceImpl \<Rightarrow> string \<Rightarrow> 'ch channel_heap \<times> 'w
     \<Rightarrow> worker outcome \<times> 'ch channel_heap \<times> 'w" where
  "worker_pop api self queue_name hw =
     (case client_write api (Pop queue_name) (snd hw) of
        (Inr resp, w) \<Rightarrow> (Returned (after_pop (popped resp)), fst hw, w)
      | (Inl (ForwardToLeader leader), w) \<Rightarrow>
          (case Option.bind leader (\<lambda>n. map_option (\<lambda>address. (n, address)) (fmlookup (svc_peers self) n)) of
             Some (n, address) \<Rightarrow>
               (case pop_via_forward api (forward_channels self) n address queue_name (fst hw, w) of
                  (Panicked p, hw) \<Rightarrow> (Panicked p, hw)
                | (Returned (Inr p), hw) \<Rightarrow> (Returned (after_pop p), hw)
                | (Returned (Inl status), hw) \<Rightarrow> (Returned (Sleeping 200), hw))
           | None \<Rightarrow> (Returned (Sleeping 200), fst hw, w))
      | (Inl (WriteFailed err), w) \<Rightarrow> (Returned (Sleeping 200), fst hw, w))"

text \<open>One tick of the status stream; an unknown leader is reported as 0.\<close>

definition watch_status_tick ::
  "MqServiceImpl \<Rightarrow> QueueState heap \<Rightarrow> u64 option \<Rightarrow> u64 option \<Rightarrow> StatusUpdate outcome" where
  "watch_status_tick self states node_leader queue_leader =
     bind_outcome (fst (with_lock states (svc_state self) (\<lambda>s. (Returned (depths s), s))))
       (\<lambda>queue_depths. Returned
          \<lparr>upd_node_id = svc_node_id self, upd_queue_depths = queue_depths,
           upd_nodes_group_leader = unwrap_or_default node_leader,
           upd_queue_group_leader = unwrap_or_default queue_leader\<rparr>)"

section \<open>The channel cache\<close>

lemma channel_for_cached:
  "\<lbrakk>h (forward_channels self) = mutex_new cs; fmlookup cs n = Some ch\<rbrakk> \<Longrightarrow>
   channel_for api self n address h = (Returned (Inr ch), h)"
  by (simp add: channel_for_def with_lock_def fun_upd_idem)

lemma channel_for_new:
  "\<lbrakk>h (forward_channels self) = mutex_new cs; fmlookup cs n = None; from_shared api address = Inr ch\<rbrakk> \<Longrightarrow>
   channel_for api self n address h =
     (Returned (Inr ch), h(forward_channels self := mutex_new (fmupd n ch cs)))"
  by (simp add: channel_for_def with_lock_def)

lemma channel_for_refused:
  "\<lbrakk>h (forward_channels self) = mutex_new cs; fmlookup cs n = None; from_shared api address = Inl e\<rbrakk> \<Longrightarrow>
   channel_for api self n address h = (Returned (Inl (status_internal e)), h)"
  by (simp add: channel_for_def with_lock_def fun_upd_idem)

text \<open>Cached or new, the channel is in the cache afterwards.\<close>

lemma channel_for_gives:
  assumes "h (forward_channels self) = mutex_new cs"
    and "(case fmlookup cs n of Some c \<Rightarrow> Inr c | None \<Rightarrow> from_shared api address) = Inr ch"
  shows "channel_for api self n address h =
    (Returned (Inr ch), h(forward_channels self := mutex_new (fmupd n ch cs)))"
proof (cases "fmlookup cs n")
  case None
  with assms show ?thesis by (simp add: channel_for_new)
next
  case (Some c)
  with assms(2) have "fmupd n ch cs = cs" by (simp add: fmupd_idle)
  with Some assms show ?thesis by (simp add: channel_for_cached fun_upd_idem)
qed

lemmas channel_for_branches = channel_for_cached channel_for_new channel_for_refused

lemma channel_for_other_calls [simp]: "channel_for (api\<lparr>call_publish := f\<rparr>) = channel_for api"
  by (simp add: channel_for_def fun_eq_iff cong: option.case_cong)

text \<open>The pop path has its own copy of the lookup; it is the same function.\<close>

lemma pop_via_forward_channel:
  "pop_via_forward api (forward_channels self) leader address queue (h, w) =
     (case channel_for api self leader address h of
        (Panicked p, h) \<Rightarrow> (Panicked p, h, w)
      | (Returned (Inl status), h) \<Rightarrow> (Returned (Inl status), h, w)
      | (Returned (Inr channel), h) \<Rightarrow>
          (case send_one api 4 \<lparr>kind = Some (Subscribe queue)\<rparr> of
             Inl e \<Rightarrow> (Returned (Inl (status_internal ''forward channel closed'')), h, w)
           | Inr outbound \<Rightarrow>
               (case call_consume api channel outbound (h, w) of
                  (Inl status, hw) \<Rightarrow> (Returned (Inl status), hw)
                | (Inr inbound, hw) \<Rightarrow>
                    (case next_within api 300 inbound hw of
                       (Inr (Some (Inr resp)), hw) \<Rightarrow>
                         (Returned (Inr (Some (con_offset resp, con_payload resp))), hw)
                     | (_, hw) \<Rightarrow> (Returned (Inr None), hw)))))"
  unfolding pop_via_forward_def channel_for_def fst_conv snd_conv ..

section \<open>A two-node instance for the witnesses\<close>

text \<open>Node 1 leads; channels are addresses, and the only reachable one is node 1's.\<close>

definition leader_api :: "(string, string, queue_group) mq_api" where
  "leader_api =
     \<lparr>client_write = group_write True, from_shared = Inr,
      call_publish = (\<lambda>ch req g. (Inl (status_unavailable ''unreachable''), g)),
      send_one = (\<lambda>n r. Inr [r]),
      call_consume = (\<lambda>ch rs g. (Inl (status_unavailable ''unreachable''), g)),
      next_within = (\<lambda>ms s g. (Inl (), g))\<rparr>"

definition svc :: "string \<Rightarrow> MqServiceImpl" where
  "svc name = \<lparr>svc_node_id = name, svc_state = 0,
     svc_peers = fmupd 2 ''b'' (fmupd 1 ''a'' fmempty),
     forward_channels = (if name = ''node-1'' then 1 else 2)\<rparr>"

definition no_channels :: "string channel_heap" where
  "no_channels = (\<lambda>_. mutex_new fmempty)"

lemma leader_first_publish:
  "\<exists>resp g'. group_write checks (Publish q p) (group_new n (Some n)) = (Inr resp, g')"
proof -
  have "get_or (next_offset QueueState_default) q 0 \<noteq> u64_max"
    by (simp add: QueueState_default_eq u64_max_def)
  then show ?thesis
    by (simp add: group_write_leader group_new_def Let_def with_lock_def apply_Publish
        del: QueueState_apply.simps)
qed

text \<open>How a node's handler appears to a caller: a panic of it is a broken call.\<close>

definition answered :: "(Status, 'a) result outcome \<times> 'w \<Rightarrow> (Status, 'a) result \<times> 'w" where
  "answered r =
     (case r of (Returned x, w) \<Rightarrow> (x, w)
      | (Panicked p, w) \<Rightarrow> (Inl \<lparr>code = OtherCode 1, message = ''stream broken''\<rparr>, w))"

definition follower_api :: "(string, unit, queue_group) mq_api" where
  "follower_api =
     \<lparr>client_write = (\<lambda>req w. (Inl (ForwardToLeader (Some 1)), w)), from_shared = Inr,
      call_publish = (\<lambda>ch req w. answered (publish leader_api (svc ''node-1'') req w)),
      send_one = (\<lambda>n r. Inr [r]),
      call_consume = (\<lambda>ch rs w. (Inl (status_unavailable ''unreachable''), w)),
      next_within = (\<lambda>ms s w. (Inl (), w))\<rparr>"

section \<open>Properties\<close>

lemma publish_accepted:
  "client_write api (Publish q p) w = (Inr resp, w') \<Longrightarrow>
   publish api self \<lparr>pub_queue = q, pub_payload = p\<rparr> (h, w) =
     (Returned (Inr \<lparr>pub_offset = unwrap_or_default (published_offset resp)\<rparr>), h, w')"
  by (simp add: publish_def propose_def)

text \<open>A node that is refused with a leader's name answers what the remote call answers.\<close>

lemma publish_forwards:
  assumes "client_write api (Publish q p) w = (Inl (ForwardToLeader (Some leader)), w')"
    and "fmlookup (svc_peers self) leader = Some address"
    and "channel_for api self leader address h = (Returned (Inr ch), h')"
    and "call_publish api ch \<lparr>pub_queue = q, pub_payload = p\<rparr> (h', w') = (r, hw)"
  shows "publish api self \<lparr>pub_queue = q, pub_payload = p\<rparr> (h, w) = (Returned r, hw)"
  using assms by (cases r) (simp_all add: publish_def propose_def forward_def)

lemma publish_accepted_offset:
  assumes "queue_client checks ok (client_write api) commands" "ok w"
    and "length (commands w) < 2 ^ 64 - 1"
    and "client_write api (Publish q p) w = (Inr resp, w')"
  shows "publish api self \<lparr>pub_queue = q, pub_payload = p\<rparr> (h, w) =
      (Returned (Inr \<lparr>pub_offset = of_nat (length (published_to q (commands w)))\<rparr>), h, w')
    \<and> commands w' = commands w @ [Publish q p]"
proof -
  have "published_offset resp = Some (of_nat (length (published_to q (commands w))))"
    by (rule queue_client.publish_answer [OF assms(1,2,4,3)])
  moreover have "commands w' = commands w @ [Publish q p]"
    using raft_client.accepted [OF queue_client.axioms(1) [OF assms(1)] assms(2,4)] by blast
  ultimately show ?thesis using publish_accepted [of api q p w resp w' self h] assms(4) by simp
qed

text \<open>
  C16: publishing on the leader. When openraft accepts the write, \<open>publish\<close> answers with the
  number of messages published to that queue before, exactly one publish has been committed,
  and the channel cache is untouched.
\<close>

theorem publish_on_leader:
  assumes "queue_client checks ok (client_write api) commands" and "ok w"
    and "length (commands w) < 2 ^ 64 - 1"
    and "client_write api (Publish q p) w = (Inr resp, w')"
  shows "publish api self \<lparr>pub_queue = q, pub_payload = p\<rparr> (h, w) =
      (Returned (Inr \<lparr>pub_offset = of_nat (length (published_to q (commands w)))\<rparr>), h, w')
    \<and> commands w' = commands w @ [Publish q p]"
  using assms by (rule publish_accepted_offset)

theorem publish_on_leader_witness:
  "publish leader_api (svc ''node-1'') \<lparr>pub_queue = ''q'', pub_payload = [7]\<rparr> (no_channels, group_new 1 (Some 1)) =
     (Returned (Inr \<lparr>pub_offset = 0\<rparr>), no_channels,
      snd (group_write True (Publish ''q'' [7]) (group_new 1 (Some 1))))"
proof -
  let ?g = "group_new 1 (Some 1)"
  obtain resp g' where g: "group_write True (Publish ''q'' [7]) ?g = (Inr resp, g')"
    using leader_first_publish by blast
  have "queue_client True (group_ok True) (client_write leader_api) group_commands"
    by (simp add: leader_api_def qgroup.queue_client_axioms)
  from publish_on_leader [OF this group_new_ok, of 1 "Some 1" "''q''" "[7]" resp g' "svc ''node-1''" no_channels] g
  show ?thesis by (simp add: leader_api_def group_commands_new)
qed

text \<open>
  C17: publishing through a follower. If the follower's openraft names a leader that is in the
  peer list and the channel to it leads to that node's \<open>publish\<close>, then publishing on the
  follower gives the answer of publishing on the leader, one publish is committed and not
  two, and the channel is cached for the next one.
\<close>

theorem publish_through_follower:
  assumes "queue_client checks ok (client_write remote) commands" and "ok w"
    and "length (commands w) < 2 ^ 64 - 1"
    and "client_write remote (Publish q p) w = (Inr resp, w')"
    and "client_write api (Publish q p) w = (Inl (ForwardToLeader (Some leader)), w)"
    and "fmlookup (svc_peers self) leader = Some address"
    and "h (forward_channels self) = mutex_new cs"
    and "(case fmlookup cs leader of Some c \<Rightarrow> Inr c | None \<Rightarrow> from_shared api address) = Inr ch"
    and "call_publish api ch = (\<lambda>req hw. answered (publish remote remote_self req hw))"
  shows "publish api self \<lparr>pub_queue = q, pub_payload = p\<rparr> (h, w) =
      (Returned (Inr \<lparr>pub_offset = of_nat (length (published_to q (commands w)))\<rparr>),
       h(forward_channels self := mutex_new (fmupd leader ch cs)), w')
    \<and> commands w' = commands w @ [Publish q p]"
proof -
  let ?h = "h(forward_channels self := mutex_new (fmupd leader ch cs))"
  have "channel_for api self leader address h = (Returned (Inr ch), ?h)"
    using assms(7,8) by (rule channel_for_gives)
  moreover have "call_publish api ch \<lparr>pub_queue = q, pub_payload = p\<rparr> (?h, w) =
      (Inr \<lparr>pub_offset = of_nat (length (published_to q (commands w)))\<rparr>, (?h, w'))"
    using publish_accepted_offset [OF assms(1-4), of remote_self ?h] by (simp add: assms(9) answered_def)
  moreover have "commands w' = commands w @ [Publish q p]"
    using publish_accepted_offset [OF assms(1-4)] by simp
  ultimately show ?thesis using publish_forwards [OF assms(5,6)] by blast
qed

theorem publish_through_follower_witness:
  "publish follower_api (svc ''node-2'') \<lparr>pub_queue = ''q'', pub_payload = [7]\<rparr>
     (no_channels, group_new 1 (Some 1)) =
   (Returned (Inr \<lparr>pub_offset = 0\<rparr>), no_channels(2 := mutex_new (fmupd 1 ''a'' fmempty)),
    snd (group_write True (Publish ''q'' [7]) (group_new 1 (Some 1))))"
proof -
  let ?g = "group_new 1 (Some 1)"
  obtain resp g' where g: "group_write True (Publish ''q'' [7]) ?g = (Inr resp, g')"
    using leader_first_publish by blast
  have "queue_client True (group_ok True) (client_write leader_api) group_commands"
    by (simp add: leader_api_def qgroup.queue_client_axioms)
  from publish_through_follower [OF this group_new_ok, of 1 "Some 1" "''q''" "[7]" resp g' follower_api
      1 "svc ''node-2''" "''a''" no_channels fmempty "''a''" "svc ''node-1''"] g
  show ?thesis
    by (simp add: leader_api_def follower_api_def group_commands_new svc_def no_channels_def)
qed

lemma publish_refused:
  assumes "client_write api (Publish q p) w = (Inl (ForwardToLeader hint), w')"
    and "h (forward_channels self) = mutex_new cs"
    and "\<And>n address. \<lbrakk>hint = Some n; fmlookup (svc_peers self) n = Some address\<rbrakk> \<Longrightarrow>
      fmlookup cs n = None \<and> from_shared api address = Inl e"
  shows "publish api self \<lparr>pub_queue = q, pub_payload = p\<rparr> (h, w) =
      (Returned (Inl
         (case hint of
            None \<Rightarrow> status_unavailable ''no raft leader elected yet''
          | Some n \<Rightarrow>
              if n |\<in>| fmdom (svc_peers self) then status_internal e
              else status_internal ''unknown leader address'')), h, w')"
proof (cases hint)
  case None
  with assms(1) show ?thesis by (simp add: publish_def propose_def)
next
  case (Some n)
  show ?thesis
  proof (cases "fmlookup (svc_peers self) n")
    case None
    with Some assms(1) show ?thesis by (simp add: publish_def propose_def fmlookup_dom_iff)
  next
    case address: (Some address)
    with assms(2,3) Some have "channel_for api self n address h = (Returned (Inl (status_internal e)), h)"
      by (simp add: channel_for_refused)
    with Some address assms(1) show ?thesis
      by (simp add: publish_def propose_def forward_def fmlookup_dom_iff)
  qed
qed

text \<open>
  C18: without a leader to go to, a publish commits nothing and the caller is told why: no
  leader elected is \<open>Unavailable\<close>, a leader outside the peer list or with an address that is
  no URI is \<open>Internal\<close>. A refused address leaves the cache as it was.
\<close>

theorem publish_without_leader:
  assumes "queue_client checks ok (client_write api) commands" and "ok w"
    and "client_write api (Publish q p) w = (Inl (ForwardToLeader hint), w')"
    and "h (forward_channels self) = mutex_new cs"
    and "\<And>n address. \<lbrakk>hint = Some n; fmlookup (svc_peers self) n = Some address\<rbrakk> \<Longrightarrow>
      fmlookup cs n = None \<and> from_shared api address = Inl e"
  shows "publish api self \<lparr>pub_queue = q, pub_payload = p\<rparr> (h, w) =
      (Returned (Inl
         (case hint of
            None \<Rightarrow> status_unavailable ''no raft leader elected yet''
          | Some n \<Rightarrow>
              if n |\<in>| fmdom (svc_peers self) then status_internal e
              else status_internal ''unknown leader address'')), h, w')
    \<and> commands w' = commands w"
proof
  show "publish api self \<lparr>pub_queue = q, pub_payload = p\<rparr> (h, w) =
      (Returned (Inl
         (case hint of
            None \<Rightarrow> status_unavailable ''no raft leader elected yet''
          | Some n \<Rightarrow>
              if n |\<in>| fmdom (svc_peers self) then status_internal e
              else status_internal ''unknown leader address'')), h, w')"
    using assms(3-5) by (rule publish_refused)
  show "commands w' = commands w"
    using raft_client.forwarded [OF queue_client.axioms(1) [OF assms(1)] assms(2,3)] .
qed

theorem publish_without_leader_witness:
  "publish leader_api (svc ''node-2'') \<lparr>pub_queue = ''q'', pub_payload = [7]\<rparr> (no_channels, group_new 2 None) =
     (Returned (Inl (status_unavailable ''no raft leader elected yet'')), no_channels, group_new 2 None)"
proof -
  have "queue_client True (group_ok True) (client_write leader_api) group_commands"
    by (simp add: leader_api_def qgroup.queue_client_axioms)
  from publish_without_leader [OF this group_new_ok, of "''q''" "[7]" 2 None None "group_new 2 None"
      no_channels "svc ''node-2''" fmempty]
  show ?thesis by (simp add: leader_api_def group_write_def group_new_def no_channels_def svc_def)
qed

text \<open>
  A peer is connected to once. After \<open>channel_for\<close> has given a channel for a node id,
  every later lookup of that id gives the same channel, whatever address it is asked with,
  and changes nothing; the caches of other services are never touched.
\<close>

theorem channel_is_reused:
  assumes "channel_for api self n address h = (Returned (Inr ch), h')"
  shows "channel_for api self n address' h' = (Returned (Inr ch), h')
    \<and> (\<forall>a. a \<noteq> forward_channels self \<longrightarrow> h' a = h a)"
proof -
  have "\<not> poisoned (h (forward_channels self))"
    using assms by (auto simp: channel_for_def with_lock_def)
  then obtain cs where cs: "h (forward_channels self) = mutex_new cs" by (metis mutex_new_guarded)
  have "h' (forward_channels self) = mutex_new (fmupd n ch cs)"
  proof (cases "fmlookup cs n")
    case None
    with assms cs show ?thesis
      by (cases "from_shared api address") (auto simp: channel_for_branches)
  next
    case (Some c)
    with assms cs show ?thesis by (auto simp: channel_for_cached fmupd_idle)
  qed
  then have "channel_for api self n address' h' = (Returned (Inr ch), h')"
    by (simp add: channel_for_cached)
  with assms show ?thesis by (auto simp: channel_for_def dest: with_lock_frame)
qed

theorem channel_is_reused_witness:
  "channel_for leader_api (svc ''node-2'') 1 ''elsewhere'' (no_channels(2 := mutex_new (fmupd 1 ''a'' fmempty))) =
     (Returned (Inr ''a''), no_channels(2 := mutex_new (fmupd 1 ''a'' fmempty)))"
proof -
  have "channel_for leader_api (svc ''node-2'') 1 ''a'' no_channels =
      (Returned (Inr ''a''), no_channels(2 := mutex_new (fmupd 1 ''a'' fmempty)))"
    by (simp add: channel_for_def with_lock_def leader_api_def svc_def no_channels_def)
  from channel_is_reused [OF this, of "''elsewhere''"] show ?thesis by blast
qed

text \<open>
  A consume stream opens exactly when the first inbound message is a \<open>Subscribe\<close>, and
  then for the queue that it names.
\<close>

theorem consume_needs_subscribe:
  "(consume_open inbound = Inr q) = (\<exists>rest. inbound = Inr \<lparr>kind = Some (Subscribe q)\<rparr> # rest)"
proof -
  have "(kind r = Some k) = (r = \<lparr>kind = Some k\<rparr>)" for r k
    by (cases r) simp
  then show ?thesis
    by (auto simp: consume_open_def split: list.splits sum.splits option.splits Kind.splits)
qed

end
