(* ===== verification/Status_Http.thy ===== *)
theory Status_Http
  imports Mq_Service
begin

text \<open>
  \<open>status_http.rs\<close>: the status page and its event stream. Both read the queue state through
  the same shared cell as the gRPC status stream and the state machine. The leaders are
  openraft's answers, the JSON writer is an argument.
\<close>

section \<open>Handlers\<close>

record StatusState =
  ss_node_id :: string
  ss_queue_state :: addr

record StatusPayload =
  sp_node_id :: string
  sp_queue_depths :: "(string, u64) fmap"
  sp_nodes_group_leader :: "u64 option"
  sp_queue_group_leader :: "u64 option"

definition StatusState_payload ::
  "StatusState \<Rightarrow> QueueState heap \<Rightarrow> u64 option \<Rightarrow> u64 option \<Rightarrow> StatusPayload outcome" where
  "StatusState_payload self states node_leader queue_leader =
     bind_outcome (fst (with_lock states (ss_queue_state self) (\<lambda>s. (Returned (depths s), s))))
       (\<lambda>queue_depths. Returned
          \<lparr>sp_node_id = ss_node_id self, sp_queue_depths = queue_depths,
           sp_nodes_group_leader = node_leader, sp_queue_group_leader = queue_leader\<rparr>)"

definition status_once ::
  "StatusState \<Rightarrow> QueueState heap \<Rightarrow> u64 option \<Rightarrow> u64 option \<Rightarrow> StatusPayload outcome" where
  "status_once state states node_leader queue_leader =
     StatusState_payload state states node_leader queue_leader"

text \<open>One event of the stream: the \<open>unwrap\<close> panics if the payload cannot be written.\<close>

definition status_stream_event ::
  "(StatusPayload \<Rightarrow> (string, 'ev) result) \<Rightarrow> StatusState \<Rightarrow> QueueState heap \<Rightarrow> u64 option \<Rightarrow> u64 option
     \<Rightarrow> 'ev outcome" where
  "status_stream_event json_data state states node_leader queue_leader =
     bind_outcome (StatusState_payload state states node_leader queue_leader)
       (\<lambda>payload. case json_data payload of
          Inl e \<Rightarrow> Panicked UnwrapFailed
        | Inr event \<Rightarrow> Returned event)"

section \<open>Properties\<close>

text \<open>What \<open>main.rs\<close> builds: both services get the same name and the same cell.\<close>

definition same_node :: "MqServiceImpl \<Rightarrow> StatusState \<Rightarrow> bool" where
  "same_node self state \<longleftrightarrow> svc_node_id self = ss_node_id state \<and> svc_state self = ss_queue_state state"

text \<open>
  The gRPC status stream and the HTTP status page of a node report the same: they panic
  together, exactly when the queue state's mutex is poisoned, and otherwise agree on the
  name, on every depth and on both leaders, an unknown leader being 0 in the one and null in
  the other.
\<close>

theorem status_views_agree:
  assumes "same_node self state"
  shows "watch_status_tick self states nl ql =
    (case status_once state states nl ql of
       Panicked p \<Rightarrow> Panicked p
     | Returned pl \<Rightarrow> Returned
         \<lparr>upd_node_id = sp_node_id pl, upd_queue_depths = sp_queue_depths pl,
          upd_nodes_group_leader = (case sp_nodes_group_leader pl of None \<Rightarrow> 0 | Some n \<Rightarrow> n),
          upd_queue_group_leader = (case sp_queue_group_leader pl of None \<Rightarrow> 0 | Some n \<Rightarrow> n)\<rparr>)
    \<and> (status_once state states nl ql = Panicked PoisonedLock) = poisoned (states (ss_queue_state state))"
  using assms
  by (auto simp: watch_status_tick_def status_once_def StatusState_payload_def same_node_def with_lock_def
      unwrap_or_default_case split: option.split)

theorem status_views_agree_witness:
  "watch_status_tick \<lparr>svc_node_id = ''n'', svc_state = 0, svc_peers = fmempty, forward_channels = 0\<rparr>
     (\<lambda>_. \<lparr>guarded = QueueState_default, poisoned = True\<rparr>) None (Some 1) = Panicked PoisonedLock"
  using status_views_agree [of "\<lparr>svc_node_id = ''n'', svc_state = 0, svc_peers = fmempty, forward_channels = 0\<rparr>"
      "\<lparr>ss_node_id = ''n'', ss_queue_state = 0\<rparr>" "\<lambda>_. \<lparr>guarded = QueueState_default, poisoned = True\<rparr>" None "Some 1"]
  by (simp add: same_node_def)

end
