(* ===== verification/Socket_Addr.thy ===== *)
theory Socket_Addr
  imports Rust_Str Raft_Types "HOL-Library.Monad_Syntax"
begin

text \<open>
  \<open>SocketAddr\<close> of the standard library, which \<open>main.rs\<close> parses its two listening addresses
  into and prints when a node is not in its own peer list: the parser over bytes, for both
  address families, and \<open>Display\<close>. Printing an IPv4 address and parsing it round-trips.
\<close>

section \<open>Addresses\<close>

type_synonym u16 = "16 word"
type_synonym u32 = "32 word"

text \<open>
  Four octets, or eight segments with a scope id; the parser leaves the flow label zero.
\<close>

datatype SocketAddr = V4 "u8 list" u16 | V6 "u16 list" u32 u16

datatype AddrParseError = AddrParseError

fun port :: "SocketAddr \<Rightarrow> u16" where
  "port (V4 octets p) = p"
| "port (V6 segments scope_id p) = p"

section \<open>The parser\<close>

text \<open>
  A reader takes the rest of the input and returns a value with what is left, or fails and
  leaves the input alone.
\<close>

fun read_given_char :: "char \<Rightarrow> string \<Rightarrow> string option" where
  "read_given_char c [] = None"
| "read_given_char c (x # xs) = (if x = c then Some xs else None)"

definition to_digit_radix :: "nat \<Rightarrow> char \<Rightarrow> nat option" where
  "to_digit_radix radix c =
     (let n = of_char c;
          d = (if 48 \<le> n \<and> n \<le> 57 then n - 48
               else if 97 \<le> n \<and> n \<le> 122 then n - 87
               else if 65 \<le> n \<and> n \<le> 90 then n - 55 else radix)
      in if d < radix then Some d else None)"

fun read_digits :: "nat \<Rightarrow> nat \<Rightarrow> nat \<Rightarrow> string \<Rightarrow> nat \<times> nat \<times> string" where
  "read_digits radix k acc [] = (k, acc, [])"
| "read_digits radix k acc (c # cs) =
     (case to_digit_radix radix c of
        None \<Rightarrow> (k, acc, c # cs)
      | Some d \<Rightarrow> read_digits radix (Suc k) (acc * radix + d) cs)"

text \<open>
  \<open>read_number\<close>: at least one digit, at most \<open>max_digits\<close>, no leading zero unless allowed,
  and a value below \<open>bound\<close>, which stands for the type that is read.
\<close>

definition read_number ::
  "nat \<Rightarrow> nat option \<Rightarrow> bool \<Rightarrow> nat \<Rightarrow> string \<Rightarrow> (nat \<times> string) option" where
  "read_number radix max_digits allow_zero_prefix bound s =
     (case read_digits radix 0 0 s of
        (digit_count, value, rest) \<Rightarrow>
          if digit_count = 0
             \<or> (case max_digits of None \<Rightarrow> False | Some k \<Rightarrow> k < digit_count)
             \<or> \<not> allow_zero_prefix \<and> hd s = CHR ''0'' \<and> 1 < digit_count
             \<or> bound \<le> value
          then None else Some (value, rest))"

definition read_separator ::
  "char \<Rightarrow> nat \<Rightarrow> (string \<Rightarrow> ('a \<times> string) option) \<Rightarrow> string \<Rightarrow> ('a \<times> string) option" where
  "read_separator sep i inner s = (if 0 < i then Option.bind (read_given_char sep s) inner else inner s)"

fun read_octets :: "nat \<Rightarrow> nat \<Rightarrow> string \<Rightarrow> (u8 list \<times> string) option" where
  "read_octets i 0 s = Some ([], s)"
| "read_octets i (Suc n) s =
     do {
       (x, s) \<leftarrow> read_separator CHR ''.'' i (read_number 10 (Some 3) False 256) s;
       (xs, s) \<leftarrow> read_octets (Suc i) n s;
       Some (of_nat x # xs, s)
     }"

definition read_ipv4_addr :: "string \<Rightarrow> (u8 list \<times> string) option" where
  "read_ipv4_addr s = read_octets 0 4 s"

text \<open>Segments, of which the last two may be written as an IPv4 address.\<close>

definition be_pair :: "u8 \<Rightarrow> u8 \<Rightarrow> u16" where
  "be_pair a b = of_nat (unat a * 256 + unat b)"

fun read_groups :: "nat \<Rightarrow> nat \<Rightarrow> string \<Rightarrow> u16 list \<times> bool \<times> string" where
  "read_groups i 0 s = ([], False, s)"
| "read_groups i (Suc n) s =
     (case (if 0 < n then read_separator CHR '':'' i read_ipv4_addr s else None) of
        Some (octets, s) \<Rightarrow>
          ([be_pair (octets ! 0) (octets ! 1), be_pair (octets ! 2) (octets ! 3)], True, s)
      | None \<Rightarrow>
          (case read_separator CHR '':'' i (read_number 16 (Some 4) True 65536) s of
             None \<Rightarrow> ([], False, s)
           | Some (g, s) \<Rightarrow>
               (case read_groups (Suc i) n s of (gs, ipv4, s) \<Rightarrow> (of_nat g # gs, ipv4, s))))"

definition read_ipv6_addr :: "string \<Rightarrow> (u16 list \<times> string) option" where
  "read_ipv6_addr s =
     (case read_groups 0 8 s of
        (head, head_ipv4, s) \<Rightarrow>
          if length head = 8 then Some (head, s)
          else if head_ipv4 then None
          else
            do {
              s \<leftarrow> read_given_char CHR '':'' s;
              s \<leftarrow> read_given_char CHR '':'' s;
              (case read_groups 0 (8 - (length head + 1)) s of
                 (tail, _, s) \<Rightarrow> Some (head @ replicate (8 - length head - length tail) 0 @ tail, s))
            })"

definition read_port :: "string \<Rightarrow> (u16 \<times> string) option" where
  "read_port s =
     do {
       s \<leftarrow> read_given_char CHR '':'' s;
       (p, s) \<leftarrow> read_number 10 None True 65536 s;
       Some (of_nat p, s)
     }"

definition read_scope_id :: "string \<Rightarrow> (u32 \<times> string) option" where
  "read_scope_id s =
     do {
       s \<leftarrow> read_given_char CHR ''%'' s;
       (n, s) \<leftarrow> read_number 10 None True (2 ^ 32) s;
       Some (of_nat n, s)
     }"

definition read_socket_addr_v4 :: "string \<Rightarrow> (SocketAddr \<times> string) option" where
  "read_socket_addr_v4 s =
     do {
       (ip, s) \<leftarrow> read_ipv4_addr s;
       (p, s) \<leftarrow> read_port s;
       Some (V4 ip p, s)
     }"

definition read_socket_addr_v6 :: "string \<Rightarrow> (SocketAddr \<times> string) option" where
  "read_socket_addr_v6 s =
     do {
       s \<leftarrow> read_given_char CHR ''['' s;
       (ip, s) \<leftarrow> read_ipv6_addr s;
       (let (scope_id, s) = (case read_scope_id s of Some r \<Rightarrow> r | None \<Rightarrow> (0, s)) in
        do {
          s \<leftarrow> read_given_char CHR '']'' s;
          (p, s) \<leftarrow> read_port s;
          Some (V6 ip scope_id p, s)
        })
     }"

text \<open>\<open>str::parse::<SocketAddr>()\<close>: one family or the other, and nothing left over.\<close>

definition parse_socket_addr :: "string \<Rightarrow> (AddrParseError, SocketAddr) result" where
  "parse_socket_addr s =
     (case (case read_socket_addr_v4 s of Some r \<Rightarrow> Some r | None \<Rightarrow> read_socket_addr_v6 s) of
        Some (a, []) \<Rightarrow> Inr a
      | _ \<Rightarrow> Inl AddrParseError)"

section \<open>Printing\<close>

fun join_with :: "char \<Rightarrow> string list \<Rightarrow> string" where
  "join_with c [] = []"
| "join_with c [x] = x"
| "join_with c (x # y # ys) = x @ c # join_with c (y # ys)"

definition show_ipv4 :: "u8 list \<Rightarrow> string" where
  "show_ipv4 octets = join_with CHR ''.'' (map (\<lambda>x. show_nat (unat x)) octets)"

definition show_segments :: "u16 list \<Rightarrow> string" where
  "show_segments gs = join_with CHR '':'' (map (\<lambda>g. lower_hex (unat g)) gs)"

text \<open>The first of the longest runs of zero segments, as its start and length.\<close>

fun zero_span :: "nat \<Rightarrow> nat \<times> nat \<Rightarrow> nat \<times> nat \<Rightarrow> u16 list \<Rightarrow> nat \<times> nat" where
  "zero_span i current longest [] = longest"
| "zero_span i current longest (g # gs) =
     (if g = 0 then
        let current = (if snd current = 0 then i else fst current, Suc (snd current)) in
        zero_span (Suc i) current (if snd longest < snd current then current else longest) gs
      else zero_span (Suc i) (0, 0) longest gs)"

definition show_ipv6 :: "u16 list \<Rightarrow> string" where
  "show_ipv6 gs =
     (if take 6 gs = [0, 0, 0, 0, 0, 65535]
      then ''::ffff:'' @ show_ipv4 (concat (map (\<lambda>g. [of_nat (unat g div 256), of_nat (unat g mod 256)]) (drop 6 gs)))
      else case zero_span 0 (0, 0) (0, 0) gs of
        (start, len) \<Rightarrow>
          if 1 < len then show_segments (take start gs) @ ''::'' @ show_segments (drop (start + len) gs)
          else show_segments gs)"

fun show_socket_addr :: "SocketAddr \<Rightarrow> string" where
  "show_socket_addr (V4 octets p) = show_ipv4 octets @ CHR '':'' # show_nat (unat p)"
| "show_socket_addr (V6 segments scope_id p) =
     ''['' @ show_ipv6 segments
     @ (if scope_id = 0 then [] else CHR ''%'' # show_nat (unat scope_id)) @ '']:'' @ show_nat (unat p)"

section \<open>Lemmas\<close>

lemma read_digits_append:
  "\<forall>c\<in>set xs. to_digit_radix r c \<noteq> None \<Longrightarrow>
   read_digits r k acc (xs @ ys) = (case read_digits r k acc xs of (k, acc, z) \<Rightarrow> read_digits r k acc ys)"
  by (induction xs arbitrary: k acc) (auto split: option.split)

lemma to_digit_radix_ten: "to_digit_radix 10 c = to_digit c"
  by (auto simp: to_digit_radix_def to_digit_def Let_def)

lemma read_digits_show: "read_digits 10 0 0 (show_nat n) = (length (show_nat n), n, [])"
proof (induction n rule: show_nat.induct)
  case (1 n)
  show ?case
  proof (cases "n < 10")
    case True
    then show ?thesis by (subst (1 2) show_nat.simps) (simp add: to_digit_radix_ten)
  next
    case False
    have "\<forall>c\<in>set (show_nat (n div 10)). to_digit_radix 10 c \<noteq> None"
      using show_nat_digits by (simp add: to_digit_radix_ten)
    from read_digits_append [OF this] "1.IH" [OF False] False show ?thesis
      by (subst (1 2) show_nat.simps) (simp add: to_digit_radix_ten)
  qed
qed

definition digit_free :: "string \<Rightarrow> bool" where
  "digit_free s \<longleftrightarrow> s = [] \<or> to_digit (hd s) = None"

lemma read_digits_show_rest:
  "digit_free rest \<Longrightarrow> read_digits 10 0 0 (show_nat n @ rest) = (length (show_nat n), n, rest)"
proof -
  assume "digit_free rest"
  then have "read_digits 10 k acc rest = (k, acc, rest)" for k acc
    by (cases rest) (auto simp: digit_free_def to_digit_radix_ten)
  moreover have "\<forall>c\<in>set (show_nat n). to_digit_radix 10 c \<noteq> None"
    using show_nat_digits by (simp add: to_digit_radix_ten)
  ultimately show ?thesis using read_digits_append read_digits_show by simp
qed

lemma show_nat_hd: "hd (show_nat n @ rest) = CHR ''0'' \<Longrightarrow> n = 0"
proof (induction n arbitrary: rest rule: show_nat.induct)
  case (1 n)
  show ?case
  proof (cases "n < 10")
    case True
    with "1.prems" have "char_of (48 + n) = CHR ''0''" by (simp add: show_nat.simps [of n])
    then have "to_digit (char_of (48 + n)) = to_digit CHR ''0''" by simp
    with True show ?thesis by (simp add: to_digit_def)
  next
    case False
    with "1.prems" have "hd (show_nat (n div 10) @ [char_of (48 + n mod 10)] @ rest) = CHR ''0''"
      by (simp add: show_nat.simps [of n])
    from "1.IH" [OF False this] False show ?thesis by simp
  qed
qed

lemma length_show_nat: "n < 10 ^ Suc k \<Longrightarrow> length (show_nat n) \<le> Suc k"
proof (induction k arbitrary: n)
  case (Suc k)
  have "n div 10 < 10 ^ Suc k" using Suc.prems by (simp add: div_less_iff_less_mult)
  from Suc.IH [OF this] show ?case by (subst show_nat.simps) simp
qed (simp add: show_nat.simps)

lemma read_number_show:
  assumes "n < bound" "digit_free rest" "\<And>k. max_digits = Some k \<Longrightarrow> length (show_nat n) \<le> k"
  shows "read_number 10 max_digits zeros bound (show_nat n @ rest) = Some (n, rest)"
proof -
  have "length (show_nat n) \<noteq> 0" using show_nat_nonempty by simp
  moreover have "hd (show_nat n @ rest) = CHR ''0'' \<Longrightarrow> length (show_nat n) = 1"
    using show_nat_hd [of n rest] by (auto simp: show_nat.simps [of 0])
  ultimately show ?thesis
    using assms by (auto simp: read_number_def read_digits_show_rest split: option.split)
qed

lemma read_octet_show:
  "digit_free rest \<Longrightarrow> read_number 10 (Some 3) False 256 (show_nat (unat (x :: u8)) @ rest) = Some (unat x, rest)"
proof -
  have "unat x < 256" using unsigned_less [of x, where ?'a = nat] by simp
  moreover assume "digit_free rest"
  ultimately show ?thesis using length_show_nat [of "unat x" 2] by (intro read_number_show) simp_all
qed

lemma digit_free_simps [simp]:
  "digit_free []" "digit_free (CHR ''.'' # s)" "digit_free (CHR '':'' # s)"
  by (simp_all add: digit_free_def to_digit_def)

text \<open>Printing an IPv4 socket address and parsing it round-trips.\<close>

lemma parse_show_v4: "parse_socket_addr (show_socket_addr (V4 [a, b, c, d] p)) = Inr (V4 [a, b, c, d] p)"
proof -
  have "unat p < 65536" using unsigned_less [of p, where ?'a = nat] by simp
  then have port: "read_number 10 None True 65536 (show_nat (unat p)) = Some (unat p, [])"
    using read_number_show [of "unat p" 65536 "[]" None True] by simp
  have four: "4 = Suc (Suc (Suc (Suc 0)))" by simp
  from port show ?thesis
    unfolding parse_socket_addr_def read_socket_addr_v4_def read_ipv4_addr_def four
    by (simp add: read_separator_def show_ipv4_def read_octet_show read_port_def)
qed

end
