(* ===== verification/Host_Start.thy ===== *)
theory Host_Start
  imports Host_Main Log_Store Raft_Rpc Status_Http Socket_Addr
begin

text \<open>
  \<open>main\<close> of the host as one definition: the environment it reads, the two Raft groups it
  opens, the tasks it spawns and the services it builds, with every early return and panic
  in the order of the code. The file system, raft-engine, openraft and the listener are
  arguments that pass the process memory and the outside world along.
\<close>

section \<open>Configuration\<close>

record host_config =
  cfg_node_id :: string
  cfg_node_num :: u64
  cfg_grpc_addr :: SocketAddr
  cfg_http_addr :: SocketAddr
  cfg_peers :: "(u64, string) fmap"
  cfg_data_dir :: string

text \<open>What \<open>main\<close> returns as an \<open>anyhow::Error\<close>, by the call it comes from.\<close>

datatype start_error =
    BadNumber IntErrorKind
  | BadAddress AddrParseError
  | OpenFailed string
  | BadConfig string
  | RaftFailed string
  | BindFailed string
  | ServerFailed string

definition read_config :: "environment \<Rightarrow> (start_error, host_config) result outcome" where
  "read_config env =
     (let node_id = env_or env ''MQ_NODE_ID'' ''node-1'' in
      case parse_u64 (env_or env ''MQ_NODE_NUM'' ''1'') of
        Inl e \<Rightarrow> Returned (Inl (BadNumber e))
      | Inr node_num \<Rightarrow>
          (case parse_socket_addr (env_or env ''MQ_GRPC_ADDR'' ''0.0.0.0:5001'') of
             Inl e \<Rightarrow> Returned (Inl (BadAddress e))
           | Inr grpc_addr \<Rightarrow>
               (case parse_socket_addr (env_or env ''MQ_HTTP_ADDR'' ''0.0.0.0:5080'') of
                  Inl e \<Rightarrow> Returned (Inl (BadAddress e))
                | Inr http_addr \<Rightarrow>
                    bind_outcome
                      (parse_peers (env_or env ''MQ_PEERS''
                         (''1=http://localhost:'' @ show_nat (unat (port grpc_addr)))))
                      (\<lambda>peers. Returned (Inr
                         \<lparr>cfg_node_id = node_id, cfg_node_num = node_num, cfg_grpc_addr = grpc_addr,
                          cfg_http_addr = http_addr, cfg_peers = peers,
                          cfg_data_dir = env_or env ''MQ_DATA_DIR'' (''./data/'' @ node_id)\<rparr>)))))"

text \<open>The Raft configuration: three fields over openraft's defaults.\<close>

record Config =
  heartbeat_interval :: u64
  election_timeout_min :: u64
  election_timeout_max :: u64

definition raft_config :: "'d Config_scheme \<Rightarrow> 'd Config_scheme" where
  "raft_config dflt =
     dflt\<lparr>heartbeat_interval := 500, election_timeout_min := 1500, election_timeout_max := 3000\<rparr>"

section \<open>Memory and calls\<close>

text \<open>The cells that \<open>Arc::new(Mutex::new(_))\<close> allocates, and the next free address.\<close>

record 'ch memory =
  mem_directories :: "NodeDirectory heap"
  mem_queues :: "QueueState heap"
  mem_channels :: "'ch channel_heap"
  mem_next :: addr

definition new_directory :: "NodeDirectory \<Rightarrow> 'ch memory \<Rightarrow> addr \<times> 'ch memory" where
  "new_directory v m =
     (mem_next m, m\<lparr>mem_directories := (mem_directories m)(mem_next m := mutex_new v), mem_next := mem_next m + 1\<rparr>)"

definition new_queues :: "QueueState \<Rightarrow> 'ch memory \<Rightarrow> addr \<times> 'ch memory" where
  "new_queues v m =
     (mem_next m, m\<lparr>mem_queues := (mem_queues m)(mem_next m := mutex_new v), mem_next := mem_next m + 1\<rparr>)"

definition new_channels :: "(u64, 'ch) fmap \<Rightarrow> 'ch memory \<Rightarrow> addr \<times> 'ch memory" where
  "new_channels v m =
     (mem_next m, m\<lparr>mem_channels := (mem_channels m)(mem_next m := mutex_new v), mem_next := mem_next m + 1\<rparr>)"

text \<open>
  The calls into code that is not part of the sources. A Raft instance runs from the moment
  it is created, so creating one may already change the cells.
\<close>

record ('e, 'nr, 'qr, 'l, 'd, 'ch, 'lid, 'mem, 'w) host_api =
  create_dir_all :: "string \<Rightarrow> 'ch memory \<times> 'w \<Rightarrow> (string, unit) result \<times> 'ch memory \<times> 'w"
  engine_open :: "string \<Rightarrow> 'ch memory \<times> 'w \<Rightarrow> (string, 'e) result \<times> 'ch memory \<times> 'w"
  config_default :: "'d Config_scheme"
  config_validate :: "'d Config_scheme \<Rightarrow> (string, 'd Config_scheme) result"
  default_membership :: 'mem
  node_raft_new :: "u64 \<Rightarrow> 'd Config_scheme \<Rightarrow> Network \<Rightarrow> 'e \<Rightarrow> ('lid, 'mem) NodeStateMachineStore
     \<Rightarrow> 'ch memory \<times> 'w \<Rightarrow> (string, 'nr) result \<times> 'ch memory \<times> 'w"
  queue_raft_new :: "u64 \<Rightarrow> 'd Config_scheme \<Rightarrow> Network \<Rightarrow> 'e \<Rightarrow> ('lid, 'mem) StateMachineStore
     \<Rightarrow> 'ch memory \<times> 'w \<Rightarrow> (string, 'qr) result \<times> 'ch memory \<times> 'w"
  tcp_bind :: "SocketAddr \<Rightarrow> 'ch memory \<times> 'w \<Rightarrow> (string, 'l) result \<times> 'ch memory \<times> 'w"

text \<open>The \<open>?\<close> operator after a call.\<close>

definition question ::
  "('x \<Rightarrow> start_error) \<Rightarrow> ('x, 'a) result \<times> 's
     \<Rightarrow> ('a \<Rightarrow> 's \<Rightarrow> (start_error, 'b) result outcome \<times> 's) \<Rightarrow> (start_error, 'b) result outcome \<times> 's" where
  "question wrap called next =
     (case called of (Inl e, s) \<Rightarrow> (Returned (Inl (wrap e)), s) | (Inr x, s) \<Rightarrow> next x s)"

section \<open>The two groups\<close>

text \<open>Each group gets a cell, a log of its own, a network with its tag and a state machine.\<close>

definition start_nodes ::
  "('e, 'nr, 'qr, 'l, 'd, 'ch, 'lid, 'mem, 'w) host_api \<Rightarrow> host_config \<Rightarrow> 'ch memory \<times> 'w
     \<Rightarrow> (start_error, 'nr) result outcome \<times> 'ch memory \<times> 'w" where
  "start_nodes api cfg s =
     (let (node_directory, m) = new_directory NodeDirectory_default (fst s) in
      question OpenFailed
        (log_store_open (create_dir_all api) (engine_open api) (cfg_data_dir cfg @ ''/nodes'') (m, snd s))
        (\<lambda>node_log_store s.
          question BadConfig (config_validate api (raft_config (config_default api)), s)
            (\<lambda>config s.
              question RaftFailed
                (node_raft_new api (cfg_node_num cfg) config (Network_new (cfg_peers cfg) Nodes) node_log_store
                   (NodeStateMachineStore_new (default_membership api) node_directory) s)
                (\<lambda>node_raft s. (Returned (Inr node_raft), s)))))"

definition start_queue ::
  "('e, 'nr, 'qr, 'l, 'd, 'ch, 'lid, 'mem, 'w) host_api \<Rightarrow> host_config \<Rightarrow> 'ch memory \<times> 'w
     \<Rightarrow> (start_error, 'qr \<times> addr) result outcome \<times> 'ch memory \<times> 'w" where
  "start_queue api cfg s =
     (let (queue_state, m) = new_queues QueueState_default (fst s) in
      question OpenFailed
        (log_store_open (create_dir_all api) (engine_open api) (cfg_data_dir cfg @ ''/spam'') (m, snd s))
        (\<lambda>queue_log_store s.
          question BadConfig (config_validate api (raft_config (config_default api)), s)
            (\<lambda>config s.
              question RaftFailed
                (queue_raft_new api (cfg_node_num cfg) config (Network_new (cfg_peers cfg) Spam) queue_log_store
                   (StateMachineStore_new (default_membership api) queue_state) s)
                (\<lambda>queue_raft s. (Returned (Inr (queue_raft, queue_state)), s)))))"

section \<open>The host\<close>

text \<open>The spawned tasks: \<open>bootstrap\<close> of a group, and the registration loop with its command.\<close>

datatype task = BootstrapTask RaftGroup "(u64, string) fmap" | RegisterTask NodeCommand

record ('nr, 'qr, 'l) host =
  host_tasks :: "task list"
  host_status :: StatusState
  host_service :: MqServiceImpl
  host_rpc :: "('nr, 'qr) RaftRpcImpl"
  host_grpc_addr :: SocketAddr
  host_listener :: 'l

definition spawned :: "host_config \<Rightarrow> bool \<Rightarrow> task list" where
  "spawned cfg is_lowest =
     (if is_lowest then [BootstrapTask Nodes (cfg_peers cfg), BootstrapTask Spam (cfg_peers cfg)] else [])
     @ [RegisterTask (UpsertNode (cfg_node_num cfg)
          (self_address (cfg_node_num cfg) (cfg_peers cfg) (show_socket_addr (cfg_grpc_addr cfg))))]"

definition start_services ::
  "('e, 'nr, 'qr, 'l, 'd, 'ch, 'lid, 'mem, 'w) host_api \<Rightarrow> host_config \<Rightarrow> 'nr \<Rightarrow> 'qr \<Rightarrow> addr \<Rightarrow> 'ch memory \<times> 'w
     \<Rightarrow> (start_error, ('nr, 'qr, 'l) host) result outcome \<times> 'ch memory \<times> 'w" where
  "start_services api cfg nr qr queue_state s =
     (case bootstraps (cfg_node_num cfg) (cfg_peers cfg) of
        Panicked p \<Rightarrow> (Panicked p, s)
      | Returned is_lowest \<Rightarrow>
          (let status_state = \<lparr>ss_node_id = cfg_node_id cfg, ss_queue_state = queue_state\<rparr>;
               (channels, m) = new_channels fmempty (fst s);
               mq_service = \<lparr>svc_node_id = cfg_node_id cfg, svc_state = ss_queue_state status_state,
                 svc_peers = cfg_peers cfg, forward_channels = channels\<rparr>
           in question BindFailed (tcp_bind api (cfg_http_addr cfg) (m, snd s))
                (\<lambda>http_listener s. (Returned (Inr
                   \<lparr>host_tasks = spawned cfg is_lowest, host_status = status_state,
                    host_service = mq_service, host_rpc = \<lparr>node_raft = nr, queue_raft = qr\<rparr>,
                    host_grpc_addr = cfg_grpc_addr cfg, host_listener = http_listener\<rparr>), s))))"

definition main_start ::
  "('e, 'nr, 'qr, 'l, 'd, 'ch, 'lid, 'mem, 'w) host_api \<Rightarrow> environment \<Rightarrow> 'ch memory \<times> 'w
     \<Rightarrow> (start_error, ('nr, 'qr, 'l) host) result outcome \<times> 'ch memory \<times> 'w" where
  "main_start api env s =
     (case read_config env of
        Panicked p \<Rightarrow> (Panicked p, s)
      | Returned (Inl e) \<Rightarrow> (Returned (Inl e), s)
      | Returned (Inr cfg) \<Rightarrow>
          (case start_nodes api cfg s of
             (Panicked p, s) \<Rightarrow> (Panicked p, s)
           | (Returned (Inl e), s) \<Rightarrow> (Returned (Inl e), s)
           | (Returned (Inr nr), s) \<Rightarrow>
               (case start_queue api cfg s of
                  (Panicked p, s) \<Rightarrow> (Panicked p, s)
                | (Returned (Inl e), s) \<Rightarrow> (Returned (Inl e), s)
                | (Returned (Inr (qr, queue_state)), s) \<Rightarrow> start_services api cfg nr qr queue_state s)))"

text \<open>The servers run until one of them ends, and \<open>main\<close> ends with its result.\<close>

definition main_select :: "(string, unit) result \<Rightarrow> (start_error, unit) result" where
  "main_select first_to_end = map_sum ServerFailed id first_to_end"

section \<open>Lemmas\<close>

lemma question_Inr:
  assumes "question wrap called next = (Returned (Inr y), s')"
  obtains x s where "called = (Inr x, s)" "next x s = (Returned (Inr y), s')"
  using assms by (auto simp: question_def split: prod.splits sum.splits)

text \<open>
  What a started group was made from: a log in its own directory, a fresh cell, the
  validated configuration and a network with the group's tag.
\<close>

definition nodes_started where
  "nodes_started api cfg nr \<longleftrightarrow> (\<exists>log cell config m w s1 s2.
     log_store_open (create_dir_all api) (engine_open api) (cfg_data_dir cfg @ ''/nodes'') (m, w) = (Inr log, s1) \<and>
     mem_directories m cell = mutex_new NodeDirectory_default \<and>
     config_validate api (raft_config (config_default api)) = Inr config \<and>
     node_raft_new api (cfg_node_num cfg) config (Network_new (cfg_peers cfg) Nodes) log
       (NodeStateMachineStore_new (default_membership api) cell) s1 = (Inr nr, s2))"

definition queue_started where
  "queue_started api cfg machine qr \<longleftrightarrow> (\<exists>log config m w s1 s2.
     log_store_open (create_dir_all api) (engine_open api) (cfg_data_dir cfg @ ''/spam'') (m, w) = (Inr log, s1) \<and>
     mem_queues m (sm_state machine) = mutex_new QueueState_default \<and>
     config_validate api (raft_config (config_default api)) = Inr config \<and>
     queue_raft_new api (cfg_node_num cfg) config (Network_new (cfg_peers cfg) Spam) log machine s1 = (Inr qr, s2))"

lemma start_nodes_Inr:
  assumes "start_nodes api cfg s = (Returned (Inr nr), s')"
  shows "nodes_started api cfg nr"
proof -
  let ?cell = "fst (new_directory NodeDirectory_default (fst s))"
  let ?m = "snd (new_directory NodeDirectory_default (fst s))"
  have "mem_directories ?m ?cell = mutex_new NodeDirectory_default" by (simp add: new_directory_def)
  with assms show ?thesis
    unfolding nodes_started_def start_nodes_def Let_def split_beta
    by (elim question_Inr) (simp only: prod.inject outcome.inject sum.inject, metis)
qed

lemma start_queue_Inr:
  assumes "start_queue api cfg s = (Returned (Inr (qr, cell)), s')"
  shows "queue_started api cfg (StateMachineStore_new (default_membership api) cell) qr"
proof -
  let ?cell = "fst (new_queues QueueState_default (fst s))"
  let ?m = "snd (new_queues QueueState_default (fst s))"
  have "mem_queues ?m (sm_state (StateMachineStore_new (default_membership api) ?cell)) = mutex_new QueueState_default"
    by (simp add: new_queues_def StateMachineStore_new_def)
  with assms show ?thesis
    unfolding queue_started_def start_queue_def Let_def split_beta
    by (elim question_Inr) (clarsimp simp only: prod.inject outcome.inject sum.inject, intro exI conjI, (assumption | rule refl)+)
qed

lemma start_services_Inr:
  assumes "start_services api cfg nr qr cell s = (Returned (Inr host), s')"
  obtains is_lowest where "bootstraps (cfg_node_num cfg) (cfg_peers cfg) = Returned is_lowest"
    "host_tasks host = spawned cfg is_lowest" "host_rpc host = \<lparr>node_raft = nr, queue_raft = qr\<rparr>"
    "host_status host = \<lparr>ss_node_id = cfg_node_id cfg, ss_queue_state = cell\<rparr>"
    "same_node (host_service host) (host_status host)" "svc_peers (host_service host) = cfg_peers cfg"
  using assms
  by (auto simp: start_services_def Let_def split_beta same_node_def split: outcome.splits elim!: question_Inr
      intro: that)

lemma main_start_Inr:
  assumes "main_start api env s = (Returned (Inr host), s')"
  obtains cfg nr qr cell s1 s2 where "read_config env = Returned (Inr cfg)"
    "start_nodes api cfg s = (Returned (Inr nr), s1)"
    "start_queue api cfg s1 = (Returned (Inr (qr, cell)), s2)"
    "start_services api cfg nr qr cell s2 = (Returned (Inr host), s')"
  using assms
  by (auto simp: main_start_def split: outcome.splits sum.splits prod.splits intro: that)

lemma question_panics:
  "question wrap called next = (Panicked p, s') \<Longrightarrow> \<exists>x s. next x s = (Panicked p, s')"
  by (auto simp: question_def split: prod.splits sum.splits)

text \<open>Nothing but the peer list makes the start-up panic.\<close>

lemma main_start_panics:
  assumes "main_start api env s = (Panicked p, s')"
  shows "read_config env = Panicked p \<or>
    (\<exists>cfg. read_config env = Returned (Inr cfg) \<and> cfg_peers cfg = fmempty)"
proof -
  have nodes: "start_nodes api cfg s \<noteq> (Panicked q, t)" for cfg s q t
    by (auto simp: start_nodes_def Let_def split_beta dest!: question_panics)
  have queue: "start_queue api cfg s \<noteq> (Panicked q, t)" for cfg s q t
    by (auto simp: start_queue_def Let_def split_beta dest!: question_panics)
  have services: "start_services api cfg nr qr c s = (Panicked q, t) \<Longrightarrow> cfg_peers cfg = fmempty" for cfg nr qr c s q t
    using bootstraps_verdict [of "cfg_peers cfg" "cfg_node_num cfg"]
    by (auto simp: start_services_def Let_def split_beta split: outcome.splits dest!: question_panics)
  from assms nodes queue services show ?thesis
    by (auto simp: main_start_def split: outcome.splits sum.splits prod.splits)
qed

lemma trimmed_localhost: "trimmed (''http://localhost:'' @ show_nat n)"
proof -
  have "\<forall>w\<in>set white_space. hd w \<noteq> CHR ''h''" unfolding white_space_def by code_simp
  then have "leading white_space (''http://localhost:'' @ show_nat n) = 0"
    by (auto intro!: leading_zeroI)
  moreover obtain d ds where r: "rev (show_nat n) = d # ds"
    by (metis neq_Nil_conv rev_is_Nil_conv show_nat_nonempty)
  then have "d \<in> set (show_nat n)" by (metis list.set_intros(1) set_rev)
  then have "leading (map rev white_space) (d # t) = 0" for t
    using show_nat_digits leading_digit(2) by blast
  then have "leading (map rev white_space) (rev (''http://localhost:'' @ show_nat n)) = 0"
    unfolding rev_append r by simp
  ultimately show ?thesis by (simp add: trimmed_def)
qed

lemma read_config_panics:
  assumes "read_config env = Panicked p"
  shows "\<exists>n. parse_peers (env_or env ''MQ_PEERS'' (''1=http://localhost:'' @ show_nat n)) = Panicked p"
proof -
  have "x = Panicked p" if "bind_outcome x (\<lambda>y. Returned (f y)) = Panicked p" for x and f :: "'x \<Rightarrow> 'y"
    using that by (cases x) auto
  with assms show ?thesis unfolding read_config_def Let_def by (fastforce split: sum.splits)
qed

lemma read_config_Inr:
  assumes "read_config env = Returned (Inr cfg)"
  shows "parse_u64 (env_or env ''MQ_NODE_NUM'' ''1'') = Inr (cfg_node_num cfg)"
    "parse_socket_addr (env_or env ''MQ_GRPC_ADDR'' ''0.0.0.0:5001'') = Inr (cfg_grpc_addr cfg)"
    "parse_socket_addr (env_or env ''MQ_HTTP_ADDR'' ''0.0.0.0:5080'') = Inr (cfg_http_addr cfg)"
    "parse_peers (env_or env ''MQ_PEERS''
       (''1=http://localhost:'' @ show_nat (unat (port (cfg_grpc_addr cfg))))) = Returned (cfg_peers cfg)"
    "cfg_node_id cfg = env_or env ''MQ_NODE_ID'' ''node-1''"
    "cfg_data_dir cfg = env_or env ''MQ_DATA_DIR'' (''./data/'' @ cfg_node_id cfg)"
  using assms by (auto simp: read_config_def Let_def split: sum.splits elim!: bind_Returned)

lemma show_nat_literals:
  "show_nat 0 = ''0''" "show_nat (Suc 0) = ''1''" "show_nat 5001 = ''5001''" "show_nat 5080 = ''5080''"
proof -
  have "char_of (48 :: nat) = CHR ''0''" "char_of (49 :: nat) = CHR ''1''" "char_of (53 :: nat) = CHR ''5''"
    "char_of (56 :: nat) = CHR ''8''" by code_simp+
  then show "show_nat 0 = ''0''" "show_nat (Suc 0) = ''1''" "show_nat 5001 = ''5001''" "show_nat 5080 = ''5080''"
    by (simp_all add: show_nat.simps [of 0] show_nat.simps [of "Suc 0"] show_nat.simps [of 5] show_nat.simps [of 50]
        show_nat.simps [of 500] show_nat.simps [of 5001] show_nat.simps [of 508] show_nat.simps [of 5080])
qed

lemma parse_localhost:
  "parse_peers (''1=http://localhost:'' @ show_nat n) = Returned (fmupd 1 (''http://localhost:'' @ show_nat n) fmempty)"
proof -
  let ?a = "''http://localhost:'' @ show_nat n"
  have "CHR '','' \<notin> set ?a" using show_nat_digits [of "CHR '',''"] by (auto simp: to_digit_def)
  with trimmed_localhost have "parse_peers (show_peers [(1, ?a)]) = Returned (fold (\<lambda>(k, v). fmupd k v) [(1, ?a)] fmempty)"
    by (intro parse_show_peers) auto
  moreover have "show_peers [(1, ?a)] = ''1='' @ ?a" by (simp add: show_nat_literals)
  ultimately show ?thesis by simp
qed

lemma unset_peers:
  assumes "env ''MQ_PEERS'' = Inl e" "read_config env = Returned (Inr cfg)"
  shows "cfg_peers cfg = fmupd 1 (''http://localhost:'' @ show_nat (unat (port (cfg_grpc_addr cfg)))) fmempty"
proof -
  have "parse_peers (''1=http://localhost:'' @ show_nat (unat (port (cfg_grpc_addr cfg)))) = Returned (cfg_peers cfg)"
    using read_config_Inr(4) [OF assms(2)] assms(1) by (simp add: env_or_def)
  then show ?thesis by (simp add: parse_localhost [unfolded append_Cons append_Nil])
qed

text \<open>With a good peer list the configuration has peers, and reading it does not panic.\<close>

lemma good_peers:
  assumes "\<And>n a. (n, a) \<in> set ps \<Longrightarrow> CHR '','' \<notin> set a \<and> trimmed a" and "ps \<noteq> []"
    and "env ''MQ_PEERS'' = Inl e \<or> env ''MQ_PEERS'' = Inr (show_peers ps)"
  shows "\<exists>m. parse_peers (env_or env ''MQ_PEERS'' (''1=http://localhost:'' @ show_nat n)) = Returned m \<and> m \<noteq> fmempty"
proof -
  have one: "fmupd k v m \<noteq> fmempty" for k :: u64 and v :: string and m
    by (metis fmempty_lookup fmupd_lookup option.discI)
  have "fold (\<lambda>(k, v). fmupd k v) ps m \<noteq> fmempty" for m
    using assms(2) one by (cases ps rule: rev_cases) auto
  moreover have "parse_peers (show_peers ps) = Returned (fold (\<lambda>(k, v). fmupd k v) ps fmempty)"
    using assms(1) by (rule parse_show_peers)
  ultimately show ?thesis using assms(3) parse_localhost [of n] one by (auto simp: env_or_def)
qed

section \<open>A process that can start\<close>

text \<open>Calls that succeed and count; a Raft instance is the number of calls before it.\<close>

definition idle_calls :: "nat \<Rightarrow> ('e, 'a) result \<Rightarrow> 'ch memory \<times> nat \<Rightarrow> ('e, 'a) result \<times> 'ch memory \<times> nat" where
  "idle_calls n r s = (r, fst s, snd s + n)"

definition idle_api :: "(string, nat, nat, SocketAddr, unit, unit, nat, nat, nat) host_api" where
  "idle_api =
     \<lparr>create_dir_all = (\<lambda>dir. idle_calls 1 (Inr ())), engine_open = (\<lambda>dir. idle_calls 1 (Inr dir)),
      config_default = \<lparr>heartbeat_interval = 50, election_timeout_min = 150, election_timeout_max = 300\<rparr>,
      config_validate = Inr, default_membership = 0,
      node_raft_new = (\<lambda>n c net log machine s. (Inr (snd s), s)),
      queue_raft_new = (\<lambda>n c net log machine s. (Inr (snd s), s)),
      tcp_bind = (\<lambda>a. idle_calls 0 (Inr a))\<rparr>"

definition empty_memory :: "unit memory" where
  "empty_memory = \<lparr>mem_directories = (\<lambda>_. mutex_new NodeDirectory_default), mem_queues = fresh_heap,
     mem_channels = (\<lambda>_. mutex_new fmempty), mem_next = 0\<rparr>"

abbreviation unset :: environment where
  "unset \<equiv> (\<lambda>_. Inl NotPresent)"

lemma default_addresses:
  "parse_socket_addr ''0.0.0.0:5001'' = Inr (V4 [0, 0, 0, 0] 5001)"
  "parse_socket_addr ''0.0.0.0:5080'' = Inr (V4 [0, 0, 0, 0] 5080)"
  using parse_show_v4 [of 0 0 0 0 5001] parse_show_v4 [of 0 0 0 0 5080]
  by (simp_all add: show_ipv4_def show_nat_literals)

lemma default_config:
  "read_config unset = Returned (Inr
     \<lparr>cfg_node_id = ''node-1'', cfg_node_num = 1, cfg_grpc_addr = V4 [0, 0, 0, 0] 5001,
      cfg_http_addr = V4 [0, 0, 0, 0] 5080, cfg_peers = fmupd 1 ''http://localhost:5001'' fmempty,
      cfg_data_dir = ''./data/node-1''\<rparr>)" (is "_ = Returned (Inr ?cfg)")
proof -
  have "parse_u64 ''1'' = Inr 1" using parse_show_u64 [of 1] by (simp add: show_nat_literals)
  moreover have "parse_peers ''1=http://localhost:5001'' = Returned (fmupd 1 ''http://localhost:5001'' fmempty)"
    using parse_show_peers [of "[(1, ''http://localhost:5001'')]"] trimmed_localhost [of 5001]
    by (simp add: show_nat_literals)
  ultimately show ?thesis by (simp add: read_config_def env_or_def default_addresses show_nat_literals Let_def)
qed

lemma default_start:
  obtains host s where "main_start idle_api unset (empty_memory, 0) = (Returned (Inr host), s)"
    "host_tasks host = [BootstrapTask Nodes (fmupd 1 ''http://localhost:5001'' fmempty),
       BootstrapTask Spam (fmupd 1 ''http://localhost:5001'' fmempty),
       RegisterTask (UpsertNode 1 ''http://localhost:5001'')]"
    "ss_queue_state (host_status host) = 1"
proof -
  have "bootstraps 1 (fmupd 1 a fmempty) = Returned True" for a
  proof -
    have "fmupd (1 :: u64) a fmempty \<noteq> fmempty" by (metis fmempty_lookup fmupd_lookup option.discI)
    with bootstraps_verdict [of "fmupd 1 a fmempty" 1] show ?thesis by simp
  qed
  then show thesis
    by (intro that)
       (simp add: main_start_def default_config start_nodes_def start_queue_def start_services_def
        question_def log_store_open_def idle_api_def idle_calls_def new_directory_def new_queues_def
        new_channels_def Let_def empty_memory_def spawned_def self_address_def)+
qed

section \<open>Properties\<close>

text \<open>
  C33: the parts of a started host see one queue. The state machine that \<open>main\<close> hands to the
  queue group's Raft instance works on the very cell that the gRPC service and the status
  page read: whatever entries that machine applies, both views report the depths of the
  resulting queues under the configured name.
\<close>

theorem host_parts_share_the_queue:
  assumes "main_start api env s = (Returned (Inr host), s')"
  shows "\<exists>cfg machine. read_config env = Returned (Inr cfg) \<and>
    queue_started api cfg machine (queue_raft (host_rpc host)) \<and>
    (\<forall>checks h v es rs w nl ql.
       h (sm_state machine) = mutex_new v \<longrightarrow>
       replay (QueueState_apply checks) QueueResponse_default v es = (Returned rs, w) \<longrightarrow>
       (\<exists>h' machine'. sm_apply checks h machine es = (Returned (Inr rs), h', machine') \<and>
          status_once (host_status host) h' nl ql = Returned
            \<lparr>sp_node_id = cfg_node_id cfg, sp_queue_depths = depths w,
             sp_nodes_group_leader = nl, sp_queue_group_leader = ql\<rparr> \<and>
          (\<exists>u. watch_status_tick (host_service host) h' nl ql = Returned u \<and> upd_queue_depths u = depths w)))"
proof -
  from assms obtain cfg nr qr cell s1 s2 where m: "read_config env = Returned (Inr cfg)"
    "start_queue api cfg s1 = (Returned (Inr (qr, cell)), s2)"
    "start_services api cfg nr qr cell s2 = (Returned (Inr host), s')" by (rule main_start_Inr)
  from m(3) have host: "queue_raft (host_rpc host) = qr"
    "host_status host = \<lparr>ss_node_id = cfg_node_id cfg, ss_queue_state = cell\<rparr>"
    "same_node (host_service host) (host_status host)" by (auto elim!: start_services_Inr)
  let ?machine = "StateMachineStore_new (default_membership api) cell"
  have cell: "sm_state ?machine = cell" by (simp add: StateMachineStore_new_def)
  have runs: "\<exists>h' machine'. sm_apply checks h ?machine es = (Returned (Inr rs), h', machine') \<and> h' cell = mutex_new w"
    if "h cell = mutex_new v" "replay (QueueState_apply checks) QueueResponse_default v es = (Returned rs, w)"
    for checks h v es rs w
    using queue_sm.loop_replay [of h ?machine v checks es rs w "[]"] that cell by (simp add: sm_apply_def)
  have views: "status_once (host_status host) h nl ql = Returned
      \<lparr>sp_node_id = cfg_node_id cfg, sp_queue_depths = depths w, sp_nodes_group_leader = nl, sp_queue_group_leader = ql\<rparr>
    \<and> (\<exists>u. watch_status_tick (host_service host) h nl ql = Returned u \<and> upd_queue_depths u = depths w)"
    if "h cell = mutex_new w" for h w nl ql
    using host(2,3) that
    by (simp add: status_once_def StatusState_payload_def watch_status_tick_def same_node_def with_lock_def)
  show ?thesis
    by (rule exI [of _ cfg], rule exI [of _ ?machine], intro conjI allI impI)
       (use m(1) start_queue_Inr [OF m(2)] host(1) cell runs views in \<open>simp, simp, metis\<close>)
qed

theorem host_parts_share_the_queue_witness:
  "\<exists>host s'. main_start idle_api unset (empty_memory, 0) = (Returned (Inr host), s') \<and>
     (\<exists>cfg machine. read_config unset = Returned (Inr cfg) \<and>
        queue_started idle_api cfg machine (queue_raft (host_rpc host)))"
proof -
  obtain host s' where "main_start idle_api unset (empty_memory, 0) = (Returned (Inr host), s')"
    by (rule default_start)
  with host_parts_share_the_queue [OF this] show ?thesis by metis
qed

text \<open>
  C32: the two Raft groups of a started host are separate. Each was created with its own
  network tag and a log opened in its own directory under the data directory, on a fresh
  cell that holds the default state; the node bootstraps both groups or neither, the one
  with the smallest id only, and registers itself once.
\<close>

theorem host_groups_are_separate:
  assumes "main_start api env s = (Returned (Inr host), s')"
  shows "\<exists>cfg machine. read_config env = Returned (Inr cfg) \<and>
    nodes_started api cfg (node_raft (host_rpc host)) \<and>
    queue_started api cfg machine (queue_raft (host_rpc host)) \<and>
    host_tasks host =
      (if cfg_node_num cfg |\<in>| fmdom (cfg_peers cfg) \<and>
          (\<forall>n \<in> fset (fmdom (cfg_peers cfg)). cfg_node_num cfg \<le> n)
       then [BootstrapTask Nodes (cfg_peers cfg), BootstrapTask Spam (cfg_peers cfg)] else []) @
      [RegisterTask (UpsertNode (cfg_node_num cfg)
         (case fmlookup (cfg_peers cfg) (cfg_node_num cfg) of
            Some a \<Rightarrow> a | None \<Rightarrow> show_socket_addr (cfg_grpc_addr cfg)))]"
proof -
  from assms obtain cfg nr qr cell s1 s2 where m: "read_config env = Returned (Inr cfg)"
    "start_nodes api cfg s = (Returned (Inr nr), s1)"
    "start_queue api cfg s1 = (Returned (Inr (qr, cell)), s2)"
    "start_services api cfg nr qr cell s2 = (Returned (Inr host), s')" by (rule main_start_Inr)
  from m(4) obtain is_lowest where host: "bootstraps (cfg_node_num cfg) (cfg_peers cfg) = Returned is_lowest"
    "host_tasks host = spawned cfg is_lowest" "host_rpc host = \<lparr>node_raft = nr, queue_raft = qr\<rparr>"
    by (auto elim!: start_services_Inr)
  from host(1) bootstraps_verdict [of "cfg_peers cfg" "cfg_node_num cfg"]
  have "is_lowest = (cfg_node_num cfg |\<in>| fmdom (cfg_peers cfg) \<and>
      (\<forall>n \<in> fset (fmdom (cfg_peers cfg)). cfg_node_num cfg \<le> n))"
    by (cases "cfg_peers cfg = fmempty") auto
  with m(1) start_nodes_Inr [OF m(2)] start_queue_Inr [OF m(3)] host(2,3) show ?thesis
    unfolding spawned_def self_address_def by (intro exI conjI) auto
qed

theorem host_groups_are_separate_witness:
  "\<exists>host s'. main_start idle_api unset (empty_memory, 0) = (Returned (Inr host), s') \<and>
     last (host_tasks host) = RegisterTask (UpsertNode 1 ''http://localhost:5001'')"
proof -
  obtain host s' where m: "main_start idle_api unset (empty_memory, 0) = (Returned (Inr host), s')"
    by (rule default_start)
  from host_groups_are_separate [OF m] m show ?thesis
    unfolding default_config by (auto simp: last_append)
qed

text \<open>
  With \<open>MQ_PEERS\<close> unset a node starts a cluster of its own at the port it listens on:
  the peer list has node 1 at that port of localhost and nobody else, so node 1 bootstraps
  and no other node does, and a node of another number registers its bare listening address.
\<close>

theorem unset_peers_are_localhost:
  assumes "env ''MQ_PEERS'' = Inl e" and "read_config env = Returned (Inr cfg)"
  shows "cfg_peers cfg = fmupd 1 (''http://localhost:'' @ show_nat (unat (port (cfg_grpc_addr cfg)))) fmempty
    \<and> bootstraps (cfg_node_num cfg) (cfg_peers cfg) = Returned (cfg_node_num cfg = 1)
    \<and> (cfg_node_num cfg \<noteq> 1 \<longrightarrow>
        self_address (cfg_node_num cfg) (cfg_peers cfg) (show_socket_addr (cfg_grpc_addr cfg)) =
          show_socket_addr (cfg_grpc_addr cfg))"
proof -
  note peers = unset_peers [OF assms]
  then have "cfg_peers cfg \<noteq> fmempty" by (metis fmempty_lookup fmupd_lookup option.discI)
  with bootstraps_verdict [of "cfg_peers cfg" "cfg_node_num cfg"] peers show ?thesis
    by (auto simp: self_address_def)
qed

theorem unset_peers_are_localhost_witness:
  "bootstraps 1 (fmupd 1 ''http://localhost:5001'' fmempty) = Returned True"
  using unset_peers_are_localhost [OF _ default_config] by (simp add: show_nat_literals)

text \<open>
  C35: the start-up panics for nothing but its peer list. With \<open>MQ_PEERS\<close> unset, or written
  in the documented format with at least one entry, \<open>main\<close> starts the host or returns an
  error, whatever the environment holds otherwise and whatever the file system, raft-engine,
  openraft and the listener answer.
\<close>

theorem good_peers_never_panic:
  assumes "\<And>n a. (n, a) \<in> set ps \<Longrightarrow> CHR '','' \<notin> set a \<and> trimmed a" and "ps \<noteq> []"
    and "env ''MQ_PEERS'' = Inl e \<or> env ''MQ_PEERS'' = Inr (show_peers ps)"
  shows "\<exists>r s'. main_start api env s = (Returned r, s')"
proof -
  have good: "\<exists>m. parse_peers (env_or env ''MQ_PEERS'' (''1=http://localhost:'' @ show_nat n)) = Returned m \<and> m \<noteq> fmempty"
    for n using assms by (intro good_peers [where ps = ps and e = e]) auto
  have "read_config env \<noteq> Panicked p" for p
    using good read_config_panics [of env p] by (metis outcome.distinct(1))
  moreover have "cfg_peers cfg \<noteq> fmempty" if "read_config env = Returned (Inr cfg)" for cfg
    using good [of "unat (port (cfg_grpc_addr cfg))"] read_config_Inr(4) [OF that] by auto
  ultimately have "main_start api env s \<noteq> (Panicked p, s')" for p s'
    using main_start_panics [of api env s p s'] by blast
  then show ?thesis by (metis outcome.exhaust surj_pair)
qed

theorem good_peers_never_panic_witness:
  "\<exists>r s'. main_start idle_api (\<lambda>name. if name = ''MQ_PEERS'' then Inr ''1=a,0=b'' else Inl NotPresent)
     (empty_memory, 0) = (Returned r, s')"
proof -
  have "trimmed ''a''" "trimmed ''b''" unfolding trimmed_def leading_def white_space_def by code_simp+
  then show ?thesis
    by (intro good_peers_never_panic [where ps = "[(1, ''a''), (0, ''b'')]" and e = NotPresent])
       (auto simp: show_nat_literals)
qed

end
