(* ===== verification/Durable.thy ===== *)
theory Durable
  imports Log_Store Replicated_Sm
begin

text \<open>
  The log store and a state machine of a node together: entries are logged, committed,
  applied and answered, votes are saved in between, and the process may stop at any point and
  start again with an empty machine on the same log. A node of a larger cluster may also
  replace entries that are not committed yet, as Raft lets it. Stated once for the two Raft
  groups of a node, whose machines interpret the locale in \<open>Restarts\<close>.
\<close>

section \<open>Starting again from the log\<close>

text \<open>
  openraft reads the entries from \<open>first\<close> up to \<open>stop\<close> and applies them to the state
  machine that \<open>main.rs\<close> has just created. The result is that of the application, if the
  read succeeded.
\<close>

definition startup_replay where
  "startup_replay checks api js apply_entries e first stop h machine =
     (case try_get_log_entries checks api js e (Included first) (Excluded stop) of
        Returned (Inr es) \<Rightarrow> Some (apply_entries h machine es)
      | _ \<Rightarrow> None)"

text \<open>
  What openraft does when it is created on a store and a machine that has applied nothing: it
  applies the log from its beginning up to the committed id that the store reads back, and
  nothing if there is none.
\<close>

definition recover where
  "recover checks api js apply_entries e h machine =
     (case read_committed api js e of
        Inl err \<Rightarrow> None
      | Inr None \<Rightarrow> Some (Returned (Inr []), h, machine)
      | Inr (Some c) \<Rightarrow> startup_replay checks api js apply_entries e 0 (index c + 1) h machine)"

lemma startup_replay_range:
  assumes "raft_engine api kv ents ok" and "codecs_ok js" and "stores kv ents ok js e a"
    and "first \<le> stop"
    and "\<And>i. \<lbrakk>first \<le> i; i < stop\<rbrakk> \<Longrightarrow> i \<in> entry_index ` set (rl_entries a)"
  shows "startup_replay checks api js apply_entries e first stop h s =
    Some (apply_entries h s (filter (\<lambda>x. first \<le> entry_index x \<and> entry_index x < stop) (rl_entries a)))"
  using log_store.try_get_stored [OF log_storeI [OF assms(1,2)] assms(3) _ _ assms(4,5),
      of checks "Included first" "Excluded stop"]
  by (simp add: startup_replay_def)

text \<open>Once a prefix of the log is purged, the rest alone cannot be recovered from.\<close>

lemma recover_compacted:
  assumes "raft_engine api kv ents ok" "codecs_ok js" "stores kv ents ok js e a"
    and "rl_entries a \<noteq> []" "0 < entry_index (hd (rl_entries a))"
    and "rl_committed a = Some c" "index c \<noteq> u64_max"
  shows "recover checks api js apply_entries e h s = None"
proof -
  note store = log_storeI [OF assms(1,2)]
  have "unat (index c + 1) = Suc (unat (index c))" by (rule unat_Suc_u64 [OF assms(7)])
  then have "0 < index c + 1" by (simp add: word_less_nat_alt)
  then obtain err where "try_get_log_entries checks api js e (Included 0) (Excluded (index c + 1)) = Returned (Inl err)"
    using log_store.try_get_compacted [OF store assms(3,4), of checks "Included 0" 0 "Excluded (index c + 1)"] assms(5)
    by auto
  then show ?thesis
    using log_store.read_committed_stored [OF store assms(3)] assms(6) by (simp add: recover_def startup_replay_def)
qed

section \<open>A node that restarts\<close>

text \<open>
  Besides the engine, the cells and the machine, the state records the entries in the store,
  how many of them were saved as committed, how many the running process has applied, and
  which answers were given, by entry.
\<close>

record ('e, 'st, 's, 'lid, 'c, 'r, 'mem) durable =
  du_engine :: 'e
  du_heap :: "'st heap"
  du_machine :: 's
  du_log :: "('lid, 'c, 'mem) Entry list"
  du_committed :: nat
  du_applied :: nat
  du_answers :: "(nat \<times> 'r) list"

text \<open>
  Batches are appended at the end or over entries that are not committed; a truncation is
  left to the append that follows it. The committed id goes forward to an entry of the log
  and is saved before the entries up to it are applied. \<open>fresh\<close> is the machine's
  constructor and \<open>initial\<close> the value that \<open>main.rs\<close> puts into its cell.
\<close>

inductive durable_step ::
  "bool \<Rightarrow> ('e, 'b) engine_api \<Rightarrow> ('lid, 'c, 'mem, 'vote) log_codecs
     \<Rightarrow> ('st heap \<Rightarrow> 's \<Rightarrow> ('lid, 'c, 'mem) Entry list
          \<Rightarrow> (StorageError, 'r list) result outcome \<times> 'st heap \<times> 's)
     \<Rightarrow> (addr \<Rightarrow> 's) \<Rightarrow> 'st
     \<Rightarrow> ('e, 'st, 's, 'lid, 'c, 'r, 'mem) durable \<Rightarrow> ('e, 'st, 's, 'lid, 'c, 'r, 'mem) durable \<Rightarrow> bool"
  for checks api js apply_entries fresh initial where
  logs:
    "\<lbrakk>es \<noteq> []; du_committed s \<le> k; k \<le> length (du_log s); k + length es < 2 ^ 64;
      \<forall>i<length es. entry_index (es ! i) = of_nat (k + i);
      log_append api js (du_engine s) es = (Inr (), e, reports)\<rbrakk> \<Longrightarrow>
     durable_step checks api js apply_entries fresh initial s
       (s\<lparr>du_engine := e, du_log := take k (du_log s) @ es\<rparr>)"
| truncates:
    "log_truncate api (du_engine s) (lid :: 'lid LogId) = (Inr (), e) \<Longrightarrow>
     durable_step checks api js apply_entries fresh initial s (s\<lparr>du_engine := e\<rparr>)"
| votes:
    "save_vote api js (du_engine s) v = (Inr (), e) \<Longrightarrow>
     durable_step checks api js apply_entries fresh initial s (s\<lparr>du_engine := e\<rparr>)"
| commits:
    "\<lbrakk>du_committed s \<le> Suc n; n < length (du_log s);
      save_committed api js (du_engine s) (Some (log_id (du_log s ! n))) = (Inr (), e)\<rbrakk> \<Longrightarrow>
     durable_step checks api js apply_entries fresh initial s (s\<lparr>du_engine := e, du_committed := Suc n\<rparr>)"
| applies:
    "\<lbrakk>du_applied s \<le> n; n \<le> du_committed s;
      apply_entries (du_heap s) (du_machine s) (drop (du_applied s) (take n (du_log s))) =
        (Returned (Inr rs), h, m)\<rbrakk> \<Longrightarrow>
     durable_step checks api js apply_entries fresh initial s
       (s\<lparr>du_heap := h, du_machine := m, du_applied := n,
          du_answers := zip [du_applied s..<n] rs @ du_answers s\<rparr>)"
| restarts:
    "\<lbrakk>h cell = mutex_new initial;
      recover checks api js apply_entries (du_engine s) h (fresh cell) = Some (Returned (Inr rs), h', m)\<rbrakk> \<Longrightarrow>
     durable_step checks api js apply_entries fresh initial s
       (s\<lparr>du_heap := h', du_machine := m, du_applied := du_committed s\<rparr>)"

definition durable_start :: "'e \<Rightarrow> 'st heap \<Rightarrow> 's \<Rightarrow> ('e, 'st, 's, 'lid, 'c, 'r, 'mem) durable" where
  "durable_start e h m =
     \<lparr>du_engine = e, du_heap = h, du_machine = m, du_log = [], du_committed = 0, du_applied = 0, du_answers = []\<rparr>"

definition committed_log :: "('e, 'st, 's, 'lid, 'c, 'r, 'mem) durable \<Rightarrow> ('lid, 'c, 'mem) Entry list" where
  "committed_log s = take (du_committed s) (du_log s)"

fun committed_id :: "('lid, 'c, 'mem) Entry list \<Rightarrow> nat \<Rightarrow> 'lid LogId option" where
  "committed_id l 0 = None"
| "committed_id l (Suc n) = Some (log_id (l ! n))"

section \<open>What the log says\<close>

text \<open>The answers and the state that a log has from the initial value on.\<close>

definition replay_answers ::
  "('st \<Rightarrow> 'c \<Rightarrow> 'r outcome \<times> 'st) \<Rightarrow> 'r \<Rightarrow> 'st \<Rightarrow> ('lid, 'c, 'mem) Entry list \<Rightarrow> 'r list" where
  "replay_answers f d v es = (case fst (replay f d v es) of Returned rs \<Rightarrow> rs | Panicked p \<Rightarrow> [])"

definition replay_state ::
  "('st \<Rightarrow> 'c \<Rightarrow> 'r outcome \<times> 'st) \<Rightarrow> 'r \<Rightarrow> 'st \<Rightarrow> ('lid, 'c, 'mem) Entry list \<Rightarrow> 'st" where
  "replay_state f d v es = snd (replay f d v es)"

lemma replay_Nil [simp]: "replay_state f d v [] = v" "replay_answers f d v [] = []"
  by (simp_all add: replay_state_def replay_answers_def)

text \<open>Raft's log begins at index 0: an entry's index is its place.\<close>

definition numbered :: "('lid, 'c, 'mem) Entry list \<Rightarrow> bool" where
  "numbered es \<longleftrightarrow> (\<forall>i<length es. unat (entry_index (es ! i)) = i) \<and> length es < 2 ^ 64"

lemma numberedD:
  assumes "numbered es"
  shows "\<And>i. i < length es \<Longrightarrow> unat (entry_index (es ! i)) = i" "length es < 2 ^ 64"
  using assms by (simp_all add: numbered_def)

lemma numbered_replace:
  assumes "numbered l" "k \<le> length l" "k + length es < 2 ^ 64" "\<forall>i<length es. entry_index (es ! i) = of_nat (k + i)"
  shows "numbered (take k l @ es)"
  unfolding numbered_def
proof (intro conjI allI impI)
  fix i
  assume i: "i < length (take k l @ es)"
  show "unat (entry_index ((take k l @ es) ! i)) = i"
  proof (cases "i < k")
    case True
    with numberedD(1) [OF assms(1)] assms(2) show ?thesis by (simp add: nth_append)
  next
    case False
    then have "i - k < length es" "k + (i - k) = i" using i assms(2) by auto
    with assms(2-4) False show ?thesis by (simp add: nth_append unat_of_nat_u64 del: of_nat_add)
  qed
qed (use assms(2,3) in simp)

text \<open>Such a batch leaves no hole, and an append keeps what is before it.\<close>

lemma numbered_no_hole:
  assumes "numbered l" "numbered (take k l @ es)" "k \<le> length l" "es \<noteq> []"
  shows "no_hole l es" "takeWhile (\<lambda>y. entry_index y < entry_index (hd es)) l = take k l"
proof -
  have ix: "unat (entry_index (es ! i)) = k + i" if "i < length es" for i
    using numberedD(1) [OF assms(2), of "k + i"] that assms(3) by (simp add: nth_append)
  note il = numberedD(1) [OF assms(1)]
  have hd: "unat (entry_index (hd es)) = k" using ix [of 0] assms(4) by (simp add: hd_conv_nth)
  show "no_hole l es"
    using ix il [of 0] il [of "length l - 1"] hd assms(3,4)
    by (cases "l = []") (auto simp: no_hole_def hd_conv_nth [of l] last_conv_nth)
  show "takeWhile (\<lambda>y. entry_index y < entry_index (hd es)) l = take k l"
    by (rule takeWhile_eq_take_P_nth) (use il hd in \<open>auto simp: word_less_nat_alt\<close>)
qed

lemma numbered_prefix:
  assumes "numbered l" "n < length l"
  shows "filter (\<lambda>x. 0 \<le> entry_index x \<and> entry_index x < entry_index (l ! n) + 1) l = take (Suc n) l"
    and "\<And>i. i < entry_index (l ! n) + 1 \<Longrightarrow> i \<in> entry_index ` set l"
proof -
  note il = numberedD(1) [OF assms(1)]
  have stop: "unat (entry_index (l ! n) + 1) = Suc n"
    using il [OF assms(2)] assms(2) numberedD(2) [OF assms(1)] by (simp add: unat_word_ariths)
  have "filter (\<lambda>x. entry_index x < entry_index (l ! n) + 1) (take (Suc n) l) = take (Suc n) l"
    using il by (auto simp: filter_id_conv in_set_conv_nth word_less_nat_alt stop)
  moreover have "filter (\<lambda>x. entry_index x < entry_index (l ! n) + 1) (drop (Suc n) l) = []"
    using il by (auto simp: filter_empty_conv in_set_conv_nth word_less_nat_alt stop)
  ultimately have "filter (\<lambda>x. entry_index x < entry_index (l ! n) + 1) (take (Suc n) l @ drop (Suc n) l) = take (Suc n) l"
    unfolding filter_append by simp
  then show "filter (\<lambda>x. 0 \<le> entry_index x \<and> entry_index x < entry_index (l ! n) + 1) l = take (Suc n) l" by simp
  fix i :: u64
  assume "i < entry_index (l ! n) + 1"
  then have "unat i < length l" using assms(2) by (simp add: word_less_nat_alt stop)
  then have "i = entry_index (l ! unat i)" using il by (simp add: word_unat_eq_iff)
  with \<open>unat i < length l\<close> show "i \<in> entry_index ` set l" by auto
qed

text \<open>A numbered log is read back up to its committed entry.\<close>

lemma recover_numbered:
  assumes "raft_engine api kv ents ok" "codecs_ok js" "stores kv ents ok js e a" "numbered (rl_entries a)"
    and "n < length (rl_entries a)" "rl_committed a = Some (log_id (rl_entries a ! n))"
  shows "recover checks api js apply_entries e h s = Some (apply_entries h s (take (Suc n) (rl_entries a)))"
proof -
  note store = log_storeI [OF assms(1,2)]
  let ?stop = "entry_index (rl_entries a ! n) + 1"
  have "startup_replay checks api js apply_entries e 0 ?stop h s =
      Some (apply_entries h s (filter (\<lambda>x. 0 \<le> entry_index x \<and> entry_index x < ?stop) (rl_entries a)))"
    by (rule startup_replay_range [OF assms(1-3)]) (simp_all add: numbered_prefix(2) [OF assms(4,5)])
  then show ?thesis
    unfolding numbered_prefix(1) [OF assms(4,5)]
    using log_store.read_committed_stored [OF store assms(3)] assms(6) by (simp add: recover_def)
qed

section \<open>The invariant\<close>

text \<open>
  What durability needs of a machine besides the apply loop: batches go through that loop, a
  new machine uses the cell it is given, and a log that a \<open>u64\<close> can count replays from the
  initial value without a panic.
\<close>

locale durable_machine =
  raft_state_machine cmd dflt apply_loop cell applied members stored record_entry
  for cmd :: "'st \<Rightarrow> 'c \<Rightarrow> 'r outcome \<times> 'st"
    and dflt :: 'r
    and apply_loop :: "'st heap \<Rightarrow> 's \<Rightarrow> ('lid, 'c, 'mem) Entry list \<Rightarrow> 'r list
       \<Rightarrow> (StorageError, 'r list) result outcome \<times> 'st heap \<times> 's"
    and cell :: "'s \<Rightarrow> addr"
    and applied :: "'s \<Rightarrow> 'lid LogId option"
    and members :: "'s \<Rightarrow> ('lid, 'mem) StoredMembership"
    and stored :: "'s \<Rightarrow> ('lid, 'mem) StoredSnapshot option"
    and record_entry :: "('lid, 'c, 'mem) Entry \<Rightarrow> 's \<Rightarrow> 's" +
  fixes apply_entries :: "'st heap \<Rightarrow> 's \<Rightarrow> ('lid, 'c, 'mem) Entry list
       \<Rightarrow> (StorageError, 'r list) result outcome \<times> 'st heap \<times> 's"
    and fresh :: "addr \<Rightarrow> 's"
    and initial :: 'st
  assumes apply_entries_loop: "apply_entries h s es = apply_loop h s es []"
    and fresh_cell: "cell (fresh a) = a"
    and replay_total: "length es < 2 ^ 64 \<Longrightarrow> \<exists>rs w. replay cmd dflt initial es = (Returned rs, w)"
begin

abbreviation answers_of :: "('lid, 'c, 'mem) Entry list \<Rightarrow> 'r list" where
  "answers_of \<equiv> replay_answers cmd dflt initial"

abbreviation state_of :: "('lid, 'c, 'mem) Entry list \<Rightarrow> 'st" where
  "state_of \<equiv> replay_state cmd dflt initial"

lemma log_replays:
  assumes "length es < 2 ^ 64"
  shows "replay cmd dflt initial es = (Returned (answers_of es), state_of es)"
    and "length (answers_of es) = length es"
proof -
  from replay_total [OF assms] obtain rs w where "replay cmd dflt initial es = (Returned rs, w)" by blast
  then show r: "replay cmd dflt initial es = (Returned (answers_of es), state_of es)"
    by (simp add: replay_answers_def replay_state_def)
  from run_cmds_length [OF r] show "length (answers_of es) = length es" .
qed

text \<open>A log that goes on: the later entries run on the state of the earlier ones and only add answers.\<close>

lemma log_goes_on:
  assumes "length (es @ fs) < 2 ^ 64"
  obtains rs where "replay cmd dflt (state_of es) fs = (Returned rs, state_of (es @ fs))"
    "answers_of (es @ fs) = answers_of es @ rs"
proof -
  have "length es < 2 ^ 64" using assms by simp
  from log_replays(1) [OF assms] log_replays(1) [OF this] that show thesis
    by (auto simp: run_cmds_append split: prod.splits outcome.splits)
qed

lemma apply_goes_on:
  assumes "h (cell m) = mutex_new (state_of es)" "length (es @ fs) < 2 ^ 64"
  obtains rs where "apply_entries h m fs = (Returned (Inr rs), h(cell m := mutex_new (state_of (es @ fs))), fold record_entry fs m)"
    "answers_of (es @ fs) = answers_of es @ rs"
proof -
  from log_goes_on [OF assms(2)] obtain rs where
    rs: "replay cmd dflt (state_of es) fs = (Returned rs, state_of (es @ fs))" "answers_of (es @ fs) = answers_of es @ rs" .
  from loop_replay [of h m, OF assms(1) rs(1), of "[]"] rs(2) that show thesis by (simp add: apply_entries_loop)
qed

definition durable_ok where
  "durable_ok kv ents ok js s \<longleftrightarrow>
     (\<exists>a. stores kv ents ok js (du_engine s) a \<and> rl_entries a = du_log s \<and>
        rl_committed a = committed_id (du_log s) (du_committed s)) \<and>
     numbered (du_log s) \<and> du_applied s \<le> du_committed s \<and> du_committed s \<le> length (du_log s) \<and>
     du_heap s (cell (du_machine s)) = mutex_new (state_of (take (du_applied s) (du_log s))) \<and>
     (\<forall>(i, r)\<in>set (du_answers s). i < du_committed s \<and> answers_of (committed_log s) ! i = r)"

lemma durable_okD:
  assumes "durable_ok kv ents ok js s"
  shows "numbered (du_log s)" "du_applied s \<le> du_committed s" "du_committed s \<le> length (du_log s)"
    "length (take n (du_log s)) < 2 ^ 64" "length (committed_log s) = du_committed s"
    "du_heap s (cell (du_machine s)) = mutex_new (state_of (take (du_applied s) (du_log s)))"
  using assms by (simp_all add: durable_ok_def numbered_def committed_log_def min_less_iff_disj)

lemma durable_ok_store:
  assumes "durable_ok kv ents ok js s"
  obtains a where "stores kv ents ok js (du_engine s) a" "rl_entries a = du_log s"
    "rl_committed a = committed_id (du_log s) (du_committed s)"
  using assms by (auto simp: durable_ok_def)

text \<open>Longer prefixes of a log keep the answers of the shorter ones.\<close>

lemma prefix_answers:
  assumes "length (take n l) < 2 ^ 64" "k \<le> n" "k \<le> length l" "i < k"
  shows "answers_of (take n l) ! i = answers_of (take k l) ! i"
proof -
  have split: "take k l @ drop k (take n l) = take n l"
    using append_take_drop_id [of k "take n l"] assms(2) by (simp add: min_def)
  obtain rs where "answers_of (take n l) = answers_of (take k l) @ rs"
    using log_goes_on [of "take k l" "drop k (take n l)"] assms(1) unfolding split by metis
  moreover have "length (answers_of (take k l)) = k" using log_replays(2) [of "take k l"] assms by simp
  ultimately show ?thesis using assms(4) by (simp add: nth_append)
qed

text \<open>A restart in a state that satisfies the invariant.\<close>

lemma restart_replays:
  assumes "raft_engine api kv ents ok" "codecs_ok js" "durable_ok kv ents ok js s" "h a = mutex_new initial"
  shows "recover checks api js apply_entries (du_engine s) h (fresh a) =
    Some (Returned (Inr (answers_of (committed_log s))), h(a := mutex_new (state_of (committed_log s))),
      fold record_entry (committed_log s) (fresh a))"
proof -
  obtain l where l: "stores kv ents ok js (du_engine s) l" "rl_entries l = du_log s"
    "rl_committed l = committed_id (du_log s) (du_committed s)"
    using assms(3) by (rule durable_ok_store)
  have "h (cell (fresh a)) = mutex_new (state_of [])" using assms(4) by (simp add: fresh_cell)
  from apply_goes_on [of h "fresh a" "[]" "committed_log s", OF this]
  have ap: "apply_entries h (fresh a) (committed_log s) = (Returned (Inr (answers_of (committed_log s))),
      h(a := mutex_new (state_of (committed_log s))), fold record_entry (committed_log s) (fresh a))"
    using durable_okD(4) [OF assms(3)] by (auto simp: fresh_cell committed_log_def)
  show ?thesis
  proof (cases "du_committed s")
    case 0
    with log_store.read_committed_stored [OF log_storeI [OF assms(1,2)] l(1)] l(3) assms(4) show ?thesis
      by (simp add: recover_def committed_log_def fun_upd_idem)
  next
    case (Suc n)
    with recover_numbered [OF assms(1,2) l(1), of n checks apply_entries h "fresh a"] l durable_okD(1,3) [OF assms(3)] ap
    show ?thesis by (simp add: committed_log_def)
  qed
qed

lemma logs_ok:
  assumes e: "raft_engine api kv ents ok" "codecs_ok js" and ok: "durable_ok kv ents ok js s"
    and k: "es \<noteq> []" "du_committed s \<le> k" "k \<le> length (du_log s)" "k + length es < 2 ^ 64"
      "\<forall>i<length es. entry_index (es ! i) = of_nat (k + i)"
    and ap: "log_append api js (du_engine s) es = (Inr (), e', reports)"
  shows "durable_ok kv ents ok js (s\<lparr>du_engine := e', du_log := take k (du_log s) @ es\<rparr>)"
proof -
  let ?l = "du_log s"
  obtain a where a: "stores kv ents ok js (du_engine s) a" "rl_entries a = ?l"
    "rl_committed a = committed_id ?l (du_committed s)"
    using ok by (rule durable_ok_store)
  note num = numbered_replace [OF durable_okD(1) [OF ok] k(3-5)]
  note hole = numbered_no_hole [OF durable_okD(1) [OF ok] num k(3,1)]
  have "stores kv ents ok js e' (spec_append es a)"
    using log_store.append_stored [OF log_storeI [OF e] a(1) ap] hole(1) by (simp add: a(2))
  moreover have "rl_entries (spec_append es a) = take k ?l @ es" using hole(2) by (simp add: spec_append_def a(2))
  moreover have "rl_committed (spec_append es a) =
      committed_id (take k ?l @ es) (du_committed s)"
    using a(3) k(2,3) by (cases "du_committed s") (simp_all add: spec_append_def nth_append)
  moreover have "take n (take k ?l @ es) = take n ?l" if "n \<le> du_committed s" for n
    using that k(2,3) by simp
  ultimately show ?thesis
    using ok num k(2,3) by (auto simp: durable_ok_def committed_log_def)
qed

lemma commits_ok:
  assumes e: "raft_engine api kv ents ok" "codecs_ok js" and ok: "durable_ok kv ents ok js s"
    and n: "du_committed s \<le> Suc n" "n < length (du_log s)"
    and c: "save_committed api js (du_engine s) (Some (log_id (du_log s ! n))) = (Inr (), e')"
  shows "durable_ok kv ents ok js (s\<lparr>du_engine := e', du_committed := Suc n\<rparr>)"
proof -
  obtain a where a: "stores kv ents ok js (du_engine s) a" "rl_entries a = du_log s"
    using ok by (rule durable_ok_store)
  have "stores kv ents ok js e' (a\<lparr>rl_committed := Some (log_id (du_log s ! n))\<rparr>)"
    by (rule log_store.save_committed_stored [OF log_storeI [OF e] a(1) c])
  moreover have "answers_of (take (Suc n) (du_log s)) ! i = answers_of (committed_log s) ! i" if "i < du_committed s" for i
    unfolding committed_log_def by (rule prefix_answers [OF durable_okD(4) [OF ok] n(1) durable_okD(3) [OF ok] that])
  ultimately show ?thesis
    using ok n a(2)
    by (fastforce simp: durable_ok_def committed_log_def intro!: exI [of _ "a\<lparr>rl_committed := Some (log_id (du_log s ! n))\<rparr>"])
qed

lemma applies_ok:
  assumes ok: "durable_ok kv ents ok js s" and n: "du_applied s \<le> n" "n \<le> du_committed s"
    and ap: "apply_entries (du_heap s) (du_machine s) (drop (du_applied s) (take n (du_log s))) = (Returned (Inr rs), h, m)"
  shows "durable_ok kv ents ok js (s\<lparr>du_heap := h, du_machine := m, du_applied := n,
    du_answers := zip [du_applied s..<n] rs @ du_answers s\<rparr>)"
proof -
  let ?k = "du_applied s" and ?l = "du_log s"
  let ?fs = "drop ?k (take n ?l)"
  have split: "take ?k ?l @ ?fs = take n ?l" using append_take_drop_id [of ?k "take n ?l"] n(1) by (simp add: min_def)
  note short = durable_okD(4) [OF ok] and le = durable_okD(3) [OF ok]
  from apply_goes_on [of "du_heap s" "du_machine s" _ ?fs, OF durable_okD(6) [OF ok]] obtain
    r: "h = (du_heap s)(cell (du_machine s) := mutex_new (state_of (take n ?l)))" "m = fold record_entry ?fs (du_machine s)"
    "answers_of (take n ?l) = answers_of (take ?k ?l) @ rs"
    using ap short [of n] unfolding split by fastforce
  have len: "length (answers_of (take ?k ?l)) = ?k" "length rs = n - ?k"
    using log_replays(2) [OF short [of ?k]] log_replays(2) [OF short [of n]] n le r(3) by simp_all
  have "i < du_committed s \<and> answers_of (committed_log s) ! i = x" if "(i, x) \<in> set (zip [?k..<n] rs)" for i x
  proof -
    from that have i: "?k \<le> i" "i < n" "x = rs ! (i - ?k)" by (auto simp: in_set_zip len(2))
    have "answers_of (committed_log s) ! i = answers_of (take n ?l) ! i"
      unfolding committed_log_def using prefix_answers [OF short n(2) _ i(2)] n(2) le by simp
    with i n(2) show ?thesis by (simp add: r(3) nth_append len(1))
  qed
  with ok n show ?thesis by (auto simp: durable_ok_def committed_log_def r(1,2) fold_record)
qed

lemma durable_step_ok:
  assumes e: "raft_engine api kv ents ok" "codecs_ok js"
    and st: "durable_step checks api js apply_entries fresh initial s s'" and ok: "durable_ok kv ents ok js s"
  shows "durable_ok kv ents ok js s'"
  using st
proof cases
  case (logs es k e' reports)
  with logs_ok [OF e ok] show ?thesis by blast
next
  case (truncates lid e')
  with ok show ?thesis by (simp add: log_truncate_def durable_ok_def committed_log_def)
next
  case (votes v e')
  with ok log_store.save_vote_stored [OF log_storeI [OF e]] show ?thesis
    by (fastforce simp: durable_ok_def committed_log_def)
next
  case (commits n e')
  with commits_ok [OF e ok] show ?thesis by blast
next
  case (applies n rs h m)
  with applies_ok [OF ok] show ?thesis by blast
next
  case (restarts h a rs h' m)
  with restart_replays [OF e ok, of h a] ok show ?thesis
    by (auto simp: durable_ok_def committed_log_def fold_record fresh_cell)
qed

lemma durable_reach_ok:
  assumes "raft_engine api kv ents ok" "codecs_ok js" "stores kv ents ok js e empty_log"
    and "h (cell m) = mutex_new initial"
    and "(durable_step checks api js apply_entries fresh initial)\<^sup>*\<^sup>* (durable_start e h m) s"
  shows "durable_ok kv ents ok js s"
  using assms(5)
proof (induction rule: rtranclp_induct)
  case base
  from assms(3,4) show ?case
    by (auto simp: durable_ok_def durable_start_def numbered_def empty_log_def intro!: exI [of _ empty_log])
next
  case (step s t)
  then show ?case by (blast intro: durable_step_ok [OF assms(1,2)])
qed

text \<open>
  In every reachable state a restart replays the committed log, gives every answered entry its
  answer again, and, when everything committed was applied, rebuilds the running value.
\<close>

lemma restarts_agree:
  assumes "raft_engine api kv ents ok" "codecs_ok js" "stores kv ents ok js e empty_log"
    and "h (cell m) = mutex_new initial"
    and "(durable_step checks api js apply_entries fresh initial)\<^sup>*\<^sup>* (durable_start e h m) s"
    and "g a = mutex_new initial"
  shows "\<exists>t. recover checks api js apply_entries (du_engine s) g (fresh a) =
      Some (Returned (Inr (answers_of (committed_log s))), g(a := mutex_new (state_of (committed_log s))), t)"
    and "length (answers_of (committed_log s)) = du_committed s" "length (committed_log s) = du_committed s"
    and "(i, r) \<in> set (du_answers s) \<Longrightarrow> i < du_committed s \<and> answers_of (committed_log s) ! i = r"
    and "du_applied s = du_committed s \<Longrightarrow> du_heap s (cell (du_machine s)) = mutex_new (state_of (committed_log s))"
proof -
  note ok = durable_reach_ok [OF assms(1-3), of h m, OF assms(4,5)]
  from restart_replays [OF assms(1,2) ok, of g, OF assms(6)]
  show "\<exists>t. recover checks api js apply_entries (du_engine s) g (fresh a) =
      Some (Returned (Inr (answers_of (committed_log s))), g(a := mutex_new (state_of (committed_log s))), t)" by blast
  show len: "length (committed_log s) = du_committed s" by (rule durable_okD(5) [OF ok])
  show "length (answers_of (committed_log s)) = du_committed s"
    using log_replays(2) [OF durable_okD(4) [OF ok, of "du_committed s"]] len by (simp add: committed_log_def)
  show "(i, r) \<in> set (du_answers s) \<Longrightarrow> i < du_committed s \<and> answers_of (committed_log s) ! i = r"
    "du_applied s = du_committed s \<Longrightarrow> du_heap s (cell (du_machine s)) = mutex_new (state_of (committed_log s))"
    using ok by (auto simp: durable_ok_def committed_log_def)
qed

end

end
