(* ===== verification/Restarts.thy ===== *)
theory Restarts
  imports Durable Queue_Sm Node_Sm
begin

text \<open>
  Durability for the two Raft groups of a node: the queue machine and the directory machine
  interpret \<open>durable_machine\<close>. No answer that the queue group has given is contradicted by a
  restart, and a restarted directory holds every registration that was committed.
\<close>

section \<open>The two machines\<close>

abbreviation log_answers :: "bool \<Rightarrow> ('lid, QueueRequest, 'mem) Entry list \<Rightarrow> QueueResponse list" where
  "log_answers checks \<equiv> replay_answers (QueueState_apply checks) QueueResponse_default QueueState_default"

abbreviation log_state :: "bool \<Rightarrow> ('lid, QueueRequest, 'mem) Entry list \<Rightarrow> QueueState" where
  "log_state checks \<equiv> replay_state (QueueState_apply checks) QueueResponse_default QueueState_default"

lemma queue_log_replays:
  assumes "length es < 2 ^ 64"
  obtains rs w where "replay (QueueState_apply checks) QueueResponse_default QueueState_default es = (Returned rs, w)"
proof -
  have "length (requests es) < 2 ^ 64" using requests_length [of es] assms by linarith
  then obtain ys \<sigma> where
    "run_cmds (QueueState_apply checks) QueueState_default (requests es) = (Returned ys, conc \<sigma>)"
    using run_from_default by metis
  with replay_requests that show thesis by metis
qed

interpretation queue_durable: durable_machine
  "QueueState_apply checks" QueueResponse_default "sm_apply_loop checks"
  sm_state sm_last_applied sm_last_membership sm_snapshot sm_record
  "sm_apply checks" "StateMachineStore_new mem" QueueState_default
  for checks mem
proof unfold_locales
  fix es :: "('a, QueueRequest, 'b) Entry list"
  assume "length es < 2 ^ 64"
  then show "\<exists>rs w. replay (QueueState_apply checks) QueueResponse_default QueueState_default es = (Returned rs, w)"
    by (rule queue_log_replays) blast
qed (simp_all add: sm_apply_def)

interpretation node_durable: durable_machine
  NodeDirectory_apply NodeResponse node_apply_loop
  nsm_state nsm_last_applied nsm_last_membership nsm_snapshot nsm_record
  node_apply "NodeStateMachineStore_new mem" NodeDirectory_default
  for mem
proof unfold_locales
  fix es :: "('a, NodeCommand, 'b) Entry list"
  show "\<exists>rs w. replay NodeDirectory_apply NodeResponse NodeDirectory_default es = (Returned rs, w)"
    using node_replay by blast
qed (simp_all add: node_apply_def NodeStateMachineStore_new_def)

lemma startup_replay_stored:
  assumes "raft_engine api kv ents ok" and "codecs_ok js" and "stores kv ents ok js e a"
    and "first \<le> stop"
    and "\<And>i. \<lbrakk>first \<le> i; i < stop\<rbrakk> \<Longrightarrow> i \<in> entry_index ` set (rl_entries a)"
    and "\<And>x. x \<in> set (rl_entries a) \<Longrightarrow> first \<le> entry_index x \<and> entry_index x < stop"
    and "h (sm_state s) = mutex_new v"
    and "replay (QueueState_apply checks) QueueResponse_default v (rl_entries a) = (Returned rs, w)"
  shows "startup_replay checks api js (sm_apply checks) e first stop h s =
    Some (Returned (Inr rs), h(sm_state s := mutex_new w), fold sm_record (rl_entries a) s)"
proof -
  have "filter (\<lambda>x. first \<le> entry_index x \<and> entry_index x < stop) (rl_entries a) = rl_entries a"
    using assms(6) by (simp add: filter_id_conv)
  with startup_replay_range [OF assms(1-5), of checks "sm_apply checks" h s]
    sm_apply_replay [of h s v checks "rl_entries a" rs w] assms(7,8) show ?thesis by simp
qed

section \<open>A log in memory, for the witnesses\<close>

instance QueueRequest :: countable
  by countable_datatype

instance NodeCommand :: countable
  by countable_datatype

abbreviation queue_codecs :: "(nat, QueueRequest, nat, nat) log_codecs" where
  "queue_codecs \<equiv> unary_codecs"

abbreviation node_codecs :: "(nat, NodeCommand, nat, nat) log_codecs" where
  "node_codecs \<equiv> unary_codecs"

text \<open>One entry logged, a vote saved, the entry committed and applied.\<close>

lemma one_durable_run:
  assumes "entry_index x = 0" "apply_entries h m [x] = (Returned (Inr [r]), h', m')"
  obtains e where "(durable_step checks mem_api (unary_codecs :: (nat, 'c :: countable, nat, nat) log_codecs)
       apply_entries fresh initial)\<^sup>*\<^sup>* (durable_start mem_empty h m)
     \<lparr>du_engine = e, du_heap = h', du_machine = m', du_log = [x], du_committed = 1, du_applied = 1, du_answers = [(0, r)]\<rparr>"
proof -
  let ?js = "unary_codecs :: (nat, 'c, nat, nat) log_codecs"
  let ?step = "durable_step checks mem_api ?js apply_entries fresh initial"
  let ?s = "durable_start mem_empty h m"
  let ?logged = "\<lambda>e. ?s\<lparr>du_engine := e, du_log := [x]\<rparr>"
  have "no_hole (rl_entries (empty_log :: (nat, 'c, nat, nat) raft_log)) [x]"
    by (simp add: no_hole_def empty_log_def)
  then obtain e where e: "log_append mem_api ?js mem_empty [x] = (Inr (), e, [Inr ()])"
    using mem_append [OF mem_empty_stores] by blast
  obtain e1 where e1: "save_vote mem_api ?js e 7 = (Inr (), e1)" using mem_save_vote by blast
  obtain e2 where e2: "save_committed mem_api ?js e1 (Some (log_id x)) = (Inr (), e2)" using mem_save_committed by blast
  have a: "?step ?s (?logged e)"
    using durable_step.logs [of "[x]" ?s 0 mem_api ?js e "[Inr ()]" checks apply_entries fresh initial] assms(1) e
    by (simp add: durable_start_def)
  have b: "?step (?logged e) (?logged e1)"
    using durable_step.votes [of mem_api ?js "?logged e" 7 e1 checks apply_entries fresh initial] e1
    by (simp add: durable_start_def)
  have c: "?step (?logged e1) ((?logged e2)\<lparr>du_committed := 1\<rparr>)"
    using durable_step.commits [of "?logged e1" 0 mem_api ?js e2 checks apply_entries fresh initial] e2
    by (simp add: durable_start_def)
  have d: "?step ((?logged e2)\<lparr>du_committed := 1\<rparr>)
      \<lparr>du_engine = e2, du_heap = h', du_machine = m', du_log = [x], du_committed = 1, du_applied = 1, du_answers = [(0, r)]\<rparr>"
    using durable_step.applies [of "(?logged e2)\<lparr>du_committed := 1\<rparr>" 1 apply_entries "[r]" h' m' checks mem_api ?js fresh initial]
      assms(2) by (simp add: durable_start_def)
  show thesis by (rule that, rule rtranclp_trans, rule two_steps, rule a, rule b, rule two_steps, rule c, rule d)
qed

section \<open>Properties\<close>

text \<open>
  C9: no answer is contradicted by a restart. Start any node of a cluster from an empty log
  and let it append batches at the end of the log or over entries that are not committed,
  truncate, save votes, move the committed id forward, apply and answer committed entries in
  batches, and restart any number of times, in any order. In every state so reached, a
  restart reads back the committed log and applies it without a panic, and gives to every
  entry that was ever answered the answer it was given; and if everything committed was
  applied, it rebuilds the running state.
\<close>

theorem answers_survive_restarts:
  assumes "raft_engine api kv ents ok" and "codecs_ok js" and "stores kv ents ok js e empty_log"
    and "h (sm_state m) = mutex_new QueueState_default"
    and "(durable_step checks api js (sm_apply checks) (StateMachineStore_new mem) QueueState_default)\<^sup>*\<^sup>*
      (durable_start e h m) s"
    and "g cell = mutex_new QueueState_default"
  shows "\<exists>rs g' t. recover checks api js (sm_apply checks) (du_engine s) g (StateMachineStore_new mem cell) =
        Some (Returned (Inr rs), g', t)
    \<and> length rs = du_committed s
    \<and> (\<forall>(i, r)\<in>set (du_answers s). i < length rs \<and> rs ! i = r)
    \<and> (du_applied s = du_committed s \<longrightarrow> g' cell = du_heap s (sm_state (du_machine s)))"
  using queue_durable.restarts_agree [of api kv ents ok js e h m checks checks mem s g cell, OF assms]
  by fastforce

theorem answers_survive_restarts_witness:
  "\<exists>s rs g' t. (durable_step True mem_api queue_codecs (sm_apply True) (StateMachineStore_new 0) QueueState_default)\<^sup>*\<^sup>*
      (durable_start mem_empty fresh_heap (fresh_machine 0)) s
    \<and> du_answers s = [(0, \<lparr>published_offset = Some 0, popped = None\<rparr>)]
    \<and> recover True mem_api queue_codecs (sm_apply True) (du_engine s) fresh_heap (fresh_machine 7) =
        Some (Returned (Inr rs), g', t)
    \<and> rs = [\<lparr>published_offset = Some 0, popped = None\<rparr>]"
proof -
  let ?x = "normal_at 0 (Publish ''q'' [5])" and ?r = "\<lparr>published_offset = Some (0 :: u64), popped = None\<rparr>"
  let ?v = "\<lparr>queues = fmupd ''q'' [(0, [5])] fmempty, next_offset = fmupd ''q'' 1 fmempty\<rparr>"
  have "sm_apply True fresh_heap (fresh_machine 0) [?x] =
      (Returned (Inr [?r]), fresh_heap(0 := mutex_new ?v), sm_record ?x (fresh_machine 0))"
    using sm_apply_replay [of fresh_heap "fresh_machine 0" QueueState_default True "[?x]"]
    by (simp add: entry_cmd_def QueueState_default_eq or_insert_def add_u64_def Let_def)
  then obtain h' m' where ap: "sm_apply True fresh_heap (fresh_machine 0) [?x] = (Returned (Inr [?r]), h', m')" by blast
  have ix: "entry_index ?x = 0" by simp
  let ?s = "\<lambda>e. \<lparr>du_engine = e, du_heap = h', du_machine = m', du_log = [?x], du_committed = 1, du_applied = 1,
    du_answers = [(0, ?r)]\<rparr>"
  obtain e where run:
    "(durable_step True mem_api queue_codecs (sm_apply True) (StateMachineStore_new 0) QueueState_default)\<^sup>*\<^sup>*
      (durable_start mem_empty fresh_heap (fresh_machine 0)) (?s e)"
    by (rule one_durable_run [of ?x "sm_apply True", OF ix ap])
  have "fresh_heap (sm_state (fresh_machine 0)) = mutex_new QueueState_default"
    "fresh_heap 7 = mutex_new QueueState_default" by simp_all
  from answers_survive_restarts [where cell = 7 and h = fresh_heap and m = "fresh_machine 0" and g = fresh_heap,
      OF mem.raft_engine_axioms unary_codecs_ok mem_empty_stores this(1) run this(2)]
  obtain rs g' t where rs: "recover True mem_api queue_codecs (sm_apply True) (du_engine (?s e)) fresh_heap (fresh_machine 7) =
      Some (Returned (Inr rs), g', t)" "length rs = 1" "rs ! 0 = ?r"
    by auto
  then have "rs = [?r]" by (cases rs) auto
  with run rs(1) show ?thesis by (intro exI [of _ "?s e"] exI [of _ rs] exI [of _ g'] exI [of _ t]) simp
qed

text \<open>
  C10: the directory survives restarts. Through the same steps of the directory group, in any
  order: a restart gives each node the address of its last committed registration, and if
  everything committed was applied it rebuilds the directory of the running process.
\<close>

theorem directory_survives_restarts:
  assumes "raft_engine api kv ents ok" and "codecs_ok js" and "stores kv ents ok js e empty_log"
    and "h (nsm_state m) = mutex_new NodeDirectory_default"
    and "(durable_step checks api js node_apply (NodeStateMachineStore_new mem) NodeDirectory_default)\<^sup>*\<^sup>*
      (durable_start e h m) s"
    and "g cell = mutex_new NodeDirectory_default"
  shows "\<exists>g' t d. recover checks api js node_apply (du_engine s) g (NodeStateMachineStore_new mem cell) =
          Some (Returned (Inr (replicate (du_committed s) NodeResponse)), g', t)
    \<and> g' cell = mutex_new d \<and> (\<forall>n. fmlookup (nodes d) n = last_address n (committed_log s) None)
    \<and> (du_applied s = du_committed s \<longrightarrow> du_heap s (nsm_state (du_machine s)) = mutex_new d)"
proof -
  note r = node_durable.restarts_agree [of api kv ents ok js e h m checks mem s g cell, OF assms]
  obtain d where "replay NodeDirectory_apply NodeResponse NodeDirectory_default (committed_log s) =
      (Returned (replicate (length (committed_log s)) NodeResponse), d)"
    "\<forall>n. fmlookup (nodes d) n = last_address n (committed_log s) None"
    using node_replay [of NodeDirectory_default "committed_log s"] by (auto simp: NodeDirectory_default_eq)
  with r(1,3,5) show ?thesis by (fastforce simp: replay_answers_def replay_state_def)
qed

theorem directory_survives_restarts_witness:
  "\<exists>s g' t d. (durable_step True mem_api node_codecs node_apply (NodeStateMachineStore_new 0) NodeDirectory_default)\<^sup>*\<^sup>*
      (durable_start mem_empty (\<lambda>_. mutex_new NodeDirectory_default) (NodeStateMachineStore_new 0 0)) s
    \<and> recover True mem_api node_codecs node_apply (du_engine s)
        (\<lambda>_. mutex_new NodeDirectory_default) (NodeStateMachineStore_new 0 7) =
          Some (Returned (Inr [NodeResponse]), g', t)
    \<and> g' 7 = mutex_new d \<and> fmlookup (nodes d) 2 = Some ''http://b''"
proof -
  let ?x = "\<lparr>log_id = \<lparr>leader_id = 1, index = 0\<rparr>, entry_payload = Normal (UpsertNode 2 ''http://b'')\<rparr> :: (nat, NodeCommand, nat) Entry"
  let ?h = "\<lambda>_. mutex_new NodeDirectory_default" and ?m = "NodeStateMachineStore_new 0 0 :: (nat, nat) NodeStateMachineStore"
  have "\<exists>h' m'. node_apply ?h ?m [?x] = (Returned (Inr [NodeResponse]), h', m')"
    by (simp add: node_apply_def with_lock_def Let_def)
  then obtain h' m' where ap: "node_apply ?h ?m [?x] = (Returned (Inr [NodeResponse]), h', m')" by blast
  have ix: "entry_index ?x = 0" by simp
  let ?s = "\<lambda>e. \<lparr>du_engine = e, du_heap = h', du_machine = m', du_log = [?x], du_committed = 1, du_applied = 1,
    du_answers = [(0, NodeResponse)]\<rparr>"
  obtain e where run:
    "(durable_step True mem_api node_codecs node_apply (NodeStateMachineStore_new 0) NodeDirectory_default)\<^sup>*\<^sup>*
      (durable_start mem_empty ?h ?m) (?s e)"
    by (rule one_durable_run [of ?x node_apply, OF ix ap])
  from directory_survives_restarts [where cell = 7 and h = ?h and m = ?m and g = ?h,
      OF mem.raft_engine_axioms unary_codecs_ok mem_empty_stores refl run refl]
  obtain g' t d where d: "recover True mem_api node_codecs node_apply (du_engine (?s e)) ?h (NodeStateMachineStore_new 0 7) =
      Some (Returned (Inr [NodeResponse]), g', t)"
    "g' 7 = mutex_new d" "fmlookup (nodes d) 2 = last_address 2 [?x] None" by (auto simp: committed_log_def)
  from d(3) have "fmlookup (nodes d) 2 = Some ''http://b''" by simp
  with run d(1,2) show ?thesis by (intro exI [of _ "?s e"] exI [of _ g'] exI [of _ t] exI [of _ d]) simp
qed

end
