(* ===== verification/Status_Stream.thy ===== *)
theory Status_Stream
  imports Status_Http Restarts
begin

text \<open>
  The status streams over time. \<open>watch_status\<close> and the status page of a node are read again
  and again while its state machine applies entries; both look through the shared cell.
  What they report is a history of true states that never goes back.
\<close>

section \<open>A node that is watched\<close>

text \<open>
  The state records the applied entries and all reports in the order in which they were
  made, those of the gRPC stream and those of the page. A stream whose handler panics ends.
\<close>

record ('lid, 'mem) watched =
  wd_heap :: "QueueState heap"
  wd_machine :: "('lid, 'mem) StateMachineStore"
  wd_applied :: "('lid, QueueRequest, 'mem) Entry list"
  wd_reports :: "(StatusUpdate + StatusPayload) list"
  wd_ended :: bool

definition watched_start :: "QueueState heap \<Rightarrow> ('lid, 'mem) StateMachineStore \<Rightarrow> ('lid, 'mem) watched" where
  "watched_start h m = \<lparr>wd_heap = h, wd_machine = m, wd_applied = [], wd_reports = [], wd_ended = False\<rparr>"

text \<open>The leaders of a report are openraft's answers and are left open.\<close>

inductive watched_step ::
  "bool \<Rightarrow> MqServiceImpl \<Rightarrow> StatusState \<Rightarrow> ('lid, 'mem) watched \<Rightarrow> ('lid, 'mem) watched \<Rightarrow> bool"
  for checks self state where
  applies:
    "sm_apply checks (wd_heap s) (wd_machine s) es = (r, h, m) \<Longrightarrow>
     watched_step checks self state s (s\<lparr>wd_heap := h, wd_machine := m, wd_applied := wd_applied s @ es\<rparr>)"
| ticks:
    "\<lbrakk>\<not> wd_ended s; watch_status_tick self (wd_heap s) nl ql = Returned u\<rbrakk> \<Longrightarrow>
     watched_step checks self state s (s\<lparr>wd_reports := wd_reports s @ [Inl u]\<rparr>)"
| tick_panics:
    "\<lbrakk>\<not> wd_ended s; watch_status_tick self (wd_heap s) nl ql = Panicked p\<rbrakk> \<Longrightarrow>
     watched_step checks self state s (s\<lparr>wd_ended := True\<rparr>)"
| serves:
    "status_once state (wd_heap s) nl ql = Returned pl \<Longrightarrow>
     watched_step checks self state s (s\<lparr>wd_reports := wd_reports s @ [Inr pl]\<rparr>)"

fun reported_depths :: "StatusUpdate + StatusPayload \<Rightarrow> (string, u64) fmap" where
  "reported_depths (Inl u) = upd_queue_depths u"
| "reported_depths (Inr pl) = sp_queue_depths pl"

section \<open>The invariant\<close>

text \<open>\<open>ns\<close> says after how many applied entries each report was made.\<close>

definition history_true :: "bool \<Rightarrow> nat list \<Rightarrow> ('lid, 'mem) watched \<Rightarrow> bool" where
  "history_true checks ns s \<longleftrightarrow>
     sorted ns \<and> (\<forall>n\<in>set ns. n \<le> length (wd_applied s)) \<and>
     map reported_depths (wd_reports s) = map (\<lambda>n. depths (log_state checks (take n (wd_applied s)))) ns"

definition watched_ok :: "bool \<Rightarrow> addr \<Rightarrow> ('lid, 'mem) watched \<Rightarrow> bool" where
  "watched_ok checks a s \<longleftrightarrow> (length (wd_applied s) < 2 ^ 64 \<longrightarrow>
     sm_state (wd_machine s) = a \<and> wd_heap s a = mutex_new (log_state checks (wd_applied s)) \<and>
     \<not> wd_ended s \<and> (\<exists>ns. history_true checks ns s))"

lemma history_reported:
  assumes "history_true checks ns s" "reported_depths x = depths (log_state checks (wd_applied s))"
  shows "history_true checks (ns @ [length (wd_applied s)]) (s\<lparr>wd_reports := wd_reports s @ [x]\<rparr>)"
  using assms by (auto simp: history_true_def sorted_append)

lemma history_applied:
  assumes "history_true checks ns s"
  shows "history_true checks ns (s\<lparr>wd_heap := h, wd_machine := m, wd_applied := wd_applied s @ es\<rparr>)"
  using assms by (auto simp: history_true_def)

lemma log_apply:
  assumes "h (sm_state m) = mutex_new (log_state checks es)" "length (es @ fs) < 2 ^ 64"
    and "sm_apply checks h m fs = (r, h', m')"
  shows "sm_state m' = sm_state m \<and> h' (sm_state m) = mutex_new (log_state checks (es @ fs))"
proof -
  obtain rs where "sm_apply checks h m fs =
      (Returned (Inr rs), h(sm_state m := mutex_new (log_state checks (es @ fs))), fold sm_record fs m)"
    by (rule queue_durable.apply_goes_on [of h m, OF assms(1,2)])
  with assms(3) show ?thesis by (auto simp: queue_sm.fold_record)
qed

lemma watched_step_ok:
  assumes "watched_step checks self state s t" "same_node self state" "watched_ok checks (svc_state self) s"
  shows "watched_ok checks (svc_state self) t"
  using assms(1)
proof cases
  case (applies es r h m)
  show ?thesis unfolding watched_ok_def
  proof
    assume len: "length (wd_applied t) < 2 ^ 64"
    with applies(1) have "length (wd_applied s) < 2 ^ 64" by simp
    with assms(3) have s: "sm_state (wd_machine s) = svc_state self"
      "wd_heap s (svc_state self) = mutex_new (log_state checks (wd_applied s))" "\<not> wd_ended s"
      "\<exists>ns. history_true checks ns s" by (simp_all add: watched_ok_def)
    with log_apply [of "wd_heap s" "wd_machine s" checks "wd_applied s" es r h m] applies len
    show "sm_state (wd_machine t) = svc_state self \<and>
        wd_heap t (svc_state self) = mutex_new (log_state checks (wd_applied t)) \<and>
        \<not> wd_ended t \<and> (\<exists>ns. history_true checks ns t)" by (auto intro: history_applied)
  qed
next
  case (ticks nl ql u)
  then show ?thesis
    using assms(3) history_reported [of checks _ s "Inl u"]
    by (fastforce simp: watched_ok_def watch_status_tick_def with_lock_def)
next
  case (tick_panics nl ql p)
  then show ?thesis
    using assms(3) by (auto simp: watched_ok_def watch_status_tick_def with_lock_def)
next
  case (serves nl ql pl)
  then show ?thesis
    using assms(2,3) history_reported [of checks _ s "Inr pl"]
    by (fastforce simp: watched_ok_def same_node_def status_once_def StatusState_payload_def with_lock_def)
qed

section \<open>Property\<close>

text \<open>
  C34: what a node reports about its queues is a history of true states. However the
  application of entries, the ticks of a gRPC status stream and requests of the status page
  interleave, neither panics, and each report, over both together in the order they were
  made, has the depths of the queues after some number of applied entries, numbers that
  never decrease; a report that is made now has the depths of all entries applied so far.
\<close>

theorem status_history_is_true:
  assumes "same_node self state" and "svc_state self = sm_state m"
    and "h (sm_state m) = mutex_new QueueState_default"
    and "(watched_step checks self state)\<^sup>*\<^sup>* (watched_start h m) s" and "length (wd_applied s) < 2 ^ 64"
  shows "\<not> wd_ended s
    \<and> (\<exists>ns. sorted ns \<and> (\<forall>n\<in>set ns. n \<le> length (wd_applied s))
        \<and> map reported_depths (wd_reports s) = map (\<lambda>n. depths (log_state checks (take n (wd_applied s)))) ns)
    \<and> (\<exists>u. watch_status_tick self (wd_heap s) nl ql = Returned u
        \<and> upd_queue_depths u = depths (log_state checks (wd_applied s)))"
proof -
  have "watched_ok checks (svc_state self) (watched_start h m)"
    using assms(2,3) by (simp add: watched_ok_def watched_start_def history_true_def)
  with assms(4) have "watched_ok checks (svc_state self) s"
    by (induction rule: rtranclp_induct) (blast intro: watched_step_ok [OF _ assms(1)])+
  with assms(5) show ?thesis
    by (auto simp: watched_ok_def history_true_def watch_status_tick_def with_lock_def)
qed

theorem status_history_is_true_witness:
  "\<exists>s u. (watched_step True (svc ''node-1'') \<lparr>ss_node_id = ''node-1'', ss_queue_state = 0\<rparr>)\<^sup>*\<^sup>*
       (watched_start fresh_heap (fresh_machine 0)) s
     \<and> wd_reports s = [Inl u] \<and> upd_queue_depths u = fmupd ''q'' 1 fmempty \<and> \<not> wd_ended s"
proof -
  let ?self = "svc ''node-1''" and ?state = "\<lparr>ss_node_id = ''node-1'', ss_queue_state = 0\<rparr>"
    and ?x = "normal_at 1 (Publish ''q'' [5])" and ?s0 = "watched_start fresh_heap (fresh_machine 0)"
    and ?v = "\<lparr>queues = fmupd ''q'' [(0, [5])] fmempty, next_offset = fmupd ''q'' 1 fmempty\<rparr>"
  have ap: "sm_apply True fresh_heap (fresh_machine 0) [?x] =
      (Returned (Inr [\<lparr>published_offset = Some 0, popped = None\<rparr>]), fresh_heap(0 := mutex_new ?v),
       sm_record ?x (fresh_machine 0))"
    using sm_apply_replay [of fresh_heap "fresh_machine 0" QueueState_default True "[?x]"]
    by (simp add: entry_cmd_def QueueState_default_eq or_insert_def add_u64_def Let_def)
  let ?s1 = "?s0\<lparr>wd_heap := fresh_heap(0 := mutex_new ?v), wd_machine := sm_record ?x (fresh_machine 0),
      wd_applied := wd_applied ?s0 @ [?x]\<rparr>"
  have a: "watched_step True ?self ?state ?s0 ?s1"
    by (rule applies) (use ap in \<open>simp add: watched_start_def\<close>)
  obtain u where u: "watch_status_tick ?self (wd_heap ?s1) None None = Returned u"
    "upd_queue_depths u = fmupd ''q'' 1 fmempty"
    by (simp add: watch_status_tick_def with_lock_def svc_def depths_def fmmap_fmupd)
  have b: "watched_step True ?self ?state ?s1 (?s1\<lparr>wd_reports := wd_reports ?s1 @ [Inl u]\<rparr>)"
    by (rule ticks [OF _ u(1)]) (simp add: watched_start_def)
  let ?s2 = "?s1\<lparr>wd_reports := wd_reports ?s1 @ [Inl u]\<rparr>"
  have run: "(watched_step True ?self ?state)\<^sup>*\<^sup>* ?s0 ?s2" by (rule two_steps, rule a, rule b)
  have "\<not> wd_ended ?s2"
    using status_history_is_true [of ?self ?state "fresh_machine 0" fresh_heap True ?s2, OF _ _ _ run]
    by (simp add: same_node_def svc_def watched_start_def)
  with run u(2) show ?thesis
    by (intro exI [of _ ?s2] exI [of _ u]) (simp add: watched_start_def)
qed

end
