(* ===== verification/Cluster.thy ===== *)
theory Cluster
  imports Mq_Service
begin

text \<open>
  A publish on any node of a cluster: \<open>grpc.rs\<close> forwards to the node that the local openraft
  names, which runs the same handler and may forward again. The code sets no limit on the
  number of hops. This theory composes the nodes' handlers and shows, from what Raft says
  about leader hints, that a chain of forwards ends and commits the message once.
\<close>

section \<open>Handlers that call each other\<close>

text \<open>
  \<open>node n\<close> and \<open>impl n\<close> are the arguments and the service of node \<open>n\<close>, \<open>route\<close> says to
  which node a channel leads. The recursion is bounded by fuel; a chain that is longer is
  answered with \<open>no_answer\<close>, which no handler returns.
\<close>

definition no_answer :: Status where
  "no_answer = \<lparr>code = OtherCode 4, message = ''forwarding has not ended''\<rparr>"

fun cluster_publish ::
  "nat \<Rightarrow> (u64 \<Rightarrow> ('ch, 's, 'w) mq_api) \<Rightarrow> (u64 \<Rightarrow> MqServiceImpl) \<Rightarrow> ('ch \<Rightarrow> u64) \<Rightarrow> u64 \<Rightarrow> PublishRequest
     \<Rightarrow> 'ch channel_heap \<times> 'w \<Rightarrow> (Status, PublishResponse) result outcome \<times> 'ch channel_heap \<times> 'w" where
  "cluster_publish 0 node impl route n req hw = (Returned (Inl no_answer), hw)"
| "cluster_publish (Suc fuel) node impl route n req hw =
     publish
       ((node n)\<lparr>call_publish :=
          (\<lambda>ch req hw. answered (cluster_publish fuel node impl route (route ch) req hw))\<rparr>)
       (impl n) req hw"

section \<open>What Raft says about leader hints\<close>

text \<open>
  A node leads or refuses; a refusal that names a node names one that leads, or one that has
  seen a later term than the refusing node. Every member knows a valid address of every
  other, and channels lead where their address says.
\<close>

locale raft_cluster =
  fixes node :: "u64 \<Rightarrow> ('ch, 's, 'w) mq_api"
    and impl :: "u64 \<Rightarrow> MqServiceImpl"
    and route :: "'ch \<Rightarrow> u64"
    and members :: "u64 set"
    and leads :: "'w \<Rightarrow> u64 \<Rightarrow> bool"
    and raft_term :: "'w \<Rightarrow> u64 \<Rightarrow> nat"
    and checks :: bool
    and ok :: "'w \<Rightarrow> bool"
    and commands :: "'w \<Rightarrow> QueueRequest list"
  assumes client: "n \<in> members \<Longrightarrow> queue_client checks ok (client_write (node n)) commands"
    and leader_accepts: "\<lbrakk>ok w; n \<in> members; leads w n\<rbrakk> \<Longrightarrow>
      \<exists>resp w'. client_write (node n) req w = (Inr resp, w')"
    and follower_refuses: "\<lbrakk>ok w; n \<in> members; \<not> leads w n\<rbrakk> \<Longrightarrow>
      \<exists>hint. client_write (node n) req w = (Inl (ForwardToLeader hint), w) \<and>
        (\<forall>m. hint = Some m \<longrightarrow> m \<in> members \<and> (leads w m \<or> raft_term w n < raft_term w m))"
    and reachable: "\<lbrakk>n \<in> members; m \<in> members\<rbrakk> \<Longrightarrow>
      \<exists>address ch. fmlookup (svc_peers (impl n)) m = Some address \<and>
        from_shared (node n) address = Inr ch \<and> route ch = m"
    and finite_members: "finite members"
begin

text \<open>Every cache is sound: its lock is good and its channels lead to their node.\<close>

definition caches_ok :: "'ch channel_heap \<Rightarrow> bool" where
  "caches_ok h \<longleftrightarrow> (\<forall>n\<in>members. \<exists>cs. h (forward_channels (impl n)) = mutex_new cs \<and>
     (\<forall>m ch. fmlookup cs m = Some ch \<longrightarrow> route ch = m))"

lemma channel_routes:
  assumes "caches_ok h" "n \<in> members" "m \<in> members"
  obtains address ch h' where "fmlookup (svc_peers (impl n)) m = Some address"
    "channel_for (node n) (impl n) m address h = (Returned (Inr ch), h')" "route ch = m" "caches_ok h'"
proof -
  obtain cs where cs: "h (forward_channels (impl n)) = mutex_new cs"
    "\<And>m ch. fmlookup cs m = Some ch \<Longrightarrow> route ch = m"
    using assms(1,2) by (auto simp: caches_ok_def)
  obtain address c where r: "fmlookup (svc_peers (impl n)) m = Some address"
    "from_shared (node n) address = Inr c" "route c = m"
    using reachable [OF assms(2,3)] by blast
  define ch where "ch = (case fmlookup cs m of Some d \<Rightarrow> d | None \<Rightarrow> c)"
  have "route ch = m" using cs(2) r(3) by (auto simp: ch_def split: option.split)
  moreover have "channel_for (node n) (impl n) m address h =
      (Returned (Inr ch), h(forward_channels (impl n) := mutex_new (fmupd m ch cs)))"
    by (rule channel_for_gives) (auto simp: cs(1) r(2) ch_def split: option.split)
  moreover have "caches_ok (h(forward_channels (impl n) := mutex_new (fmupd m ch cs)))"
    using assms(1) cs(2) \<open>route ch = m\<close> by (auto simp: caches_ok_def)
  ultimately show thesis using that r(1) by blast
qed

text \<open>How many members are ahead of a node: it bounds the hops that are left.\<close>

definition ahead :: "'w \<Rightarrow> u64 \<Rightarrow> nat" where
  "ahead w n = card {m \<in> members. raft_term w n < raft_term w m}"

lemma ahead_less:
  assumes "m \<in> members" "raft_term w n < raft_term w m" shows "ahead w m < ahead w n"
  unfolding ahead_def
  by (rule psubset_card_mono) (use assms finite_members in auto)

lemma ahead_bound: "n \<in> members \<Longrightarrow> ahead w n < card members"
  unfolding ahead_def by (rule psubset_card_mono) (use finite_members in auto)

text \<open>How a publish may end: committed once with its offset, or refused with nothing committed.\<close>

definition settled where
  "settled q p w r w' \<longleftrightarrow>
     r = Inr \<lparr>pub_offset = of_nat (length (published_to q (commands w)))\<rparr> \<and> commands w' = commands w @ [Publish q p] \<or>
     r = Inl (status_unavailable ''no raft leader elected yet'') \<and> commands w' = commands w"

lemma leader_settles:
  assumes "n \<in> members" "ok w" "leads w n" "length (commands w) < 2 ^ 64 - 1"
  shows "\<exists>r w'. cluster_publish (Suc fuel) node impl route n \<lparr>pub_queue = q, pub_payload = p\<rparr> (h, w) =
    (Returned r, h, w') \<and> settled q p w r w'"
proof -
  obtain resp w' where "client_write (node n) (Publish q p) w = (Inr resp, w')"
    using leader_accepts [OF assms(2,1,3)] by blast
  then have "publish ((node n)\<lparr>call_publish := f\<rparr>) (impl n) \<lparr>pub_queue = q, pub_payload = p\<rparr> (h, w) =
      (Returned (Inr \<lparr>pub_offset = of_nat (length (published_to q (commands w)))\<rparr>), h, w')
    \<and> commands w' = commands w @ [Publish q p]" for f
    using client [OF assms(1)] assms(2,4) by (intro publish_accepted_offset [where checks = checks and ok = ok]) auto
  then show ?thesis by (auto simp: settled_def)
qed

text \<open>A node that is referred to a member settles what that member settles.\<close>

lemma referred_settles:
  assumes "n \<in> members" "caches_ok h" "m \<in> members"
    and "client_write (node n) (Publish q p) w = (Inl (ForwardToLeader (Some m)), w)"
    and "\<And>h. caches_ok h \<Longrightarrow>
      \<exists>r h' w'. cluster_publish fuel node impl route m \<lparr>pub_queue = q, pub_payload = p\<rparr> (h, w) =
        (Returned r, h', w') \<and> settled q p w r w' \<and> caches_ok h'"
  shows "\<exists>r h' w'. cluster_publish (Suc fuel) node impl route n \<lparr>pub_queue = q, pub_payload = p\<rparr> (h, w) =
      (Returned r, h', w') \<and> settled q p w r w' \<and> caches_ok h'"
proof -
  let ?req = "\<lparr>pub_queue = q, pub_payload = p\<rparr>"
  let ?call = "\<lambda>ch req hw. answered (cluster_publish fuel node impl route (route ch) req hw)"
  obtain address ch g where c: "fmlookup (svc_peers (impl n)) m = Some address"
    "channel_for (node n) (impl n) m address h = (Returned (Inr ch), g)" "route ch = m" "caches_ok g"
    using channel_routes [OF assms(2,1,3)] .
  from assms(5) [OF c(4)] obtain r h' w' where
    r: "cluster_publish fuel node impl route m ?req (g, w) = (Returned r, h', w')" "settled q p w r w'" "caches_ok h'"
    by blast
  have "publish ((node n)\<lparr>call_publish := ?call\<rparr>) (impl n) ?req (h, w) = (Returned r, h', w')"
    by (rule publish_forwards [OF _ c(1), where w' = w and ch = ch and h' = g])
       (use assms(4) c(2,3) r(1) in \<open>simp_all add: answered_def\<close>)
  with r show ?thesis by auto
qed

lemma forwarding_settles:
  assumes "ok w" "length (commands w) < 2 ^ 64 - 1"
  shows "\<lbrakk>n \<in> members; caches_ok h; leads w n \<and> 0 < fuel \<or> ahead w n + 1 < fuel\<rbrakk> \<Longrightarrow>
    \<exists>r h' w'. cluster_publish fuel node impl route n \<lparr>pub_queue = q, pub_payload = p\<rparr> (h, w) =
      (Returned r, h', w') \<and> settled q p w r w' \<and> caches_ok h'"
proof (induction fuel arbitrary: n h)
  case (Suc fuel)
  show ?case
  proof (cases "leads w n")
    case True
    with leader_settles [OF Suc.prems(1) assms(1)] assms(2) Suc.prems(2) show ?thesis by blast
  next
    case False
    obtain hint where hint: "client_write (node n) (Publish q p) w = (Inl (ForwardToLeader hint), w)"
      "\<And>m. hint = Some m \<Longrightarrow> m \<in> members \<and> (leads w m \<or> raft_term w n < raft_term w m)"
      using follower_refuses [OF assms(1) Suc.prems(1) False] by blast
    show ?thesis
    proof (cases hint)
      case None
      with hint(1) Suc.prems(2) show ?thesis
        by (simp add: publish_def propose_def settled_def)
    next
      case (Some m)
      with hint(2) have m: "m \<in> members" "leads w m \<or> raft_term w n < raft_term w m" by auto
      have "leads w m \<and> 0 < fuel \<or> ahead w m + 1 < fuel"
        using m(2) ahead_less [OF m(1), of w n] Suc.prems(3) False by fastforce
      note later = Suc.IH [OF m(1) _ this]
      show ?thesis
        by (rule referred_settles [OF Suc.prems(1,2) m(1)]) (use hint(1) Some later in auto)
    qed
  qed
qed simp

end

section \<open>Three nodes, one with a stale hint\<close>

text \<open>
  Node 1 leads in term 3, node 2 knows it, and node 3 still names node 2. The state is that
  of the queue group on the leader.
\<close>

definition trio_node :: "u64 \<Rightarrow> (u64, unit, queue_group) mq_api" where
  "trio_node n =
     \<lparr>client_write =
        (if n = 1 then group_write False
         else (\<lambda>req g. (Inl (ForwardToLeader (Some (if n = 2 then 1 else 2))), g))),
      from_shared = (\<lambda>address. case parse_u64 address of Inl e \<Rightarrow> Inl ''invalid uri'' | Inr m \<Rightarrow> Inr m),
      call_publish = (\<lambda>ch req hw. (Inl (status_unavailable ''unreachable''), hw)),
      send_one = (\<lambda>k r. Inr [r]),
      call_consume = (\<lambda>ch rs hw. (Inl (status_unavailable ''unreachable''), hw)),
      next_within = (\<lambda>ms s hw. (Inl (), hw))\<rparr>"

definition trio_impl :: "u64 \<Rightarrow> MqServiceImpl" where
  "trio_impl n = \<lparr>svc_node_id = show_u64 n, svc_state = 0,
     svc_peers = fmupd 3 (show_u64 3) (fmupd 2 (show_u64 2) (fmupd 1 (show_u64 1) fmempty)),
     forward_channels = unat n\<rparr>"

definition trio_term :: "queue_group \<Rightarrow> u64 \<Rightarrow> nat" where
  "trio_term g n = 4 - unat n"

interpretation trio: raft_cluster trio_node trio_impl "\<lambda>m. m" "{1, 2, 3}" "\<lambda>g n. n = 1" trio_term False
  "leads_group False" group_commands
proof (rule raft_cluster.intro)
  fix n :: u64
  assume "n \<in> {1, 2, 3}"
  show "queue_client False (leads_group False) (client_write (trio_node n)) group_commands"
  proof (cases "n = 1")
    case True
    then show ?thesis by (simp add: trio_node_def qleader.queue_client_axioms)
  next
    case False
    then show ?thesis by unfold_locales (auto simp: trio_node_def)
  qed
next
  fix g n req
  assume "leads_group False g" "n = (1 :: u64)"
  then show "\<exists>resp g'. client_write (trio_node n) req g = (Inr resp, g')"
    using unchecked_accepts by (simp add: trio_node_def)
next
  fix g :: queue_group and n :: u64 and req
  assume "n \<in> {1, 2, 3}" "n \<noteq> 1"
  then show "\<exists>hint. client_write (trio_node n) req g = (Inl (ForwardToLeader hint), g) \<and>
      (\<forall>m. hint = Some m \<longrightarrow> m \<in> {1, 2, 3} \<and> (m = 1 \<or> trio_term g n < trio_term g m))"
    by (auto simp: trio_node_def trio_term_def)
next
  fix n m :: u64
  assume "n \<in> {1, 2, 3}" "m \<in> {1, 2, 3}"
  then have "fmlookup (svc_peers (trio_impl n)) m = Some (show_u64 m)" by (auto simp: trio_impl_def)
  then show "\<exists>address ch. fmlookup (svc_peers (trio_impl n)) m = Some address \<and>
      from_shared (trio_node n) address = Inr ch \<and> ch = m"
    by (simp add: trio_node_def parse_show_u64)
qed simp

section \<open>Properties\<close>

text \<open>
  C8: a publish on any node of a cluster is answered, however stale the leader hints on the
  way are. When hints only lead to a leader or to a node with a later term, as Raft has it,
  the handlers forward at most as often as the cluster has members; the caller gets the
  offset and exactly one publish is committed, or some node on the way knew no leader and
  nothing is committed.
\<close>

theorem forwarding_chain_settles:
  assumes "raft_cluster node impl route members leads raft_term checks ok commands"
    and "n \<in> members" and "ok w" and "length (commands w) < 2 ^ 64 - 1"
    and "raft_cluster.caches_ok impl route members h" and "card members < fuel"
  shows "\<exists>r h' w'. cluster_publish fuel node impl route n \<lparr>pub_queue = q, pub_payload = p\<rparr> (h, w) =
      (Returned r, h', w') \<and>
    (r = Inr \<lparr>pub_offset = of_nat (length (published_to q (commands w)))\<rparr> \<and>
       commands w' = commands w @ [Publish q p] \<or>
     r = Inl (status_unavailable ''no raft leader elected yet'') \<and> commands w' = commands w)"
proof -
  have "raft_cluster.ahead members raft_term w n + 1 < fuel"
    using raft_cluster.ahead_bound [OF assms(1,2), of w] assms(6) by simp
  with raft_cluster.forwarding_settles [OF assms(1,3,4,2,5)] show ?thesis
    unfolding raft_cluster.settled_def [OF assms(1)] by blast
qed

theorem forwarding_chain_settles_witness:
  "\<exists>r h' g'. cluster_publish 4 trio_node trio_impl (\<lambda>m. m) 3 \<lparr>pub_queue = ''q'', pub_payload = [7]\<rparr>
      (\<lambda>_. mutex_new fmempty, group_new 1 (Some 1)) = (Returned r, h', g') \<and>
    (r = Inr \<lparr>pub_offset = 0\<rparr> \<and> group_commands g' = [Publish ''q'' [7]] \<or>
     r = Inl (status_unavailable ''no raft leader elected yet'') \<and> group_commands g' = [])"
proof -
  have "trio.caches_ok (\<lambda>_. mutex_new fmempty)" by (simp add: trio.caches_ok_def)
  moreover have "leads_group False (group_new 1 (Some 1))"
    using group_new_ok by (simp add: leads_group_def group_new_def)
  ultimately show ?thesis
    using forwarding_chain_settles [OF trio.raft_cluster_axioms, of 3 "group_new 1 (Some 1)"
        "\<lambda>_. mutex_new fmempty" 4 "''q''" "[7]"]
    by (simp add: group_commands_new)
qed

end
