(* ===== verification/Mpsc.thy ===== *)
theory Mpsc
  imports Mq_Prelude
begin

text \<open>
  tokio's bounded multi-producer channel, as the sources use it: a send into a full channel
  waits, a send after the receiver was dropped fails, items come out in the order they went
  in, and dropping the receiver drops what is buffered. The operations are a record that
  every user receives; what is relied on is the locale \<open>bounded_channel\<close>, interpreted on a
  channel that is a list.
\<close>

section \<open>Operations\<close>

datatype 'c send_result = Accepted 'c | Waiting | Rejected

record ('a, 'c) mpsc_api =
  chan_new :: "nat \<Rightarrow> 'c"
  chan_send :: "'a \<Rightarrow> 'c \<Rightarrow> 'c send_result"
  chan_recv :: "'c \<Rightarrow> ('a \<times> 'c) option"
  chan_drop_rx :: "'c \<Rightarrow> 'c"

locale bounded_channel =
  fixes mpsc :: "('a, 'c) mpsc_api"
    and capacity :: "'c \<Rightarrow> nat"
    and queued :: "'c \<Rightarrow> 'a list"
    and connected :: "'c \<Rightarrow> bool"
  assumes new_channel: "queued (chan_new mpsc n) = []" "capacity (chan_new mpsc n) = n"
      "connected (chan_new mpsc n)"
    and send_accepted: "chan_send mpsc x c = Accepted c' \<Longrightarrow>
      connected c \<and> length (queued c) < capacity c \<and>
      queued c' = queued c @ [x] \<and> capacity c' = capacity c \<and> connected c'"
    and send_waits: "(chan_send mpsc x c = Waiting) = (connected c \<and> capacity c \<le> length (queued c))"
    and send_rejected: "(chan_send mpsc x c = Rejected) = (\<not> connected c)"
    and recv_some: "chan_recv mpsc c = Some (x, c') \<Longrightarrow>
      queued c = x # queued c' \<and> capacity c' = capacity c \<and> connected c' = connected c"
    and recv_none: "(chan_recv mpsc c = None) = (queued c = [])"
    and drop_rx: "queued (chan_drop_rx mpsc c) = []" "capacity (chan_drop_rx mpsc c) = capacity c"
      "\<not> connected (chan_drop_rx mpsc c)"
begin

lemma send_progress:
  "\<lbrakk>connected c; length (queued c) < capacity c\<rbrakk> \<Longrightarrow> \<exists>c'. chan_send mpsc x c = Accepted c'"
  by (metis leD send_rejected send_result.exhaust send_waits)

lemma send_bounded:
  "chan_send mpsc x c = Accepted c' \<Longrightarrow> length (queued c') \<le> capacity c'"
  using send_accepted by fastforce

end

section \<open>A channel that is a list\<close>

record 'a list_channel =
  lc_capacity :: nat
  lc_queue :: "'a list"
  lc_connected :: bool

definition lc_send :: "'a \<Rightarrow> 'a list_channel \<Rightarrow> 'a list_channel send_result" where
  "lc_send x c =
     (if \<not> lc_connected c then Rejected
      else if lc_capacity c \<le> length (lc_queue c) then Waiting
      else Accepted (c\<lparr>lc_queue := lc_queue c @ [x]\<rparr>))"

definition lc_recv :: "'a list_channel \<Rightarrow> ('a \<times> 'a list_channel) option" where
  "lc_recv c = (case lc_queue c of [] \<Rightarrow> None | x # xs \<Rightarrow> Some (x, c\<lparr>lc_queue := xs\<rparr>))"

definition lc_api :: "('a, 'a list_channel) mpsc_api" where
  "lc_api =
     \<lparr>chan_new = (\<lambda>n. \<lparr>lc_capacity = n, lc_queue = [], lc_connected = True\<rparr>),
      chan_send = lc_send, chan_recv = lc_recv,
      chan_drop_rx = (\<lambda>c. c\<lparr>lc_queue := [], lc_connected := False\<rparr>)\<rparr>"

interpretation lc: bounded_channel lc_api lc_capacity lc_queue lc_connected
  by unfold_locales (auto simp: lc_api_def lc_send_def lc_recv_def split: if_splits list.splits)

end
