(* ===== verification/Consume.thy ===== *)
theory Consume
  imports Mq_Service Mpsc "HOL-Library.Multiset"
begin

text \<open>
  The consume stream of \<open>grpc.rs\<close> as a concurrent system: 32 workers that pop and send, one
  bounded channel, a client that receives and may disconnect, and other clients of the
  queue. Steps interleave in any order.
\<close>

section \<open>The stream and its steps\<close>

abbreviation POP_CONCURRENCY :: nat where
  "POP_CONCURRENCY \<equiv> 32"

text \<open>
  Besides what the code keeps, the state records what the workers have got from the queue, how
  often one of them has gone to sleep after an error, and what the client has received. An
  iteration that ends in an error hands no message to its worker, but its pop may have been
  committed: \<open>st_got\<close> and \<open>st_retries\<close> together account for what a stream takes.
\<close>

record ('c, 'ch, 'w) consume_stream =
  st_workers :: "worker list"
  st_chan :: 'c
  st_caches :: "'ch channel_heap"
  st_world :: 'w
  st_got :: "(u64 \<times> bytes) list"
  st_retries :: nat
  st_received :: "(Status, ConsumeResponse) result list"

definition consume_start ::
  "((Status, ConsumeResponse) result, 'c) mpsc_api \<Rightarrow> 'ch channel_heap \<Rightarrow> 'w \<Rightarrow> ('c, 'ch, 'w) consume_stream" where
  "consume_start mpsc h w =
     \<lparr>st_workers = replicate POP_CONCURRENCY Proposing, st_chan = chan_new mpsc (POP_CONCURRENCY * 4),
      st_caches = h, st_world = w, st_got = [], st_retries = 0, st_received = []\<rparr>"

text \<open>
  The handler: open the stream for the queue of the first inbound message, or refuse.
\<close>

definition consume ::
  "((Status, ConsumeResponse) result, 'c) mpsc_api \<Rightarrow> (Status, ConsumeRequest) result list
     \<Rightarrow> 'ch channel_heap \<Rightarrow> 'w \<Rightarrow> (Status, string \<times> ('c, 'ch, 'w) consume_stream) result" where
  "consume mpsc inbound h w =
     (case consume_open inbound of
        Inl status \<Rightarrow> Inl status
      | Inr queue_name \<Rightarrow> Inr (queue_name, consume_start mpsc h w))"

fun response :: "u64 \<times> bytes \<Rightarrow> (Status, ConsumeResponse) result" where
  "response (offset, payload) = Inr \<lparr>con_offset = offset, con_payload = payload\<rparr>"

fun held :: "worker \<Rightarrow> (u64 \<times> bytes) list" where
  "held (Sending m) = [m]"
| "held _ = []"

definition after_iteration :: "worker outcome \<Rightarrow> worker" where
  "after_iteration r = (case r of Returned next \<Rightarrow> next | Panicked p \<Rightarrow> Stopped)"

text \<open>The three error branches of the loop sleep for 200 ms; an empty queue for 150.\<close>

fun retried :: "worker \<Rightarrow> nat" where
  "retried (Sleeping ms) = of_bool (ms = 200)"
| "retried _ = 0"

text \<open>
  \<open>env\<close> is what the rest of the cluster may do to the shared state between two steps of
  this stream. A send into a full channel is no step: the worker waits. A pop that is
  committed while its answer is still on the way counts as got by its worker.
\<close>

inductive consume_step ::
  "((Status, ConsumeResponse) result, 'c) mpsc_api \<Rightarrow> ('ch, 's, 'w) mq_api \<Rightarrow> MqServiceImpl \<Rightarrow> string
     \<Rightarrow> ('w \<Rightarrow> 'w \<Rightarrow> bool) \<Rightarrow> ('c, 'ch, 'w) consume_stream \<Rightarrow> ('c, 'ch, 'w) consume_stream \<Rightarrow> bool"
  for mpsc api self queue_name env where
  worker_pops:
    "\<lbrakk>i < length (st_workers s); st_workers s ! i = Proposing;
      worker_pop api self queue_name (st_caches s, st_world s) = (r, h, w)\<rbrakk> \<Longrightarrow>
     consume_step mpsc api self queue_name env s
       (s\<lparr>st_workers := (st_workers s)[i := after_iteration r], st_caches := h, st_world := w,
          st_got := st_got s @ held (after_iteration r),
          st_retries := st_retries s + retried (after_iteration r)\<rparr>)"
| worker_wakes:
    "\<lbrakk>i < length (st_workers s); st_workers s ! i = Sleeping ms\<rbrakk> \<Longrightarrow>
     consume_step mpsc api self queue_name env s (s\<lparr>st_workers := (st_workers s)[i := Proposing]\<rparr>)"
| worker_sends:
    "\<lbrakk>i < length (st_workers s); st_workers s ! i = Sending m;
      chan_send mpsc (response m) (st_chan s) = Accepted c\<rbrakk> \<Longrightarrow>
     consume_step mpsc api self queue_name env s
       (s\<lparr>st_workers := (st_workers s)[i := Proposing], st_chan := c\<rparr>)"
| worker_stops:
    "\<lbrakk>i < length (st_workers s); st_workers s ! i = Sending m;
      chan_send mpsc (response m) (st_chan s) = Rejected\<rbrakk> \<Longrightarrow>
     consume_step mpsc api self queue_name env s (s\<lparr>st_workers := (st_workers s)[i := Stopped]\<rparr>)"
| client_receives:
    "chan_recv mpsc (st_chan s) = Some (x, c) \<Longrightarrow>
     consume_step mpsc api self queue_name env s
       (s\<lparr>st_chan := c, st_received := st_received s @ [x]\<rparr>)"
| client_disconnects:
    "consume_step mpsc api self queue_name env s (s\<lparr>st_chan := chan_drop_rx mpsc (st_chan s)\<rparr>)"
| others_act:
    "env (st_world s) w \<Longrightarrow> consume_step mpsc api self queue_name env s (s\<lparr>st_world := w\<rparr>)"

abbreviation consume_steps where
  "consume_steps mpsc api self queue_name env \<equiv> (consume_step mpsc api self queue_name env)\<^sup>*\<^sup>*"

section \<open>Messages on the way\<close>

definition in_flight :: "worker list \<Rightarrow> (u64 \<times> bytes) multiset" where
  "in_flight ws = sum_list (map (\<lambda>w. mset (held w)) ws)"

definition is_stopped :: "worker \<Rightarrow> bool" where
  "is_stopped w = (w = Stopped)"

lemma submultiset_distinct:
  assumes "mset xs \<subseteq># mset ys" "distinct ys" shows "distinct xs"
proof -
  obtain zs where "mset ys = mset (xs @ zs)"
    using assms(1) by (metis ex_mset mset_append mset_subset_eq_exists_conv)
  with assms(2) show ?thesis by (metis distinct_append mset_eq_imp_distinct_iff)
qed

lemma sum_list_update_multiset:
  "i < length ws \<Longrightarrow>
   sum_list (map f (ws[i := x])) + f (ws ! i) = (sum_list (map f ws) + f x :: 'b multiset)"
proof (induction ws arbitrary: i)
  case (Cons a ws)
  then show ?case by (cases i) (simp_all add: ac_simps)
qed simp

lemma in_flight_update:
  "i < length ws \<Longrightarrow> in_flight (ws[i := x]) + mset (held (ws ! i)) = in_flight ws + mset (held x)"
  unfolding in_flight_def by (rule sum_list_update_multiset)

lemma in_flight_start: "in_flight (replicate n Proposing) = {#}"
  by (induction n) (simp_all add: in_flight_def)

text \<open>Every worker holds at most one message, and a stopped one holds none.\<close>

lemma in_flight_bound:
  "size (in_flight ws) + length (filter is_stopped ws) \<le> length ws"
proof (induction ws)
  case (Cons w ws)
  then show ?case by (cases w) (simp_all add: in_flight_def is_stopped_def)
qed (simp add: in_flight_def)

lemma filter_update:
  "i < length ws \<Longrightarrow>
   length (filter P (ws[i := x])) + (if P (ws ! i) then 1 else 0) =
   length (filter P ws) + (if P x then 1 else 0)"
proof (induction ws arbitrary: i)
  case (Cons a ws)
  then show ?case by (cases i) auto
qed simp

section \<open>What a stream conserves\<close>

text \<open>
  While the client is connected, everything the workers popped has been received, is
  buffered, or is held by a worker. After it has disconnected, at most what was buffered and
  one message per worker is missing.
\<close>

definition conserved ::
  "('c \<Rightarrow> (Status, ConsumeResponse) result list) \<Rightarrow> ('c, 'ch, 'w) consume_stream \<Rightarrow> bool" where
  "conserved queued s \<longleftrightarrow>
     image_mset response (mset (st_got s)) =
       mset (st_received s) + mset (queued (st_chan s)) + image_mset response (in_flight (st_workers s))"

definition bounded_loss :: "('c, 'ch, 'w) consume_stream \<Rightarrow> bool" where
  "bounded_loss s \<longleftrightarrow>
     mset (st_received s) + image_mset response (in_flight (st_workers s)) \<subseteq># image_mset response (mset (st_got s)) \<and>
     length (st_got s) \<le> length (st_received s) + POP_CONCURRENCY * 4 + size (in_flight (st_workers s))
       + length (filter is_stopped (st_workers s))"

definition stream_ok where
  "stream_ok capacity queued connected s \<longleftrightarrow>
     length (st_workers s) = POP_CONCURRENCY \<and>
     capacity (st_chan s) = POP_CONCURRENCY * 4 \<and>
     length (queued (st_chan s)) \<le> POP_CONCURRENCY * 4 \<and>
     (connected (st_chan s) \<longrightarrow> conserved queued s) \<and>
     (\<not> connected (st_chan s) \<longrightarrow> queued (st_chan s) = [] \<and> bounded_loss s)"

lemma inj_response: "inj response"
  by (rule injI) auto

text \<open>How one worker's move changes what is in flight.\<close>

lemma worker_moves:
  assumes "i < length ws" "held (ws ! i) = []" "\<not> is_stopped (ws ! i)"
  shows "in_flight (ws[i := x]) = in_flight ws + mset (held x)"
    and "length (filter is_stopped (ws[i := x])) = length (filter is_stopped ws) + (if is_stopped x then 1 else 0)"
  using in_flight_update [OF assms(1), of x] filter_update [OF assms(1), of is_stopped x] assms(2,3)
  by (simp_all split: if_splits)

lemma worker_drops:
  assumes "i < length ws" "ws ! i = Sending m" "held x = []"
  shows "in_flight ws = add_mset m (in_flight (ws[i := x]))"
    and "length (filter is_stopped (ws[i := x])) = length (filter is_stopped ws) + (if is_stopped x then 1 else 0)"
  using in_flight_update [OF assms(1), of x] filter_update [OF assms(1), of is_stopped x] assms(2,3)
  by (simp_all add: is_stopped_def)

text \<open>A step of a worker, by the phase it is in, with the channel's laws.\<close>

locale consume_channel = bounded_channel mpsc capacity queued connected
  for mpsc :: "((Status, ConsumeResponse) result, 'c) mpsc_api"
    and capacity :: "'c \<Rightarrow> nat"
    and queued :: "'c \<Rightarrow> (Status, ConsumeResponse) result list"
    and connected :: "'c \<Rightarrow> bool"
begin

abbreviation good :: "('c, 'ch, 'w) consume_stream \<Rightarrow> bool" where
  "good \<equiv> stream_ok capacity queued connected"

lemma consume_start_ok: "good (consume_start mpsc h w)"
  by (simp add: stream_ok_def consume_start_def conserved_def in_flight_start new_channel)

lemma pops_ok:
  assumes "good s" "i < length (st_workers s)" "st_workers s ! i = Proposing"
  shows "good (s\<lparr>st_workers := (st_workers s)[i := x], st_caches := h, st_world := w,
    st_got := st_got s @ held x, st_retries := k\<rparr>)"
proof -
  have "in_flight ((st_workers s)[i := x]) = in_flight (st_workers s) + mset (held x)"
    "length (filter is_stopped ((st_workers s)[i := x])) =
      length (filter is_stopped (st_workers s)) + (if is_stopped x then 1 else 0)"
    using worker_moves [OF assms(2)] assms(3) by (simp_all add: is_stopped_def)
  with assms(1) show ?thesis
    by (auto simp: stream_ok_def conserved_def bounded_loss_def ac_simps)
qed

lemma wakes_ok:
  assumes "good s" "i < length (st_workers s)" "st_workers s ! i = Sleeping ms"
  shows "good (s\<lparr>st_workers := (st_workers s)[i := Proposing]\<rparr>)"
  using worker_moves [OF assms(2), of Proposing] assms(1,3)
  by (simp add: stream_ok_def conserved_def bounded_loss_def is_stopped_def)

lemma sends_ok:
  assumes "good s" "i < length (st_workers s)" "st_workers s ! i = Sending m"
    "chan_send mpsc (response m) (st_chan s) = Accepted c"
  shows "good (s\<lparr>st_workers := (st_workers s)[i := Proposing], st_chan := c\<rparr>)"
  using send_accepted [OF assms(4)] worker_drops [OF assms(2,3), of Proposing] assms(1)
  by (simp add: stream_ok_def conserved_def)

lemma stops_ok:
  assumes "good s" "i < length (st_workers s)" "st_workers s ! i = Sending m"
    "chan_send mpsc (response m) (st_chan s) = Rejected"
  shows "good (s\<lparr>st_workers := (st_workers s)[i := Stopped]\<rparr>)"
proof -
  have closed: "\<not> connected (st_chan s)" using assms(4) send_rejected by blast
  note moved = worker_drops [OF assms(2,3), of Stopped, simplified]
  have "mset (st_received s) + image_mset response (in_flight ((st_workers s)[i := Stopped]))
      \<subseteq># image_mset response (mset (st_got s))"
    using assms(1) closed moved(1)
    by (auto simp: stream_ok_def bounded_loss_def dest: mset_subset_eq_insertD)
  with assms(1) closed moved show ?thesis
    by (auto simp: stream_ok_def bounded_loss_def is_stopped_def)
qed

lemma receives_ok:
  "\<lbrakk>good s; chan_recv mpsc (st_chan s) = Some (x, c)\<rbrakk> \<Longrightarrow>
   good (s\<lparr>st_chan := c, st_received := st_received s @ [x]\<rparr>)"
  using recv_some [of "st_chan s" x c] by (auto simp: stream_ok_def conserved_def)

lemma disconnects_ok:
  assumes "good s" shows "good (s\<lparr>st_chan := chan_drop_rx mpsc (st_chan s)\<rparr>)"
proof -
  have "bounded_loss s" if "connected (st_chan s)"
  proof -
    from assms that have c: "conserved queued s" "length (queued (st_chan s)) \<le> POP_CONCURRENCY * 4"
      by (simp_all add: stream_ok_def)
    from arg_cong [OF c(1) [unfolded conserved_def], of size]
    have "length (st_got s) = length (st_received s) + length (queued (st_chan s)) + size (in_flight (st_workers s))"
      by simp
    with c show ?thesis by (simp add: bounded_loss_def conserved_def)
  qed
  with assms drop_rx [of "st_chan s"] show ?thesis
    by (cases "connected (st_chan s)") (auto simp: stream_ok_def bounded_loss_def)
qed

lemma received_popped:
  assumes "good s" shows "mset (st_received s) \<subseteq># image_mset response (mset (st_got s))"
proof (cases "connected (st_chan s)")
  case True
  with assms have "conserved queued s" by (simp add: stream_ok_def)
  then show ?thesis by (simp add: conserved_def union_assoc)
next
  case False
  with assms have "bounded_loss s" by (simp add: stream_ok_def)
  then show ?thesis
    unfolding bounded_loss_def using subset_mset.order_trans [OF mset_subset_eq_add_left] by blast
qed

lemma at_risk: "good s \<Longrightarrow> length (st_got s) \<le> length (st_received s) + POP_CONCURRENCY * 5"
proof (cases "connected (st_chan s)")
  case True
  assume "good s"
  with True have c: "conserved queued s" "length (queued (st_chan s)) \<le> POP_CONCURRENCY * 4"
    "length (st_workers s) = POP_CONCURRENCY" by (simp_all add: stream_ok_def)
  from arg_cong [OF c(1) [unfolded conserved_def], of size] c(2,3) in_flight_bound [of "st_workers s"]
  show ?thesis by simp
next
  case False
  assume "good s"
  with False in_flight_bound [of "st_workers s"] show ?thesis
    by (simp add: stream_ok_def bounded_loss_def)
qed

lemma step_ok: "\<lbrakk>consume_step mpsc api self q env s s'; good s\<rbrakk> \<Longrightarrow> good s'"
proof (induction rule: consume_step.induct)
  case (others_act s w)
  then show ?case by (simp add: stream_ok_def conserved_def bounded_loss_def)
qed (blast intro: pops_ok wakes_ok sends_ok stops_ok receives_ok disconnects_ok)+

text \<open>A closed channel stays closed, and what the client receives was got while it was open.\<close>

lemma step_stays_closed:
  "\<lbrakk>consume_step mpsc api self q env s s'; connected (st_chan s')\<rbrakk> \<Longrightarrow> connected (st_chan s)"
  by (induction rule: consume_step.induct) (auto dest: send_accepted recv_some simp: drop_rx)

lemma step_receives:
  "\<lbrakk>consume_step mpsc api self q env s s'; good s; x \<in> set (st_received s')\<rbrakk> \<Longrightarrow>
   x \<in> set (st_received s) \<or> connected (st_chan s) \<and> x \<in> response ` set (st_got s)"
proof (induction rule: consume_step.induct)
  case (client_receives s y c)
  then have y: "queued (st_chan s) = y # queued c" using recv_some by blast
  with client_receives.prems(1) have c: "connected (st_chan s)" by (auto simp: stream_ok_def)
  with client_receives.prems(1) have "conserved queued s" by (simp add: stream_ok_def)
  from arg_cong [OF this [unfolded conserved_def], of set_mset] y
  have "y \<in> response ` set (st_got s)" by auto
  with c client_receives.prems(2) show ?case by auto
qed simp_all

lemma steps_ok: "\<lbrakk>consume_steps mpsc api self q env s s'; good s\<rbrakk> \<Longrightarrow> good s'"
  by (induction rule: rtranclp_induct) (auto intro: step_ok)

end

interpretation lcs: consume_channel lc_api lc_capacity lc_queue lc_connected
  by unfold_locales

section \<open>Streams and the replicated queue\<close>

definition fetched :: "(Status, (u64 \<times> bytes) option) result outcome \<Rightarrow> (u64 \<times> bytes) list" where
  "fetched r = (case r of Returned (Inr (Some m)) \<Rightarrow> [m] | _ \<Rightarrow> [])"

lemma held_after_pop: "held (after_pop p) = (case p of Some m \<Rightarrow> [m] | None \<Rightarrow> [])"
  by (simp add: after_pop_def split: option.split)

text \<open>
  On any node: workers pop through the local openraft, or fetch from the leader when it
  refuses; what is fetched was committed as a pop. Other clients may commit anything in
  between.
\<close>

locale popping_stream =
  consume_channel mpsc capacity queued connected +
  queue_client checks ok "client_write api" commands
  for mpsc :: "((Status, ConsumeResponse) result, 'c) mpsc_api"
    and capacity queued connected checks
    and ok :: "'w \<Rightarrow> bool"
    and api :: "('ch, 's, 'w) mq_api"
    and commands +
  fixes env :: "'w \<Rightarrow> 'w \<Rightarrow> bool"
  assumes fetch_takes:
    "\<lbrakk>ok w; client_write api (Pop q) w = (Inl (ForwardToLeader (Some n)), w1);
      pop_via_forward api channels n address q (h, w1) = (r, h', w')\<rbrakk> \<Longrightarrow>
     ok w' \<and> (\<exists>added. commands w' = commands w @ added) \<and>
     (length (commands w') < 2 ^ 64 \<longrightarrow>
       mset (taken_from q w) + mset (fetched r) \<subseteq># mset (taken_from q w'))"
    and env_extends: "\<lbrakk>ok w; env w w'\<rbrakk> \<Longrightarrow> ok w' \<and> (\<exists>added. commands w' = commands w @ added)"
begin

text \<open>What an iteration and a step take from the queue, and that no command is ever lost.\<close>

lemma accepted_takes:
  assumes "ok w" "client_write api (Pop q) w = (Inr resp, w')" "length (commands w') < 2 ^ 64"
  shows "mset (taken_from q w) + mset (held (after_pop (popped resp))) \<subseteq># mset (taken_from q w')"
proof -
  have "length (commands w) < 2 ^ 64 - 1" using accepted_answer [OF assms(1,2)] assms(3) by simp
  then show ?thesis
    using pop_answer(1) [OF assms(1,2)] by (auto simp: held_after_pop split: option.split)
qed

lemma nothing_taken:
  "\<lbrakk>commands w' = commands w @ added; length (commands w') < 2 ^ 64\<rbrakk> \<Longrightarrow>
   mset (taken_from q w) \<subseteq># mset (taken_from q w')"
  using taken_extends [of w' w added q] by auto

lemma pop_takes:
  assumes "ok w" "worker_pop api self q (h0, w) = (r, h, w')"
  shows "ok w' \<and> (\<exists>added. commands w' = commands w @ added) \<and>
    (length (commands w') < 2 ^ 64 \<longrightarrow>
      mset (taken_from q w) + mset (held (after_iteration r)) \<subseteq># mset (taken_from q w'))"
proof -
  obtain x v where x: "client_write api (Pop q) w = (x, v)" by fastforce
  note v = stays_ok [OF assms(1) x] write_extends [OF assms(1) x]
  have idle: ?thesis if "r = Returned (Sleeping 200)" "w' = v"
    using v that nothing_taken by (auto simp: after_iteration_def)
  show ?thesis
  proof (cases x)
    case (Inr resp)
    with x assms(2) have "r = Returned (after_pop (popped resp))" "w' = v"
      by (simp_all add: worker_pop_def)
    with v accepted_takes [OF assms(1) x [unfolded Inr]] show ?thesis by (auto simp: after_iteration_def)
  next
    case (Inl e)
    show ?thesis
    proof (cases "\<exists>n address. e = ForwardToLeader (Some n) \<and> fmlookup (svc_peers self) n = Some address")
      case False
      then have "r = Returned (Sleeping 200) \<and> w' = v"
        using x Inl assms(2) by (cases e) (auto simp: worker_pop_def bind_eq_Some_conv split: option.splits)
      then show ?thesis using idle by blast
    next
      case True
      then obtain n address where e: "e = ForwardToLeader (Some n)" "fmlookup (svc_peers self) n = Some address"
        by blast
      obtain y h1 v1 where y: "pop_via_forward api (forward_channels self) n address q (h0, v) = (y, h1, v1)"
        by (metis prod_cases3)
      with x Inl e assms(2) have "held (after_iteration r) = fetched y" "w' = v1"
        by (auto simp: worker_pop_def after_iteration_def fetched_def held_after_pop
            split: outcome.splits sum.splits option.splits)
      with fetch_takes [OF assms(1) x [unfolded Inl e(1)] y] show ?thesis by simp
    qed
  qed
qed

definition takes :: "string \<Rightarrow> ('c, 'ch, 'w) consume_stream \<Rightarrow> ('c, 'ch, 'w) consume_stream \<Rightarrow> bool" where
  "takes q s s' \<longleftrightarrow> ok (st_world s') \<and> (\<exists>added. commands (st_world s') = commands (st_world s) @ added) \<and>
     (\<exists>new. st_got s' = st_got s @ new \<and>
       (length (commands (st_world s')) < 2 ^ 64 \<longrightarrow>
         mset (taken_from q (st_world s)) + mset new \<subseteq># mset (taken_from q (st_world s'))))"

lemma step_takes: "\<lbrakk>consume_step mpsc api self q env s s'; ok (st_world s)\<rbrakk> \<Longrightarrow> takes q s s'"
proof (induction rule: consume_step.induct)
  case (worker_pops i s r h w)
  with pop_takes [OF worker_pops.prems worker_pops.hyps(3)] show ?case by (simp add: takes_def)
next
  case (others_act s w)
  then obtain added where "ok w" "commands w = commands (st_world s) @ added" using env_extends by blast
  with taken_extends [of w "st_world s" added q] show ?case by (auto simp: takes_def)
qed (simp_all add: takes_def)

lemma takes_refl: "ok (st_world s) \<Longrightarrow> takes q s s"
  by (simp add: takes_def)

lemma takes_trans:
  assumes "takes q s t" "takes q t u" shows "takes q s u"
proof -
  from assms obtain more new added new' where
    t: "commands (st_world t) = commands (st_world s) @ more" "st_got t = st_got s @ new"
      "length (commands (st_world t)) < 2 ^ 64 \<Longrightarrow>
        mset (taken_from q (st_world s)) + mset new \<subseteq># mset (taken_from q (st_world t))"
    and u: "ok (st_world u)" "commands (st_world u) = commands (st_world t) @ added" "st_got u = st_got t @ new'"
      "length (commands (st_world u)) < 2 ^ 64 \<Longrightarrow>
        mset (taken_from q (st_world t)) + mset new' \<subseteq># mset (taken_from q (st_world u))"
    by (auto simp: takes_def)
  have "mset (taken_from q (st_world s)) + mset (new @ new') \<subseteq># mset (taken_from q (st_world u))"
    if "length (commands (st_world u)) < 2 ^ 64"
  proof -
    have "mset (taken_from q (st_world s)) + mset (new @ new') \<subseteq># mset (taken_from q (st_world t)) + mset new'"
      using t(3) that u(2) by simp
    then show ?thesis using u(4) [OF that] by (rule subset_mset.order_trans)
  qed
  with t u show ?thesis by (auto simp: takes_def)
qed

lemma steps_take: "\<lbrakk>consume_steps mpsc api self q env s s'; ok (st_world s)\<rbrakk> \<Longrightarrow> takes q s s'"
proof (induction rule: rtranclp_induct)
  case (step t u)
  then have t: "takes q s t" by blast
  then have "ok (st_world t)" by (simp add: takes_def)
  from takes_trans [OF t step_takes [OF step.hyps(2) this]] show ?case .
qed (rule takes_refl)

lemma commands_grow:
  "\<lbrakk>consume_steps mpsc api self q env s s'; ok (st_world s)\<rbrakk> \<Longrightarrow>
   \<exists>added. commands (st_world s') = commands (st_world s) @ added"
  using steps_take by (simp add: takes_def)

text \<open>Messages that all come from committed pops are pairwise different and were published.\<close>

lemma taken_distinct:
  assumes "length (commands w) < 2 ^ 64" shows "distinct (taken_from q w)"
proof -
  obtain rest where t: "taken_from q w @ rest = with_offsets (published_to q (commands w))"
    using taken_published [OF assms] by blast
  have "length (published_to q (commands w)) \<le> 2 ^ 64"
    using published_to_length [of q "commands w"] assms by simp
  from distinct_with_offsets [OF this] show ?thesis by (metis distinct_append distinct_map t)
qed

lemma taken_once:
  assumes "length (commands w) < 2 ^ 64" "mset rs \<subseteq># mset (map response (taken_from q w))"
  shows "distinct rs \<and> set rs \<subseteq> response ` set (with_offsets (published_to q (commands w)))"
proof -
  obtain rest where t: "taken_from q w @ rest = with_offsets (published_to q (commands w))"
    using taken_published [OF assms(1)] by blast
  have "distinct (map response (taken_from q w))"
    using taken_distinct [OF assms(1)] by (meson distinct_map inj_on_subset inj_response subset_UNIV)
  then have "distinct rs" using submultiset_distinct [OF assms(2)] by blast
  then show ?thesis using set_mset_mono [OF assms(2)] by (auto simp flip: t)
qed

lemma received_once:
  assumes "consume_steps mpsc api self q env (consume_start mpsc h w) s" "ok w"
    and "length (commands (st_world s)) < 2 ^ 64"
  shows "distinct (st_received s)"
    and "set (st_received s) \<subseteq> response ` set (with_offsets (published_to q (commands (st_world s))))"
proof -
  have "takes q (consume_start mpsc h w) s"
    using steps_take [OF assms(1)] assms(2) by (simp add: consume_start_def)
  then have "mset (taken_from q w) + mset (st_got s) \<subseteq># mset (taken_from q (st_world s))"
    using assms(3) by (simp add: takes_def consume_start_def)
  then have g: "mset (st_got s) \<subseteq># mset (taken_from q (st_world s))"
    by (metis mset_subset_eq_add_right subset_mset.order_trans)
  from steps_ok [OF assms(1) consume_start_ok] have "good s" .
  then have "mset (st_received s) \<subseteq># image_mset response (mset (st_got s))" by (rule received_popped)
  also have "\<dots> \<subseteq># mset (map response (taken_from q (st_world s)))"
    using image_mset_subseteq_mono [OF g, of response] by simp
  finally have sub: "mset (st_received s) \<subseteq># mset (map response (taken_from q (st_world s)))" .
  show "distinct (st_received s)"
    "set (st_received s) \<subseteq> response ` set (with_offsets (published_to q (commands (st_world s))))"
    using taken_once [OF assms(3) sub] by blast+
qed

end

text \<open>A node that leads the queue group for the whole run never fetches.\<close>

locale leader_stream =
  consume_channel mpsc capacity queued connected +
  queue_client checks ok "client_write api" commands
  for mpsc :: "((Status, ConsumeResponse) result, 'c) mpsc_api"
    and capacity queued connected checks
    and ok :: "'w \<Rightarrow> bool"
    and api :: "('ch, 's, 'w) mq_api"
    and commands +
  fixes env :: "'w \<Rightarrow> 'w \<Rightarrow> bool"
  assumes leads: "ok w \<Longrightarrow> client_write api (Pop q) w \<noteq> (Inl (ForwardToLeader hint), w')"
    and others_extend: "\<lbrakk>ok w; env w w'\<rbrakk> \<Longrightarrow> ok w' \<and> (\<exists>added. commands w' = commands w @ added)"

sublocale leader_stream \<subseteq> popping_stream
  using leads others_extend by unfold_locales blast+

context leader_stream
begin

lemma pops: "popping_stream mpsc capacity queued connected checks ok api commands env"
  by unfold_locales

text \<open>An iteration takes what its worker gets, or at most one message when it ends in an error.\<close>

lemma iteration_takes:
  assumes "ok w" "worker_pop api self q (h0, w) = (r, h, w')" "length (commands w') < 2 ^ 64"
  shows "length (taken_from q w') \<le>
    length (taken_from q w) + length (held (after_iteration r)) + retried (after_iteration r)"
proof -
  obtain x v where x: "client_write api (Pop q) w = (x, v)" by fastforce
  show ?thesis
  proof (cases x)
    case (Inr resp)
    with x assms(2) have r: "r = Returned (after_pop (popped resp))" "w' = v" by (simp_all add: worker_pop_def)
    have "length (commands w) < 2 ^ 64 - 1"
      using accepted_answer [OF assms(1) x [unfolded Inr]] assms(3) r(2) by simp
    from pop_answer(1) [OF assms(1) x [unfolded Inr] this] r show ?thesis
      by (simp add: after_iteration_def held_after_pop split: option.split)
  next
    case (Inl e)
    with leads [OF assms(1)] x obtain err where e: "e = WriteFailed err" by (cases e) auto
    with x Inl assms(2) have r: "r = Returned (Sleeping 200)" "w' = v" by (simp_all add: worker_pop_def)
    obtain added where "commands w' = commands w @ added" "added = [] \<or> added = [Pop q]"
      using write_extends [OF assms(1) x] r(2) by blast
    with taken_grows [of w' w added q] assms(3) r(1) show ?thesis by (auto simp: after_iteration_def)
  qed
qed

end


section \<open>The leader's group, and traces on it\<close>

definition other_write :: "bool \<Rightarrow> queue_group \<Rightarrow> queue_group \<Rightarrow> bool" where
  "other_write checks g g' \<longleftrightarrow> (\<exists>req r. group_write checks req g = (r, g'))"

lemma leader_api_write [simp]: "client_write leader_api = group_write True"
  by (simp add: leader_api_def)

interpretation lead: leader_stream lc_api lc_capacity lc_queue lc_connected True "leads_group True"
  leader_api group_commands "other_write True"
proof -
  have "queue_client True (leads_group True) (client_write leader_api) group_commands"
    by (simp add: qleader.queue_client_axioms)
  then show "leader_stream lc_api lc_capacity lc_queue lc_connected True (leads_group True)
      leader_api group_commands (other_write True)"
    using leading_write
    by (intro leader_stream.intro lcs.consume_channel_axioms leader_stream_axioms.intro)
       (fastforce simp: other_write_def)+
qed



definition two_published :: queue_group where
  "two_published =
     snd (group_write True (Publish ''q'' [8]) (snd (group_write True (Publish ''q'' [7]) (group_new 1 (Some 1)))))"

abbreviation queue_value :: "(u64 \<times> bytes) list \<Rightarrow> QueueState" where
  "queue_value ms \<equiv> \<lparr>queues = fmupd ''q'' ms fmempty, next_offset = fmupd ''q'' 2 fmempty\<rparr>"

lemma fmupd_twice [simp]: "fmupd k v (fmupd k u m) = fmupd k v m"
  by (rule fmap_ext) simp

lemma two_published_value:
  "grp_leader two_published = Some (grp_id two_published)"
  "grp_heap two_published (sm_state (grp_machine two_published)) = mutex_new (queue_value [(0, [7]), (1, [8])])"
  by (simp_all add: two_published_def group_write_leader group_new_def Let_def with_lock_def
      QueueState_default_eq or_insert_def add_u64_def)

lemma two_published_ok:
  "leads_group True two_published" "length (group_commands two_published) = 2"
  "group_commands two_published = [Publish ''q'' [7], Publish ''q'' [8]]"
proof -
  have "leads_group True (group_new 1 (Some 1))"
    using group_new_ok by (simp add: leads_group_def group_new_def)
  note one = leading_write [OF this surjective_pairing, of "Publish ''q'' [7]"]
  note two = leading_write [OF one(1) surjective_pairing, of "Publish ''q'' [8]"]
  show "leads_group True two_published" "length (group_commands two_published) = 2"
    "group_commands two_published = [Publish ''q'' [7], Publish ''q'' [8]]"
    using two one(2) by (simp_all add: two_published_def group_commands_new)
qed

text \<open>Two pops take the two messages.\<close>

lemma two_pops:
  obtains g1 g2 where
    "group_write True (Pop ''q'') two_published = (Inr \<lparr>published_offset = None, popped = Some (0, [7])\<rparr>, g1)"
    "group_write True (Pop ''q'') g1 = (Inr \<lparr>published_offset = None, popped = Some (1, [8])\<rparr>, g2)"
    "grp_heap g2 (sm_state (grp_machine g2)) = mutex_new (queue_value [])"
    "group_commands g2 = [Publish ''q'' [7], Publish ''q'' [8], Pop ''q'', Pop ''q'']"
proof -
  obtain g1 where g1: "group_write True (Pop ''q'') two_published =
      (Inr \<lparr>published_offset = None, popped = Some (0, [7])\<rparr>, g1)" "grp_leader g1 = Some (grp_id g1)"
    "grp_heap g1 (sm_state (grp_machine g1)) = mutex_new (queue_value [(1, [8])])"
    "group_commands g1 = group_commands two_published @ [Pop ''q'']"
    by (rule leading_value [OF two_published_value, of True "Pop ''q''"]) auto
  obtain g2 where g2: "group_write True (Pop ''q'') g1 =
      (Inr \<lparr>published_offset = None, popped = Some (1, [8])\<rparr>, g2)"
    "grp_heap g2 (sm_state (grp_machine g2)) = mutex_new (queue_value [])"
    "group_commands g2 = group_commands g1 @ [Pop ''q'']"
    by (rule leading_value [OF g1(2,3), of True "Pop ''q''"]) auto
  have "group_commands g2 = [Publish ''q'' [7], Publish ''q'' [8], Pop ''q'', Pop ''q'']" 
    using g1(4) g2(3) two_published_ok(3) by simp
  with g1(1) g2(1,2) show thesis by (rule that)
qed

text \<open>One worker pops a message and sends it, and the client receives it.\<close>

lemma leader_pop:
  "group_write True (Pop q) g = (Inr resp, g') \<Longrightarrow>
   worker_pop leader_api self q (h, g) = (Returned (after_pop (popped resp)), h, g')"
  by (simp add: worker_pop_def)

abbreviation one_sent ::
  "'ch channel_heap \<Rightarrow> 'w \<Rightarrow> u64 \<times> bytes \<Rightarrow> (Status, ConsumeResponse) result list \<Rightarrow> (Status, ConsumeResponse) result list
     \<Rightarrow> ((Status, ConsumeResponse) result list_channel, 'ch, 'w) consume_stream" where
  "one_sent h w m xs rs \<equiv>
     \<lparr>st_workers = replicate POP_CONCURRENCY Proposing,
      st_chan = \<lparr>lc_capacity = 128, lc_queue = xs, lc_connected = True\<rparr>, st_caches = h, st_world = w,
      st_got = [m], st_retries = 0, st_received = rs\<rparr>"

abbreviation one_held where
  "one_held h w m \<equiv>
     (one_sent h w m [] [])\<lparr>st_workers := (replicate POP_CONCURRENCY Proposing)[0 := Sending m]\<rparr>"

lemma pops_one:
  assumes "worker_pop api self q (h, w) = (Returned (Sending m), h', w')"
  shows "consume_step lc_api api self q env (consume_start lc_api h w) (one_held h' w' m)"
  using worker_pops [of 0 "consume_start lc_api h w" api self q "Returned (Sending m)" h' w' lc_api env] assms
  by (simp add: consume_start_def after_iteration_def lc_api_def)

lemma sends_one: "consume_step lc_api api self q env (one_held h w m) (one_sent h w m [response m] [])"
proof -
  have "(replicate POP_CONCURRENCY Proposing)[0 := Sending m, 0 := Proposing] = replicate POP_CONCURRENCY Proposing"
    by (simp add: list_eq_iff_nth_eq nth_list_update)
  with worker_sends [of 0 "one_held h w m" m lc_api "\<lparr>lc_capacity = 128, lc_queue = [response m], lc_connected = True\<rparr>" api self q env]
  show ?thesis by (simp add: lc_api_def lc_send_def)
qed

lemma one_message:
  assumes "worker_pop api self q (h, w) = (Returned (Sending m), h', w')"
  shows "consume_steps lc_api api self q env (consume_start lc_api h w) (one_sent h' w' m [] [response m])"
proof (rule three_steps)
  show "consume_step lc_api api self q env (consume_start lc_api h w) (one_held h' w' m)"
    using assms by (rule pops_one)
  show "consume_step lc_api api self q env (one_held h' w' m) (one_sent h' w' m [response m] [])"
    by (rule sends_one)
  show "consume_step lc_api api self q env (one_sent h' w' m [response m] []) (one_sent h' w' m [] [response m])"
    using client_receives [of lc_api "one_sent h' w' m [response m] []" "response m"
        "\<lparr>lc_capacity = 128, lc_queue = [], lc_connected = True\<rparr>" api self q env]
    by (simp add: lc_api_def lc_recv_def)
qed

text \<open>Two workers pop the two messages before either sends.\<close>

lemma both_popped:
  obtains g where "grp_heap g (sm_state (grp_machine g)) = mutex_new (queue_value [])"
    "group_commands g = [Publish ''q'' [7], Publish ''q'' [8], Pop ''q'', Pop ''q'']"
    "consume_steps lc_api leader_api self ''q'' env (consume_start lc_api h two_published)
       \<lparr>st_workers = (replicate POP_CONCURRENCY Proposing)[0 := Sending (0, [7]), 1 := Sending (1, [8])],
        st_chan = \<lparr>lc_capacity = 128, lc_queue = [], lc_connected = True\<rparr>, st_caches = h, st_world = g,
        st_got = [(0, [7]), (1, [8])], st_retries = 0, st_received = []\<rparr>"
proof -
  obtain g1 g2 where g: "group_write True (Pop ''q'') two_published =
      (Inr \<lparr>published_offset = None, popped = Some (0, [7])\<rparr>, g1)"
    "group_write True (Pop ''q'') g1 = (Inr \<lparr>published_offset = None, popped = Some (1, [8])\<rparr>, g2)"
    "grp_heap g2 (sm_state (grp_machine g2)) = mutex_new (queue_value [])"
    "group_commands g2 = [Publish ''q'' [7], Publish ''q'' [8], Pop ''q'', Pop ''q'']"
    by (rule two_pops)
  let ?ws = "replicate POP_CONCURRENCY Proposing"
  let ?s0 = "consume_start lc_api h two_published"
  let ?s1 = "?s0\<lparr>st_workers := ?ws[0 := Sending (0, [7])], st_caches := h, st_world := g1,
      st_got := [(0, [7])]\<rparr>"
  have "consume_step lc_api leader_api self ''q'' env ?s0 ?s1"
    using worker_pops [of 0 ?s0 leader_api self "''q''" "Returned (Sending (0, [7]))" h g1 lc_api env] g(1)
    by (simp add: consume_start_def worker_pop_def after_pop_def after_iteration_def)
  moreover have "consume_step lc_api leader_api self ''q'' env ?s1
      (?s1\<lparr>st_workers := ?ws[0 := Sending (0, [7]), 1 := Sending (1, [8])], st_caches := h, st_world := g2,
           st_got := [(0, [7]), (1, [8])]\<rparr>)"
    using worker_pops [of 1 ?s1 leader_api self "''q''" "Returned (Sending (1, [8]))" h g2 lc_api env] g(2)
    by (simp add: consume_start_def worker_pop_def after_pop_def after_iteration_def)
  ultimately show thesis
    using that [OF g(3,4)]
    by (simp add: consume_start_def lc_api_def) (meson converse_rtranclp_into_rtranclp rtranclp.rtrancl_refl)
qed

abbreviation holding :: "worker list" where
  "holding \<equiv> (replicate POP_CONCURRENCY Proposing)[0 := Sending (0, [7]), 1 := Sending (1, [8])]"

lemma holding_sent:
  "holding[0 := Proposing, 1 := Proposing] = replicate POP_CONCURRENCY Proposing"
  "holding[1 := Proposing, 0 := Proposing] = replicate POP_CONCURRENCY Proposing"
  by (simp_all add: list_eq_iff_nth_eq nth_list_update)

text \<open>Two workers that hold messages send them, in either order.\<close>

lemma two_sends:
  assumes "i < length ws" "j < length ws" "i \<noteq> j" "ws ! i = Sending m" "ws ! j = Sending n"
  shows "consume_steps lc_api api self q env
    \<lparr>st_workers = ws, st_chan = \<lparr>lc_capacity = 128, lc_queue = [], lc_connected = True\<rparr>, st_caches = h,
     st_world = w, st_got = got, st_retries = 0, st_received = rs\<rparr>
    \<lparr>st_workers = ws[i := Proposing, j := Proposing],
     st_chan = \<lparr>lc_capacity = 128, lc_queue = [response m, response n], lc_connected = True\<rparr>, st_caches = h,
     st_world = w, st_got = got, st_retries = 0, st_received = rs\<rparr>" (is "consume_steps _ _ _ _ _ ?s ?u")
proof -
  let ?c = "\<lparr>lc_capacity = 128, lc_queue = [response m], lc_connected = True\<rparr>"
  let ?t = "?s\<lparr>st_workers := ws[i := Proposing], st_chan := ?c\<rparr>"
  have "consume_step lc_api api self q env ?s ?t"
    using worker_sends [of i ?s m lc_api ?c api self q env] assms by (simp add: lc_api_def lc_send_def)
  moreover have "consume_step lc_api api self q env ?t ?u"
    using worker_sends [of j ?t n lc_api "\<lparr>lc_capacity = 128, lc_queue = [response m, response n], lc_connected = True\<rparr>" api self q env]
      assms by (simp add: lc_api_def lc_send_def)
  ultimately show ?thesis by (meson converse_rtranclp_into_rtranclp rtranclp.rtrancl_refl)
qed

lemma one_receive:
  "consume_steps lc_api api self q env
    \<lparr>st_workers = ws, st_chan = \<lparr>lc_capacity = n, lc_queue = x # xs, lc_connected = b\<rparr>, st_caches = h,
     st_world = w, st_got = got, st_retries = 0, st_received = rs\<rparr>
    \<lparr>st_workers = ws, st_chan = \<lparr>lc_capacity = n, lc_queue = xs, lc_connected = b\<rparr>, st_caches = h,
     st_world = w, st_got = got, st_retries = 0, st_received = rs @ [x]\<rparr>" (is "consume_steps _ _ _ _ _ ?s _")
  using r_into_rtranclp [of "consume_step lc_api api self q env", OF client_receives [of lc_api ?s x "\<lparr>lc_capacity = n, lc_queue = xs, lc_connected = b\<rparr>" api self q env]]
  by (simp add: lc_api_def lc_recv_def)

lemma hang_up:
  "consume_steps lc_api api self q env
    \<lparr>st_workers = ws, st_chan = \<lparr>lc_capacity = n, lc_queue = xs, lc_connected = b\<rparr>, st_caches = h,
     st_world = w, st_got = got, st_retries = 0, st_received = rs\<rparr>
    \<lparr>st_workers = ws, st_chan = \<lparr>lc_capacity = n, lc_queue = [], lc_connected = False\<rparr>, st_caches = h,
     st_world = w, st_got = got, st_retries = 0, st_received = rs\<rparr>" (is "consume_steps _ _ _ _ _ ?s _")
  using r_into_rtranclp [of "consume_step lc_api api self q env", OF client_disconnects [of lc_api api self q env ?s]] by (simp add: lc_api_def)

abbreviation after_sends where
  "after_sends h g xs b rs \<equiv>
     \<lparr>st_workers = replicate POP_CONCURRENCY Proposing,
      st_chan = \<lparr>lc_capacity = 128, lc_queue = xs, lc_connected = b\<rparr>, st_caches = h, st_world = g,
      st_got = [(0, [7]), (1, [8])], st_retries = 0, st_received = rs\<rparr>"

lemma both_sent:
  obtains g where "grp_heap g (sm_state (grp_machine g)) = mutex_new (queue_value [])"
    "group_commands g = [Publish ''q'' [7], Publish ''q'' [8], Pop ''q'', Pop ''q'']"
    "consume_steps lc_api leader_api self ''q'' env (consume_start lc_api h two_published)
       (after_sends h g [response (0, [7]), response (1, [8])] True [])"
    "consume_steps lc_api leader_api self ''q'' env (consume_start lc_api h two_published)
       (after_sends h g [response (1, [8]), response (0, [7])] True [])"
proof -
  obtain g where g: "grp_heap g (sm_state (grp_machine g)) = mutex_new (queue_value [])"
    and c: "group_commands g = [Publish ''q'' [7], Publish ''q'' [8], Pop ''q'', Pop ''q'']"
    and run: "consume_steps lc_api leader_api self ''q'' env (consume_start lc_api h two_published)
       \<lparr>st_workers = holding, st_chan = \<lparr>lc_capacity = 128, lc_queue = [], lc_connected = True\<rparr>,
        st_caches = h, st_world = g, st_got = [(0, [7]), (1, [8])], st_retries = 0, st_received = []\<rparr>"
    by (rule both_popped)
  have h: "0 < length holding" "1 < length holding" "holding ! 0 = Sending (0, [7])"
    "holding ! 1 = Sending (1, [8])" by simp_all
  note a = two_sends [OF h(1,2) zero_neq_one h(3,4), unfolded holding_sent]
  note b = two_sends [OF h(2,1) one_neq_zero h(4,3), unfolded holding_sent]
  show thesis by (rule that [OF g c rtranclp_trans [OF run a] rtranclp_trans [OF run b]])
qed

lemma consume_started: "consume mpsc inbound h w = Inr (q, s) \<Longrightarrow> s = consume_start mpsc h w"
  by (auto simp: consume_def split: sum.splits)

lemma consume_subscribed:
  "consume mpsc [Inr \<lparr>kind = Some (Subscribe q)\<rparr>] h w = Inr (q, consume_start mpsc h w)"
  by (simp add: consume_def consume_open_def)

section \<open>Properties\<close>

text \<open>
  C12: while the client of a consume stream is connected, every message its workers popped has
  been received by the client, waits in the channel, or is held by a worker, once each, in
  any interleaving of the 32 workers, the client and the rest of the cluster; the channel
  holds at most 128 messages and the workers at most 32.
\<close>

theorem connected_stream_conserves:
  assumes "bounded_channel mpsc capacity queued connected"
    and "consume mpsc inbound h w = Inr (q, s0)" and "consume_steps mpsc api self q env s0 s"
    and "connected (st_chan s)"
  shows "image_mset response (mset (st_got s)) =
      mset (st_received s) + mset (queued (st_chan s)) + image_mset response (in_flight (st_workers s))
    \<and> length (queued (st_chan s)) \<le> 128 \<and> size (in_flight (st_workers s)) \<le> 32"
proof -
  have steps: "consume_steps mpsc api self q env (consume_start mpsc h w) s"
    using assms(2,3) consume_started by metis
  have c: "consume_channel mpsc capacity queued connected" using assms(1) by (rule consume_channel.intro)
  have "stream_ok capacity queued connected s"
    by (rule consume_channel.steps_ok [OF c steps consume_channel.consume_start_ok [OF c]])
  with assms(4) in_flight_bound [of "st_workers s"] show ?thesis
    by (auto simp: stream_ok_def conserved_def)
qed

theorem connected_stream_conserves_witness:
  "\<exists>s. consume_steps lc_api leader_api (svc ''node-1'') ''q'' (other_write True)
         (consume_start lc_api no_channels two_published) s
     \<and> st_got s = [(0, [7]), (1, [8])] \<and> lc_connected (st_chan s)
     \<and> image_mset response (mset (st_got s)) =
         mset (st_received s) + mset (lc_queue (st_chan s)) + image_mset response (in_flight (st_workers s))"
proof -
  obtain g where run: "consume_steps lc_api leader_api (svc ''node-1'') ''q'' (other_write True)
      (consume_start lc_api no_channels two_published)
       \<lparr>st_workers = (replicate POP_CONCURRENCY Proposing)[0 := Sending (0, [7]), 1 := Sending (1, [8])],
        st_chan = \<lparr>lc_capacity = 128, lc_queue = [], lc_connected = True\<rparr>, st_caches = no_channels,
        st_world = g, st_got = [(0, [7]), (1, [8])], st_retries = 0, st_received = []\<rparr>" (is "consume_steps _ _ _ _ _ _ ?s")
    by (rule both_popped)
  have "lc_connected (st_chan ?s)" by simp
  from connected_stream_conserves [OF lc.bounded_channel_axioms consume_subscribed run this] run show ?thesis
    by (intro exI [of _ ?s]) simp
qed



text \<open>
  No message is delivered twice. On a node that leads the queue group for the whole run,
  with other clients committing whatever they like in between, the messages the client
  receives are pairwise different, and each is a published message under its own offset.
\<close>

theorem leader_stream_at_most_once:
  assumes "leader_stream mpsc capacity queued connected checks ok api commands env"
    and "consume mpsc inbound h w = Inr (q, s0)" and "consume_steps mpsc api self q env s0 s" and "ok w"
    and "length (commands (st_world s)) < 2 ^ 64"
  shows "distinct (st_received s)
    \<and> set (st_received s) \<subseteq> response ` set (with_offsets (published_to q (commands (st_world s))))"
proof -
  have steps: "consume_steps mpsc api self q env (consume_start mpsc h w) s"
    using assms(2,3) consume_started by metis
  show ?thesis using popping_stream.received_once [OF leader_stream.pops [OF assms(1)] steps assms(4,5)] by blast
qed

theorem leader_stream_at_most_once_witness:
  "\<exists>s. consume_steps lc_api leader_api (svc ''node-1'') ''q'' (other_write True)
         (consume_start lc_api no_channels two_published) s
     \<and> st_received s = [response (0, [7])] \<and> distinct (st_received s)"
proof -
  obtain g where c: "group_commands g = [Publish ''q'' [7], Publish ''q'' [8], Pop ''q'', Pop ''q'']"
    and run: "consume_steps lc_api leader_api (svc ''node-1'') ''q'' (other_write True)
      (consume_start lc_api no_channels two_published)
      (after_sends no_channels g [response (0, [7]), response (1, [8])] True [])"
    by (rule both_sent)
  let ?s = "after_sends no_channels g [response (1, [8])] True [response (0, [7])]"
  note run
  also note one_receive
  finally have run': "consume_steps lc_api leader_api (svc ''node-1'') ''q'' (other_write True)
      (consume_start lc_api no_channels two_published) ?s" by simp
  have "length (group_commands (st_world ?s)) < 2 ^ 64" using c by simp
  from leader_stream_at_most_once [OF lead.leader_stream_axioms consume_subscribed run' two_published_ok(1) this] run'
  show ?thesis by (intro exI [of _ ?s]) simp
qed

text \<open>
  A client that takes one message and hangs up makes the others disappear. Two messages
  are published; two workers pop them and fill the channel; the client receives the first
  and drops the stream, as \<open>pop_via_forward\<close> does for every message it fetches from the
  leader. The second message was received by nobody, no worker holds it, and the replicated
  queue no longer has it.
\<close>

theorem hanging_up_loses_messages:
  "\<exists>s. consume_steps lc_api leader_api self ''q'' env (consume_start lc_api h two_published) s
     \<and> st_got s = [(0, [7]), (1, [8])] \<and> st_received s = [response (0, [7])]
     \<and> \<not> lc_connected (st_chan s) \<and> lc_queue (st_chan s) = [] \<and> in_flight (st_workers s) = {#}
     \<and> fmlookup (queues (guarded (grp_heap (st_world s) (sm_state (grp_machine (st_world s)))))) ''q'' = Some []"
proof -
  obtain g where g: "grp_heap g (sm_state (grp_machine g)) = mutex_new (queue_value [])"
    and run: "consume_steps lc_api leader_api self ''q'' env (consume_start lc_api h two_published)
      (after_sends h g [response (0, [7]), response (1, [8])] True [])"
    by (rule both_sent)
  note run
  also note one_receive
  also note hang_up
  finally have "consume_steps lc_api leader_api self ''q'' env (consume_start lc_api h two_published)
      (after_sends h g [] False [response (0, [7])])" by simp
  then show ?thesis
    by (intro exI [of _ "after_sends h g [] False [response (0, [7])]"]) (simp add: g in_flight_start)
qed

text \<open>
  A stream does not keep the order of its queue: two workers that popped the messages 0
  and 1 may send them the other way round, and the client receives 1 before 0.
\<close>

theorem stream_may_reorder:
  "\<exists>s. consume_steps lc_api leader_api self ''q'' env (consume_start lc_api h two_published) s
     \<and> st_got s = [(0, [7]), (1, [8])] \<and> st_received s = [response (1, [8]), response (0, [7])]"
proof -
  obtain g where run: "consume_steps lc_api leader_api self ''q'' env (consume_start lc_api h two_published)
      (after_sends h g [response (1, [8]), response (0, [7])] True [])"
    by (rule both_sent)
  note run
  also note one_receive
  also note one_receive
  finally have "consume_steps lc_api leader_api self ''q'' env (consume_start lc_api h two_published)
      (after_sends h g [] True [response (1, [8]), response (0, [7])])" by simp
  then show ?thesis
    by (intro exI [of _ "after_sends h g [] True [response (1, [8]), response (0, [7])]"]) simp
qed

end
