(* ===== verification/Mq_Client.thy ===== *)
theory Mq_Client
  imports Consume
begin

text \<open>
  The client library \<open>Blun.Mq.Client\<close>: connecting, publishing and consuming, over the same
  remote calls as the host's forwarding.
\<close>

section \<open>Operations\<close>

datatype MqClientError = InvalidAddress string | Rpc Status | ChannelClosed

record 'ch MqClient =
  inner :: 'ch

definition MqClient_connect ::
  "('ch, 's, 'w) mq_api \<Rightarrow> string \<Rightarrow> (MqClientError, 'ch MqClient) result" where
  "MqClient_connect api address =
     (case from_shared api address of
        Inl e \<Rightarrow> Inl (InvalidAddress e)
      | Inr channel \<Rightarrow> Inr \<lparr>inner = channel\<rparr>)"

definition MqClient_publish ::
  "('ch, 's, 'w) mq_api \<Rightarrow> 'ch MqClient \<Rightarrow> string \<Rightarrow> bytes \<Rightarrow> 'ch channel_heap \<times> 'w
     \<Rightarrow> (MqClientError, u64) result \<times> 'ch channel_heap \<times> 'w" where
  "MqClient_publish api self queue payload hw =
     (case call_publish api (inner self) \<lparr>pub_queue = queue, pub_payload = payload\<rparr> hw of
        (Inl status, hw) \<Rightarrow> (Inl (Rpc status), hw)
      | (Inr resp, hw) \<Rightarrow> (Inr (pub_offset resp), hw))"

definition MqClient_consume ::
  "('ch, 's, 'w) mq_api \<Rightarrow> 'ch MqClient \<Rightarrow> string \<Rightarrow> 'ch channel_heap \<times> 'w
     \<Rightarrow> (MqClientError, 's) result \<times> 'ch channel_heap \<times> 'w" where
  "MqClient_consume api self queue hw =
     (case send_one api 16 \<lparr>kind = Some (Subscribe queue)\<rparr> of
        Inl e \<Rightarrow> (Inl ChannelClosed, hw)
      | Inr outbound \<Rightarrow>
          (case call_consume api (inner self) outbound hw of
             (Inl status, hw) \<Rightarrow> (Inl (Rpc status), hw)
           | (Inr inbound, hw) \<Rightarrow> (Inr inbound, hw)))"

text \<open>The stream that \<open>consume\<close> returns: the items that are errors are left out.\<close>

definition consume_items :: "(Status, ConsumeResponse) result list \<Rightarrow> (u64 \<times> bytes) list" where
  "consume_items inbound =
     List.map_filter
       (\<lambda>item. case item of Inr r \<Rightarrow> Some (con_offset r, con_payload r) | Inl e \<Rightarrow> None) inbound"

section \<open>What the client sees of a stream\<close>

lemma consume_items_simps [simp]:
  "consume_items [] = []"
  "consume_items (Inl e # xs) = consume_items xs"
  "consume_items (Inr r # xs) = (con_offset r, con_payload r) # consume_items xs"
  by (simp_all add: consume_items_def List.map_filter_simps)

lemma consume_items_response: "consume_items (map response ms) = ms"
  by (induction ms) auto

lemma responses: "set rs \<subseteq> response ` M \<Longrightarrow> rs = map response (consume_items rs)"
  by (induction rs) auto

lemma responses_sub: "set rs \<subseteq> response ` M \<Longrightarrow> set (consume_items rs) \<subseteq> M"
  by (induction rs) auto

section \<open>Publishing to a queue of one's own\<close>

text \<open>
  What a program that publishes may rely on: a publish that succeeds has committed one
  message, one that fails at most one, and no other client publishes to the queue.
\<close>

locale publishing_client =
  fixes api :: "('ch, 's, 'w) mq_api"
    and client :: "'ch MqClient"
    and queue :: string
    and others :: "'ch channel_heap \<times> 'w \<Rightarrow> 'ch channel_heap \<times> 'w \<Rightarrow> bool"
    and ok :: "'w \<Rightarrow> bool"
    and commands :: "'w \<Rightarrow> QueueRequest list"
  assumes published_commits: "\<lbrakk>ok w; MqClient_publish api client queue p (h, w) = (Inr offset, h', w')\<rbrakk> \<Longrightarrow>
      ok w' \<and> commands w' = commands w @ [Publish queue p]"
    and failed_at_most: "\<lbrakk>ok w; MqClient_publish api client queue p (h, w) = (Inl e, h', w')\<rbrakk> \<Longrightarrow>
      ok w' \<and> (commands w' = commands w \<or> commands w' = commands w @ [Publish queue p])"
    and others_elsewhere: "\<lbrakk>ok w; others (h, w) (h', w')\<rbrakk> \<Longrightarrow>
      ok w' \<and> (\<exists>added. commands w' = commands w @ added \<and> published_to queue added = [])"

text \<open>A client of a node that leads the group.\<close>

lemma leader_publishes:
  assumes "leads_group True g" "publish leader_api self \<lparr>pub_queue = q, pub_payload = p\<rparr> (h, g) = (r, h', g')"
  shows "leads_group True g' \<and> group_commands g' = group_commands g @ [Publish q p]"
proof -
  obtain x g1 where x: "group_write True (Publish q p) g = (x, g1)" by fastforce
  then have "\<not> (\<exists>hint. x = Inl (ForwardToLeader hint))" using leading_write(3) [OF assms(1)] by blast
  then have "g' = g1"
    using assms(2) x by (auto simp: publish_def propose_def split: sum.splits write_error.splits prod.splits outcome.splits)
  with leading_write [OF assms(1) x] show ?thesis by simp
qed

definition writes_elsewhere ::
  "string \<Rightarrow> string channel_heap \<times> queue_group \<Rightarrow> string channel_heap \<times> queue_group \<Rightarrow> bool" where
  "writes_elsewhere q hw hw' \<longleftrightarrow>
     (\<exists>req r. published_to q [req] = [] \<and> group_write True req (snd hw) = (r, snd hw'))"

lemma first_publish:
  obtains offset g where
    "MqClient_publish follower_api client q p (no_channels, group_new 1 (Some 1)) = (Inr offset, no_channels, g)"
proof -
  obtain resp g where g: "group_write True (Publish q p) (group_new 1 (Some 1)) = (Inr resp, g)"
    using leader_first_publish by blast
  with publish_accepted [of leader_api q p "group_new 1 (Some 1)" resp g "svc ''node-1''" no_channels] that
  show thesis by (simp add: MqClient_publish_def follower_api_def answered_def)
qed

interpretation pub: publishing_client follower_api client queue "writes_elsewhere queue" "leads_group True" group_commands
  for client queue
proof unfold_locales
  fix g h h' g'
  assume a: "leads_group True g" "writes_elsewhere queue (h, g) (h', g')"
  then obtain req r where "published_to queue [req] = []" "group_write True req g = (r, g')"
    by (auto simp: writes_elsewhere_def)
  with leading_write [OF a(1)]
  show "leads_group True g' \<and> (\<exists>added. group_commands g' = group_commands g @ added \<and> published_to queue added = [])"
    by blast
next
  fix g p h offset h' g'
  assume a: "leads_group True g" "MqClient_publish follower_api client queue p (h, g) = (Inr offset, h', g')"
  then show "leads_group True g' \<and> group_commands g' = group_commands g @ [Publish queue p]"
    using leader_publishes [OF a(1)]
    by (fastforce simp: MqClient_publish_def follower_api_def answered_def split: prod.splits outcome.splits sum.splits)
next
  fix g p h e h' g'
  assume a: "leads_group True g" "MqClient_publish follower_api client queue p (h, g) = (Inl e, h', g')"
  then show "leads_group True g' \<and>
      (group_commands g' = group_commands g \<or> group_commands g' = group_commands g @ [Publish queue p])"
    using leader_publishes [OF a(1)]
    by (fastforce simp: MqClient_publish_def follower_api_def answered_def split: prod.splits outcome.splits sum.splits)
qed

section \<open>Properties\<close>

text \<open>
  What an application reads from the client's stream, when the node it is connected to
  leads the queue group for the whole run, has pairwise different offsets, and each message
  is the one that was published under its offset.
\<close>

theorem client_reads_each_message_once:
  assumes "leader_stream mpsc capacity queued connected checks ok api commands env"
    and "consume mpsc inbound h w = Inr (q, s0)" and "consume_steps mpsc api self q env s0 s" and "ok w"
    and "length (commands (st_world s)) < 2 ^ 64"
  shows "distinct (map fst (consume_items (st_received s)))
    \<and> set (consume_items (st_received s)) \<subseteq> set (with_offsets (published_to q (commands (st_world s))))"
proof -
  let ?items = "consume_items (st_received s)" and ?ms = "with_offsets (published_to q (commands (st_world s)))"
  have steps: "consume_steps mpsc api self q env (consume_start mpsc h w) s"
    using assms(2,3) consume_started by metis
  note once = popping_stream.received_once [OF leader_stream.pops [OF assms(1)] steps assms(4,5)]
  have r: "st_received s = map response ?items" by (rule responses [OF once(2)])
  have sub: "set ?items \<subseteq> set ?ms" by (rule responses_sub [OF once(2)])
  have "length (published_to q (commands (st_world s))) \<le> 2 ^ 64"
    using published_to_length [of q "commands (st_world s)"] assms(5) by simp
  then have "inj_on fst (set ?ms)" using distinct_with_offsets by (metis distinct_map)
  then have "inj_on fst (set ?items)" using sub inj_on_subset by blast
  moreover have "distinct ?items"
    using subst [where P = distinct, OF r once(1)] by (simp add: distinct_map)
  ultimately show ?thesis using sub by (simp add: distinct_map)
qed

theorem client_reads_each_message_once_witness:
  "\<exists>s. consume_steps lc_api leader_api (svc ''node-1'') ''q'' (other_write True)
         (consume_start lc_api no_channels two_published) s
     \<and> consume_items (st_received s) = [(1, [8]), (0, [7])]
     \<and> distinct (map fst (consume_items (st_received s)))"
proof -
  obtain g where c: "group_commands g = [Publish ''q'' [7], Publish ''q'' [8], Pop ''q'', Pop ''q'']"
    and run: "consume_steps lc_api leader_api (svc ''node-1'') ''q'' (other_write True)
      (consume_start lc_api no_channels two_published)
      (after_sends no_channels g [response (1, [8]), response (0, [7])] True [])"
    by (rule both_sent)
  let ?s = "after_sends no_channels g [] True [response (1, [8]), response (0, [7])]"
  note run
  also note one_receive
  also note one_receive
  finally have run': "consume_steps lc_api leader_api (svc ''node-1'') ''q'' (other_write True)
      (consume_start lc_api no_channels two_published) ?s" by simp
  have "length (group_commands (st_world ?s)) < 2 ^ 64" using c by simp
  from client_reads_each_message_once [OF lead.leader_stream_axioms consume_subscribed run' two_published_ok(1) this] run'
  show ?thesis by (intro exI [of _ ?s]) simp
qed

text \<open>
  A client's publish, from the application to the replicated log. If the client's channel
  leads to a node whose openraft accepts the write, the application gets the number of
  messages published to the queue before, and one publish has been committed.
\<close>

theorem client_publish_commits_once:
  assumes "queue_client checks ok (client_write remote) commands" and "ok w"
    and "length (commands w) < 2 ^ 64 - 1"
    and "client_write remote (Publish q p) w = (Inr resp, w')"
    and "call_publish api (inner self) = (\<lambda>req hw. answered (publish remote remote_self req hw))"
  shows "MqClient_publish api self q p (h, w) =
      (Inr (of_nat (length (published_to q (commands w)))), (h, w'))
    \<and> commands w' = commands w @ [Publish q p]"
  using publish_accepted_offset [OF assms(1-4), of remote_self h]
  by (simp add: MqClient_publish_def assms(5) answered_def)

theorem client_publish_commits_once_witness:
  "MqClient_publish follower_api \<lparr>inner = ''a''\<rparr> ''q'' [7] (no_channels, group_new 1 (Some 1)) =
     (Inr 0, (no_channels, snd (group_write True (Publish ''q'' [7]) (group_new 1 (Some 1)))))"
proof -
  let ?g = "group_new 1 (Some 1)"
  obtain resp g' where g: "group_write True (Publish ''q'' [7]) ?g = (Inr resp, g')"
    using leader_first_publish by blast
  have "queue_client True (group_ok True) (client_write leader_api) group_commands"
    by (simp add: qgroup.queue_client_axioms)
  from client_publish_commits_once [OF this group_new_ok, of 1 "Some 1" "''q''" "[7]" resp g'
      follower_api "\<lparr>inner = ''a''\<rparr>" "svc ''node-1''" no_channels] g
  show ?thesis by (simp add: follower_api_def group_commands_new)
qed

end
