(* ===== verification/Throughput.thy ===== *)
theory Throughput
  imports Mq_Prelude
begin

text \<open>
  The task of \<open>demo/producer\<close> and \<open>demo/consumer\<close> that logs once a second how far a shared
  counter has come. \<open>now - last\<close> is a subtraction of \<open>u64\<close>s, which panics under overflow
  checks if the counter has gone back; the model keeps that case and the programs exclude it.
\<close>

record reporter =
  rep_last :: nat
  rep_rates :: "nat list"
  rep_panicked :: bool

definition reporter_start :: reporter where
  "reporter_start = \<lparr>rep_last = 0, rep_rates = [], rep_panicked = False\<rparr>"

definition reporter_tick :: "nat \<Rightarrow> reporter \<Rightarrow> reporter" where
  "reporter_tick now r =
     (if rep_panicked r then r
      else if now < rep_last r then r\<lparr>rep_panicked := True\<rparr>
      else r\<lparr>rep_last := now, rep_rates := rep_rates r @ [now - rep_last r]\<rparr>)"

text \<open>The reports so far add up, for a counter that stands at \<open>n\<close>.\<close>

definition reports_true :: "nat \<Rightarrow> reporter \<Rightarrow> bool" where
  "reports_true n r \<longleftrightarrow> \<not> rep_panicked r \<and> rep_last r \<le> n \<and> sum_list (rep_rates r) = rep_last r"

lemma reports_true_start: "reports_true n reporter_start"
  by (simp add: reports_true_def reporter_start_def)

lemma reports_true_tick: "reports_true n r \<Longrightarrow> reports_true n (reporter_tick n r)"
  by (simp add: reports_true_def reporter_tick_def)

lemma reports_true_mono: "\<lbrakk>reports_true m r; m \<le> n\<rbrakk> \<Longrightarrow> reports_true n r"
  by (simp add: reports_true_def)

end
