(* ===== verification/Producer.thy ===== *)
theory Producer
  imports Mq_Client Throughput
begin

text \<open>
  \<open>demo/producer\<close>: its configuration, the ticker, and the main loop with its pool of permits
  and the tasks it spawns, as an interleaving step relation over the cluster. Counters are
  natural numbers: at a thousand million messages a second a \<open>u64\<close> lasts for centuries.
\<close>

section \<open>Configuration\<close>

record producer_config =
  prod_addr :: string
  prod_queue :: string
  prod_rate :: nat
  prod_concurrency :: nat

definition producer_read_config :: "environment \<Rightarrow> (IntErrorKind, producer_config) result" where
  "producer_read_config env =
     (case env_number env ''MQ_RATE'' ''1000'' of
        Inl e \<Rightarrow> Inl e
      | Inr rate \<Rightarrow>
          (case env_number env ''MQ_PRODUCER_CONCURRENCY'' ''200'' of
             Inl e \<Rightarrow> Inl e
           | Inr concurrency \<Rightarrow> Inr
               \<lparr>prod_addr = env_or env ''MQ_NODE_ADDR'' ''http://127.0.0.1:5002'',
                prod_queue = env_or env ''MQ_QUEUE'' ''spam'',
                prod_rate = rate, prod_concurrency = concurrency\<rparr>))"

section \<open>The loop\<close>

text \<open>
  The ticker's period in nanoseconds. \<open>tokio::time::interval\<close> panics on a period of zero.
\<close>

definition producer_period :: "nat \<Rightarrow> nat" where
  "producer_period rate = 1000000000 div max rate 1"

definition producer_ticker :: "nat \<Rightarrow> nat outcome" where
  "producer_ticker rate =
     (if producer_period rate = 0 then Panicked (ExplicitPanic ''`period` must be non-zero.'')
      else Returned (producer_period rate))"

text \<open>\<open>Semaphore::new\<close> panics above its maximum, \<open>usize::MAX >> 3\<close> on a 64-bit target.\<close>

definition producer_semaphore :: "nat \<Rightarrow> nat outcome" where
  "producer_semaphore concurrency =
     (if 2 ^ 61 \<le> concurrency
      then Panicked (ExplicitPanic ''a semaphore may not have more than MAX_PERMITS permits'')
      else Returned concurrency)"

text \<open>
  The main loop and the tasks it spawns. \<open>prod_waiting\<close> is the loop between having counted a
  message and having a permit for it. A task is in \<open>prod_tasks\<close>, known by its message's
  number, until its publish has been decided; in \<open>prod_answers\<close>, \<open>True\<close> for \<open>Ok\<close>, while the
  answer is on its way to the task or not yet counted; and one of the \<open>prod_ending\<close> between
  counting it and dropping the permit. \<open>prod_abroad\<close> are requests of tasks that have got an
  error for a lost connection while the request itself may still be carried out.
\<close>

record producer =
  prod_counter :: nat
  prod_permits :: nat
  prod_waiting :: bool
  prod_tasks :: "nat list"
  prod_answers :: "bool list"
  prod_ending :: nat
  prod_abroad :: "nat list"
  prod_sent :: nat
  prod_failed :: nat
  prod_reporter :: reporter

definition producer_start :: "nat \<Rightarrow> producer" where
  "producer_start concurrency =
     \<lparr>prod_counter = 0, prod_permits = concurrency, prod_waiting = False, prod_tasks = [], prod_answers = [],
      prod_ending = 0, prod_abroad = [], prod_sent = 0, prod_failed = 0, prod_reporter = reporter_start\<rparr>"

definition producer_payload :: "nat \<Rightarrow> string" where
  "producer_payload counter = ''spam message #'' @ show_nat counter"

text \<open>
  \<open>others\<close> is what the rest of the cluster does in between. A publish takes effect on the cluster
  in a step of its own: the task counts its answer, and gives back its permit, in later ones.
\<close>

inductive producer_step ::
  "('ch, 's, 'w) mq_api \<Rightarrow> 'ch MqClient \<Rightarrow> string \<Rightarrow> ('ch channel_heap \<times> 'w \<Rightarrow> 'ch channel_heap \<times> 'w \<Rightarrow> bool)
     \<Rightarrow> producer \<times> 'ch channel_heap \<times> 'w \<Rightarrow> producer \<times> 'ch channel_heap \<times> 'w \<Rightarrow> bool"
  for api client queue others where
  tick: "\<not> prod_waiting s \<Longrightarrow>
    producer_step api client queue others (s, hw)
      (s\<lparr>prod_counter := prod_counter s + 1, prod_waiting := True\<rparr>, hw)"
| acquire: "\<lbrakk>prod_waiting s; 0 < prod_permits s\<rbrakk> \<Longrightarrow>
    producer_step api client queue others (s, hw)
      (s\<lparr>prod_permits := prod_permits s - 1, prod_waiting := False, prod_tasks := prod_counter s # prod_tasks s\<rparr>, hw)"
| published: "\<lbrakk>n \<in> set (prod_tasks s);
      MqClient_publish api client queue (into_bytes (producer_payload n)) hw = (Inr offset, hw')\<rbrakk> \<Longrightarrow>
    producer_step api client queue others (s, hw)
      (s\<lparr>prod_tasks := remove1 n (prod_tasks s), prod_answers := True # prod_answers s\<rparr>, hw')"
| publish_failed: "\<lbrakk>n \<in> set (prod_tasks s);
      MqClient_publish api client queue (into_bytes (producer_payload n)) hw = (Inl e, hw')\<rbrakk> \<Longrightarrow>
    producer_step api client queue others (s, hw)
      (s\<lparr>prod_tasks := remove1 n (prod_tasks s), prod_answers := False # prod_answers s\<rparr>, hw')"
| connection_lost: "n \<in> set (prod_tasks s) \<Longrightarrow>
    producer_step api client queue others (s, hw)
      (s\<lparr>prod_tasks := remove1 n (prod_tasks s), prod_answers := False # prod_answers s,
         prod_abroad := n # prod_abroad s\<rparr>, hw)"
| arrives_late: "\<lbrakk>n \<in> set (prod_abroad s);
      MqClient_publish api client queue (into_bytes (producer_payload n)) hw = (r, hw')\<rbrakk> \<Longrightarrow>
    producer_step api client queue others (s, hw) (s\<lparr>prod_abroad := remove1 n (prod_abroad s)\<rparr>, hw')"
| counts_sent: "True \<in> set (prod_answers s) \<Longrightarrow>
    producer_step api client queue others (s, hw)
      (s\<lparr>prod_answers := remove1 True (prod_answers s), prod_ending := prod_ending s + 1,
         prod_sent := prod_sent s + 1\<rparr>, hw)"
| counts_failed: "False \<in> set (prod_answers s) \<Longrightarrow>
    producer_step api client queue others (s, hw)
      (s\<lparr>prod_answers := remove1 False (prod_answers s), prod_ending := prod_ending s + 1,
         prod_failed := prod_failed s + 1\<rparr>, hw)"
| drops_permit: "0 < prod_ending s \<Longrightarrow>
    producer_step api client queue others (s, hw)
      (s\<lparr>prod_ending := prod_ending s - 1, prod_permits := prod_permits s + 1\<rparr>, hw)"
| reports:
    "producer_step api client queue others (s, hw)
      (s\<lparr>prod_reporter := reporter_tick (prod_sent s) (prod_reporter s)\<rparr>, hw)"
| others_act: "others hw hw' \<Longrightarrow> producer_step api client queue others (s, hw) (s, hw')"

text \<open>\<open>main\<close> up to the loop: the client is connected before anything is counted.\<close>

datatype producer_error = BadVariable IntErrorKind | ConnectFailed MqClientError

definition producer_main ::
  "('ch, 's, 'w) mq_api \<Rightarrow> environment \<Rightarrow> (producer_error, 'ch MqClient \<times> string \<times> nat \<times> producer) result outcome" where
  "producer_main api env =
     (case producer_read_config env of
        Inl e \<Rightarrow> Returned (Inl (BadVariable e))
      | Inr cfg \<Rightarrow>
          (case MqClient_connect api (prod_addr cfg) of
             Inl e \<Rightarrow> Returned (Inl (ConnectFailed e))
           | Inr client \<Rightarrow>
               bind_outcome (producer_semaphore (prod_concurrency cfg)) (\<lambda>permits.
               bind_outcome (producer_ticker (prod_rate cfg)) (\<lambda>period.
                 Returned (Inr (client, prod_queue cfg, period, producer_start permits))))))"

section \<open>The invariant\<close>

lemma producer_payload_inj: "producer_payload m = producer_payload n \<Longrightarrow> m = n"
  using show_nat_inj by (simp add: producer_payload_def)

lemma payload_number_inj: "inj (\<lambda>n. into_bytes (producer_payload n))"
  using into_bytes_inj producer_payload_inj by (blast intro: injI)

definition producer_ok :: "nat \<Rightarrow> producer \<Rightarrow> bool" where
  "producer_ok concurrency s \<longleftrightarrow>
     prod_permits s + length (prod_tasks s) + length (prod_answers s) + prod_ending s = concurrency \<and>
     prod_sent s + prod_failed s + length (prod_tasks s) + length (prod_answers s) + of_bool (prod_waiting s)
       = prod_counter s \<and>
     reports_true (prod_sent s) (prod_reporter s)"

text \<open>
  \<open>ns\<close> are the numbers of the messages that have reached the queue: none twice, none that may
  still be published, none of the message that waits for its permit. They cover the \<open>Ok\<close>
  answers; with the requests that may still arrive they are covered by all the answers.
\<close>

definition unsettled :: "producer \<Rightarrow> nat list" where
  "unsettled s = prod_tasks s @ prod_abroad s"

definition accounted :: "nat list \<Rightarrow> producer \<Rightarrow> bool" where
  "accounted ns s \<longleftrightarrow> distinct (ns @ unsettled s) \<and>
     (\<forall>n\<in>set (ns @ unsettled s). 0 < n \<and> n + of_bool (prod_waiting s) \<le> prod_counter s) \<and>
     prod_sent s + count_list (prod_answers s) True \<le> length ns \<and>
     length ns + length (prod_abroad s) \<le> prod_sent s + prod_failed s + length (prod_answers s)"

lemma remove1_length: "x \<in> set xs \<Longrightarrow> Suc (length (remove1 x xs)) = length xs"
  by (induction xs) auto

lemma remove1_count:
  "True \<in> set bs \<Longrightarrow> Suc (count_list (remove1 True bs) True) = count_list bs True"
  "count_list (remove1 False bs) True = count_list bs True"
  by (induction bs) auto

lemma task_settles:
  assumes "producer_ok c s" "n \<in> set (prod_tasks s)"
  shows "producer_ok c (s\<lparr>prod_tasks := remove1 n (prod_tasks s), prod_answers := b # prod_answers s\<rparr>)"
  using assms(1) remove1_length [OF assms(2)] by (simp add: producer_ok_def)

lemma producer_ok_abroad [simp]: "producer_ok c (s\<lparr>prod_abroad := ns\<rparr>) = producer_ok c s"
  by (simp add: producer_ok_def)

lemma answer_counts:
  assumes "producer_ok c s" "b \<in> set (prod_answers s)"
  shows "producer_ok c (s\<lparr>prod_answers := remove1 b (prod_answers s), prod_ending := prod_ending s + 1,
      prod_sent := prod_sent s + 1\<rparr>)"
    and "producer_ok c (s\<lparr>prod_answers := remove1 b (prod_answers s), prod_ending := prod_ending s + 1,
      prod_failed := prod_failed s + 1\<rparr>)"
  using assms(1) remove1_length [OF assms(2)] by (simp_all add: producer_ok_def reports_true_def)

lemma publish_settles:
  assumes "accounted ns s" "n \<in> set (prod_tasks s)"
  shows "accounted (ns @ [n]) (s\<lparr>prod_tasks := remove1 n (prod_tasks s), prod_answers := b # prod_answers s\<rparr>)"
    and "accounted ns (s\<lparr>prod_tasks := remove1 n (prod_tasks s), prod_answers := False # prod_answers s\<rparr>)"
    and "accounted ns (s\<lparr>prod_tasks := remove1 n (prod_tasks s), prod_answers := False # prod_answers s,
      prod_abroad := n # prod_abroad s\<rparr>)"
proof -
  have d: "set (remove1 n (prod_tasks s)) = set (prod_tasks s) - {n}"
    using assms(1) by (simp add: accounted_def unsettled_def set_remove1_eq)
  show
    "accounted (ns @ [n]) (s\<lparr>prod_tasks := remove1 n (prod_tasks s), prod_answers := b # prod_answers s\<rparr>)"
    "accounted ns (s\<lparr>prod_tasks := remove1 n (prod_tasks s), prod_answers := False # prod_answers s\<rparr>)"
    "accounted ns (s\<lparr>prod_tasks := remove1 n (prod_tasks s), prod_answers := False # prod_answers s,
      prod_abroad := n # prod_abroad s\<rparr>)"
    using assms by (auto simp: accounted_def unsettled_def d)
qed

lemma late_settles:
  assumes "accounted ns s" "n \<in> set (prod_abroad s)"
  shows "accounted (ns @ [n]) (s\<lparr>prod_abroad := remove1 n (prod_abroad s)\<rparr>)"
    and "accounted ns (s\<lparr>prod_abroad := remove1 n (prod_abroad s)\<rparr>)"
proof -
  have d: "set (remove1 n (prod_abroad s)) = set (prod_abroad s) - {n}"
    using assms(1) by (simp add: accounted_def unsettled_def set_remove1_eq)
  show "accounted (ns @ [n]) (s\<lparr>prod_abroad := remove1 n (prod_abroad s)\<rparr>)"
    "accounted ns (s\<lparr>prod_abroad := remove1 n (prod_abroad s)\<rparr>)"
    using assms remove1_length [OF assms(2)] by (auto simp: accounted_def unsettled_def d)
qed

lemma answer_accounted:
  assumes "accounted ns s"
  shows "True \<in> set (prod_answers s) \<Longrightarrow> accounted ns (s\<lparr>prod_answers := remove1 True (prod_answers s),
      prod_ending := k, prod_sent := prod_sent s + 1\<rparr>)"
    and "False \<in> set (prod_answers s) \<Longrightarrow> accounted ns (s\<lparr>prod_answers := remove1 False (prod_answers s),
      prod_ending := k, prod_failed := prod_failed s + 1\<rparr>)"
proof -
  assume a: "True \<in> set (prod_answers s)"
  from remove1_length [OF a] remove1_count(1) [OF a] assms
  show "accounted ns (s\<lparr>prod_answers := remove1 True (prod_answers s), prod_ending := k, prod_sent := prod_sent s + 1\<rparr>)"
    by (simp add: accounted_def unsettled_def del: length_remove1)
next
  assume a: "False \<in> set (prod_answers s)"
  from remove1_length [OF a] assms
  show "accounted ns (s\<lparr>prod_answers := remove1 False (prod_answers s), prod_ending := k, prod_failed := prod_failed s + 1\<rparr>)"
    by (simp add: accounted_def unsettled_def remove1_count(2) del: length_remove1)
qed

lemma permit_accounted [simp]:
  "accounted ns (s\<lparr>prod_ending := k, prod_permits := p\<rparr>) = accounted ns s"
  "accounted ns (s\<lparr>prod_reporter := r\<rparr>) = accounted ns s"
  by (simp_all add: accounted_def unsettled_def)

lemma counter_fresh:
  assumes "accounted ns s" "prod_waiting s" shows "prod_counter s \<notin> set (ns @ unsettled s)"
proof
  assume "prod_counter s \<in> set (ns @ unsettled s)"
  then have "prod_counter s + of_bool (prod_waiting s) \<le> prod_counter s"
    using assms(1) unfolding accounted_def by blast
  with assms(2) show False by simp
qed

lemma counted:
  assumes "accounted ns s"
  shows "\<not> prod_waiting s \<Longrightarrow> accounted ns (s\<lparr>prod_counter := prod_counter s + 1, prod_waiting := True\<rparr>)"
    and "\<lbrakk>prod_waiting s; 0 < prod_counter s\<rbrakk> \<Longrightarrow>
      accounted ns (s\<lparr>prod_permits := p, prod_waiting := False, prod_tasks := prod_counter s # prod_tasks s\<rparr>)"
proof -
  assume "\<not> prod_waiting s"
  with assms show "accounted ns (s\<lparr>prod_counter := prod_counter s + 1, prod_waiting := True\<rparr>)"
    by (auto simp: accounted_def unsettled_def)
next
  assume "prod_waiting s" "0 < prod_counter s"
  from counter_fresh [OF assms this(1)] have "prod_counter s \<notin> set (ns @ unsettled s)" .
  moreover have "\<forall>n\<in>set (ns @ unsettled s). 0 < n \<and> n \<le> prod_counter s"
    using assms unfolding accounted_def by fastforce
  ultimately show "accounted ns (s\<lparr>prod_permits := p, prod_waiting := False, prod_tasks := prod_counter s # prod_tasks s\<rparr>)"
    using assms \<open>0 < prod_counter s\<close> by (auto simp: accounted_def unsettled_def)
qed

lemma accounted_numbers: assumes "accounted ms s" shows "set ms \<subseteq> {1..prod_counter s}"
proof
  fix n
  assume "n \<in> set ms"
  with assms have "0 < n \<and> n + of_bool (prod_waiting s) \<le> prod_counter s" unfolding accounted_def by simp
  then show "n \<in> {1..prod_counter s}" by simp
qed

context publishing_client
begin

definition producing :: "nat \<Rightarrow> bytes multiset \<Rightarrow> producer \<times> 'ch channel_heap \<times> 'w \<Rightarrow> bool" where
  "producing concurrency before x = (case x of (s, h, w) \<Rightarrow> ok w \<and> producer_ok concurrency s \<and>
     (\<exists>ns. accounted ns s \<and>
       mset (published_to queue (commands w)) = before + mset (map (\<lambda>n. into_bytes (producer_payload n)) ns)))"

lemma producingI:
  "\<lbrakk>ok w; producer_ok c s; accounted ns s;
    mset (published_to queue (commands w)) = before + mset (map (\<lambda>n. into_bytes (producer_payload n)) ns)\<rbrakk> \<Longrightarrow>
   producing c before (s, h, w)"
  unfolding producing_def by blast

lemma producingE:
  assumes "producing c before (s, h, w)"
  obtains ns where "ok w" "producer_ok c s" "accounted ns s"
    "mset (published_to queue (commands w)) = before + mset (map (\<lambda>n. into_bytes (producer_payload n)) ns)"
  using assms unfolding producing_def by blast

lemma tick_producing:
  "\<lbrakk>producing c before (s, h, w); \<not> prod_waiting s\<rbrakk> \<Longrightarrow>
   producing c before (s\<lparr>prod_counter := prod_counter s + 1, prod_waiting := True\<rparr>, h, w)"
  by (erule producingE, rule producingI) (auto simp: producer_ok_def dest: counted(1))

lemma acquire_producing:
  assumes "producing c before (s, h, w)" "prod_waiting s" "0 < prod_permits s"
  shows "producing c before
    (s\<lparr>prod_permits := prod_permits s - 1, prod_waiting := False, prod_tasks := prod_counter s # prod_tasks s\<rparr>, h, w)"
  using assms(1)
proof (rule producingE)
  fix ns
  assume ns: "ok w" "producer_ok c s" "accounted ns s"
    "mset (published_to queue (commands w)) = before + mset (map (\<lambda>n. into_bytes (producer_payload n)) ns)"
  have "0 < prod_counter s" using ns(2) assms(2) by (auto simp: producer_ok_def)
  then show ?thesis
    using assms(2,3) ns by (intro producingI [OF _ _ counted(2)]) (simp_all add: producer_ok_def)
qed

text \<open>A request of the producer that takes effect adds its message to the queue, or nothing.\<close>

lemma request_producing:
  assumes "ok w" "mset (published_to queue (commands w)) = before + mset (map (\<lambda>n. into_bytes (producer_payload n)) ns)"
    and "MqClient_publish api client queue (into_bytes (producer_payload n)) (h, w) = (r, h', w')"
    and "producer_ok c t" "accounted (ns @ [n]) t" "isl r \<Longrightarrow> accounted ns t"
  shows "producing c before (t, h', w')"
proof (cases r)
  case (Inl e)
  with failed_at_most [OF assms(1) assms(3) [unfolded Inl]] assms(2,6) show ?thesis
    using producingI [OF _ assms(4,5), of w'] producingI [OF _ assms(4), of w' ns]
    by (auto simp: published_to_append)
next
  case (Inr offset)
  with published_commits [OF assms(1) assms(3) [unfolded Inr]] assms(2,4,5) show ?thesis
    by (intro producingI [where ns = "ns @ [n]"]) (auto simp: published_to_append)
qed

lemma settled_producing:
  assumes "producing c before (s, h, w)" "n \<in> set (prod_tasks s)"
    and "MqClient_publish api client queue (into_bytes (producer_payload n)) (h, w) = (r, h', w')"
    and "b \<longleftrightarrow> \<not> isl r"
  shows "producing c before (s\<lparr>prod_tasks := remove1 n (prod_tasks s), prod_answers := b # prod_answers s\<rparr>, h', w')"
  using assms(1)
proof (rule producingE)
  fix ns
  assume ns: "ok w" "producer_ok c s" "accounted ns s"
    "mset (published_to queue (commands w)) = before + mset (map (\<lambda>n. into_bytes (producer_payload n)) ns)"
  note task_settles [OF ns(2) assms(2)] publish_settles(1,2) [OF ns(3) assms(2)]
  with request_producing [OF ns(1,4) assms(3)] assms(4) show ?thesis by (cases b) simp_all
qed

lemma late_producing:
  assumes "producing c before (s, h, w)" "n \<in> set (prod_abroad s)"
    and "MqClient_publish api client queue (into_bytes (producer_payload n)) (h, w) = (r, h', w')"
  shows "producing c before (s\<lparr>prod_abroad := remove1 n (prod_abroad s)\<rparr>, h', w')"
  using assms(1)
proof (rule producingE)
  fix ns
  assume ns: "ok w" "producer_ok c s" "accounted ns s"
    "mset (published_to queue (commands w)) = before + mset (map (\<lambda>n. into_bytes (producer_payload n)) ns)"
  from request_producing [OF ns(1,4) assms(3)] late_settles [OF ns(3) assms(2)] ns(2) show ?thesis by simp
qed

lemma lost_producing:
  "\<lbrakk>producing c before (s, h, w); n \<in> set (prod_tasks s)\<rbrakk> \<Longrightarrow>
   producing c before (s\<lparr>prod_tasks := remove1 n (prod_tasks s), prod_answers := False # prod_answers s,
     prod_abroad := n # prod_abroad s\<rparr>, h, w)"
  by (erule producingE, rule producingI) (simp_all add: task_settles publish_settles(3))

lemma counts_producing:
  assumes "producing c before (s, h, w)"
  shows "True \<in> set (prod_answers s) \<Longrightarrow> producing c before
      (s\<lparr>prod_answers := remove1 True (prod_answers s), prod_ending := prod_ending s + 1, prod_sent := prod_sent s + 1\<rparr>, h, w)"
    and "False \<in> set (prod_answers s) \<Longrightarrow> producing c before
      (s\<lparr>prod_answers := remove1 False (prod_answers s), prod_ending := prod_ending s + 1, prod_failed := prod_failed s + 1\<rparr>, h, w)"
  by (rule producingE [OF assms], rule producingI, assumption,
      (erule (1) answer_counts, erule (1) answer_accounted, assumption)+)+

lemma permit_producing:
  "\<lbrakk>producing c before (s, h, w); 0 < prod_ending s\<rbrakk> \<Longrightarrow>
   producing c before (s\<lparr>prod_ending := prod_ending s - 1, prod_permits := prod_permits s + 1\<rparr>, h, w)"
  by (erule producingE, rule producingI) (simp_all add: producer_ok_def)

lemma others_producing:
  "\<lbrakk>producing c before (s, h, w); others (h, w) (h', w')\<rbrakk> \<Longrightarrow> producing c before (s, h', w')"
  using others_elsewhere [of w h h' w']
  by (auto simp: published_to_append elim!: producingE intro!: producingI)

lemma reports_producing:
  "producing c before (s, h, w) \<Longrightarrow>
   producing c before (s\<lparr>prod_reporter := reporter_tick (prod_sent s) (prod_reporter s)\<rparr>, h, w)"
  by (auto simp: producing_def producer_ok_def reports_true_tick)

lemmas producing_rules =
  tick_producing acquire_producing settled_producing lost_producing late_producing counts_producing
  permit_producing reports_producing others_producing

lemma step_producing:
  "\<lbrakk>producer_step api client queue others x y; producing c before x\<rbrakk> \<Longrightarrow> producing c before y"
  by (cases x; cases y) (auto elim!: producer_step.cases intro: producing_rules)

lemma steps_producing:
  "\<lbrakk>(producer_step api client queue others)\<^sup>*\<^sup>* x y; producing c before x\<rbrakk> \<Longrightarrow> producing c before y"
  by (induction rule: rtranclp_induct) (auto intro: step_producing)

lemma producer_accounts:
  assumes "(producer_step api client queue others)\<^sup>*\<^sup>* (producer_start concurrency, h, w) (s, h', w')" "ok w"
  shows "producer_ok concurrency s \<and> (\<exists>ns. accounted ns s \<and>
    mset (published_to queue (commands w')) =
      mset (published_to queue (commands w)) + mset (map (\<lambda>n. into_bytes (producer_payload n)) ns))"
proof -
  have "producing concurrency (mset (published_to queue (commands w))) (producer_start concurrency, h, w)"
    using assms(2) by (simp add: producing_def producer_ok_def producer_start_def accounted_def unsettled_def reports_true_start)
  from steps_producing [OF assms(1) this] show ?thesis by (simp add: producing_def)
qed

end

section \<open>Properties\<close>

text \<open>
  The producer starts ticking for every rate up to a thousand million messages a second
  and panics for every larger one, whose period rounds to zero.
\<close>

theorem producer_ticker_panics_iff:
  "(\<exists>p. producer_ticker rate = Panicked p) = (10 ^ 9 < rate)"
  by (auto simp: producer_ticker_def producer_period_def max_def div_eq_0_iff)

text \<open>
  C39: the producer's counters are true, however its tasks interleave with the cluster between
  a publish that takes effect, its answer, the counting and the end of the task. It never has
  more tasks than permits; every counted message was sent, failed, has a task or waits for its
  permit; and the queue has gained pairwise different messages of this run, at least as many
  as were counted as sent. They may be ahead of the counters, but only by the answers that are
  not yet counted, of which there are no more than permits; a publish that is counted as failed
  may have been committed, or be committed later. The task that logs the throughput never
  panics and the rates that it has logged add up to no more than was sent.
\<close>

theorem producer_counters_are_true:
  assumes "publishing_client api client queue others ok commands"
    and "producer_main api env = Returned (Inr (client, queue, period, s0))"
    and "(producer_step api client queue others)\<^sup>*\<^sup>* (s0, h, w) (s, h', w')" and "ok w"
  shows "\<exists>cfg ns. producer_read_config env = Inr cfg
    \<and> length (prod_tasks s) + length (prod_answers s) + prod_ending s \<le> prod_concurrency cfg
    \<and> prod_sent s + prod_failed s + length (prod_tasks s) + length (prod_answers s) + of_bool (prod_waiting s)
        = prod_counter s
    \<and> mset (published_to queue (commands w')) =
        mset (published_to queue (commands w)) + mset (map (\<lambda>n. into_bytes (producer_payload n)) ns)
    \<and> distinct (map (\<lambda>n. into_bytes (producer_payload n)) ns) \<and> set ns \<subseteq> {1..prod_counter s}
    \<and> prod_sent s \<le> length ns \<and> length ns \<le> prod_sent s + prod_failed s + length (prod_answers s)
    \<and> \<not> rep_panicked (prod_reporter s) \<and> sum_list (rep_rates (prod_reporter s)) \<le> prod_sent s"
proof -
  from assms(2) obtain cfg where cfg: "producer_read_config env = Inr cfg" "s0 = producer_start (prod_concurrency cfg)"
    by (auto simp: producer_main_def producer_semaphore_def split: sum.splits if_splits elim!: bind_Returned)
  from publishing_client.producer_accounts [OF assms(1) assms(3) [unfolded cfg(2)] assms(4)] obtain ns where
    ns: "producer_ok (prod_concurrency cfg) s" "accounted ns s"
    "mset (published_to queue (commands w')) =
      mset (published_to queue (commands w)) + mset (map (\<lambda>n. into_bytes (producer_payload n)) ns)" by blast
  moreover have "distinct (map (\<lambda>n. into_bytes (producer_payload n)) ns)"
    using ns(2) inj_on_subset [OF payload_number_inj] by (simp add: accounted_def distinct_map)
  ultimately show ?thesis
    using cfg(1) accounted_numbers [OF ns(2)]
    by (intro exI [of _ cfg] exI [of _ ns]) (simp add: producer_ok_def accounted_def reports_true_def)
qed

text \<open>
  The loop ticks, gets a permit, and its first task publishes: the message is in the queue
  before the task has counted it.
\<close>

abbreviation first_in_flight :: producer where
  "first_in_flight \<equiv> (producer_start 200)\<lparr>prod_counter := 1, prod_permits := 199, prod_answers := [True]\<rparr>"

lemma one_in_flight:
  assumes "MqClient_publish api c q (into_bytes (producer_payload 1)) hw = (Inr offset, hw')"
  shows "(producer_step api c q others)\<^sup>*\<^sup>* (producer_start 200, hw) (first_in_flight, hw')"
proof -
  let ?s = "producer_start 200" and ?step = "producer_step api c q others"
  let ?t = "?s\<lparr>prod_counter := 1, prod_waiting := True\<rparr>" and ?u = "?s\<lparr>prod_counter := 1, prod_permits := 199, prod_tasks := [1]\<rparr>"
  have "?step (?s, hw) (?t, hw)"
    using tick [of ?s api c q _ hw] by (simp add: producer_start_def)
  moreover have "?step (?t, hw) (?u, hw)"
    using acquire [of ?t api c q _ hw] by (simp add: producer_start_def)
  moreover have "?step (?u, hw) (first_in_flight, hw')"
    using published [of 1 ?u api c q hw offset hw'] assms by (simp add: producer_start_def)
  ultimately show ?thesis by (rule three_steps)
qed

lemma one_produced:
  assumes "MqClient_publish api c q (into_bytes (producer_payload 1)) hw = (Inr offset, hw')"
  shows "(producer_step api c q others)\<^sup>*\<^sup>* (producer_start 200, hw)
    ((producer_start 200)\<lparr>prod_counter := 1, prod_sent := 1\<rparr>, hw')"
proof -
  let ?s = "producer_start 200" and ?step = "producer_step api c q others"
  let ?t = "?s\<lparr>prod_counter := 1, prod_permits := 199, prod_ending := 1, prod_sent := 1\<rparr>"
  have "?step (first_in_flight, hw') (?t, hw')"
    using counts_sent [of first_in_flight api c q _ hw'] by (simp add: producer_start_def)
  moreover have "?step (?t, hw') (?s\<lparr>prod_counter := 1, prod_sent := 1\<rparr>, hw')"
    using drops_permit [of ?t api c q _ hw'] by (simp add: producer_start_def)
  ultimately show ?thesis
    using one_in_flight [OF assms, of others] by (metis rtranclp.rtrancl_into_rtrancl)
qed

theorem producer_counters_are_true_witness:
  "\<exists>g. (producer_step follower_api \<lparr>inner = ''http://127.0.0.1:5002''\<rparr> ''spam'' (writes_elsewhere ''spam''))\<^sup>*\<^sup>*
       (producer_start 200, no_channels, group_new 1 (Some 1))
       ((producer_start 200)\<lparr>prod_counter := 1, prod_sent := 1\<rparr>, no_channels, g)
     \<and> length (published_to ''spam'' (group_commands g)) = 1"
proof -
  let ?c = "\<lparr>inner = ''http://127.0.0.1:5002''\<rparr>" and ?s = "producer_start 200"
  obtain offset g where "MqClient_publish follower_api ?c ''spam'' (into_bytes (producer_payload 1))
      (no_channels, group_new 1 (Some 1)) = (Inr offset, no_channels, g)"
    by (rule first_publish)
  note run = one_produced [OF this, of "writes_elsewhere ''spam''"]
  have main: "producer_main follower_api (\<lambda>_. Inl NotPresent) = Returned (Inr (?c, ''spam'', 1000000, ?s))"
    by (simp add: producer_main_def producer_read_config_def env_number_def env_or_def parse_u64_def to_digit_def
        MqClient_connect_def follower_api_def producer_semaphore_def producer_ticker_def producer_period_def)
  have "leads_group True (group_new 1 (Some 1))" using group_new_ok by (simp add: leads_group_def group_new_def)
  from producer_counters_are_true [OF pub.publishing_client_axioms main run this] obtain ns where
    "mset (published_to ''spam'' (group_commands g)) = mset (map (\<lambda>n. into_bytes (producer_payload n)) ns)" "length ns = 1"
    by (auto simp: group_commands_new producer_start_def)
  then have "length (published_to ''spam'' (group_commands g)) = 1" by (metis length_map size_mset)
  with run show ?thesis by blast
qed

end
