(* ===== verification/Stream_Forward.thy ===== *)
theory Stream_Forward
  imports Consume
begin

text \<open>
  Pops that a node fetches from another one. \<open>pop_via_forward\<close> opens a consume stream on the
  node that the local openraft names, takes one message within 300 ms and drops the stream.
  This theory composes it with the stream on the other side: what it returns was committed
  as a pop, so a stream keeps its promises on every node of the cluster.
\<close>

section \<open>A remote stream behind the calls\<close>

text \<open>
  \<open>rapi\<close> is the node that serves the call; it may lead or forward in turn. An answer is the
  first message that the client of one of its streams has received, and leaves the cluster
  in that stream's state.
\<close>

locale forwarding_stream =
  remote: popping_stream mpsc capacity queued connected checks ok rapi commands env +
  queue_client checks ok "client_write api" commands
  for mpsc :: "((Status, ConsumeResponse) result, 'c) mpsc_api"
    and capacity queued connected checks
    and ok :: "'w \<Rightarrow> bool"
    and rapi :: "('ch, 's, 'w) mq_api"
    and commands
    and env :: "'w \<Rightarrow> 'w \<Rightarrow> bool"
    and api :: "('ch, 't, 'w) mq_api" +
  assumes sends_request: "send_one api k r = Inr rs \<Longrightarrow> rs = [r]"
    and call_extends: "\<lbrakk>ok w; call_consume api ch rs (h, w) = (x, h', w')\<rbrakk> \<Longrightarrow>
      ok w' \<and> (\<exists>added. commands w' = commands w @ added)"
    and next_extends: "\<lbrakk>ok w; next_within api ms inbound (h, w) = (y, h', w')\<rbrakk> \<Longrightarrow>
      ok w' \<and> (\<exists>added. commands w' = commands w @ added)"
    and served: "\<lbrakk>ok w; call_consume api ch rs (h, w) = (Inr inbound, hw);
        next_within api ms inbound hw = (Inr (Some (Inr resp)), h', w')\<rbrakk> \<Longrightarrow>
      \<exists>q s0 rself s. consume mpsc (map Inr rs) h w = Inr (q, s0) \<and>
        consume_steps mpsc rapi rself q env s0 s \<and> st_received s = [Inr resp] \<and> st_world s = w'"
begin

text \<open>A served answer is a message that a committed pop took.\<close>

lemma served_takes:
  assumes "ok w" "call_consume api ch [\<lparr>kind = Some (Subscribe q)\<rparr>] (h, w) = (Inr inbound, hw)"
    and "next_within api ms inbound hw = (Inr (Some (Inr resp)), h', w')" "length (commands w') < 2 ^ 64"
  shows "mset (remote.taken_from q w) + {#(con_offset resp, con_payload resp)#} \<subseteq># mset (remote.taken_from q w')"
proof -
  obtain s rself where run: "consume_steps mpsc rapi rself q env (consume_start mpsc h w) s"
    "st_received s = [Inr resp]" "st_world s = w'"
    using served [OF assms(1-3)] by (auto simp: consume_subscribed)
  from remote.steps_take [OF run(1)] assms(1,4) run(3)
  have "mset (remote.taken_from q w) + mset (st_got s) \<subseteq># mset (remote.taken_from q w')"
    by (simp add: remote.takes_def consume_start_def)
  moreover have "{#Inr resp#} \<subseteq># image_mset response (mset (st_got s))"
    using remote.received_popped [OF remote.steps_ok [OF run(1) remote.consume_start_ok]] run(2) by simp
  then have "(con_offset resp, con_payload resp) \<in># mset (st_got s)"
    using inj_response by (auto dest!: mset_subset_eqD [of _ _ "Inr resp"] elim!: response.elims)
  then have "mset (remote.taken_from q w) + {#(con_offset resp, con_payload resp)#} \<subseteq>#
      mset (remote.taken_from q w) + mset (st_got s)"
    by (simp add: single_subset_iff)
  ultimately show ?thesis by (meson subset_mset.order_trans)
qed

lemma fetch_extends:
  assumes "ok w" "pop_via_forward api channels n address q (h, w) = (r, h', w')"
  shows "ok w' \<and> (\<exists>added. commands w' = commands w @ added)"
proof -
  have "ok v' \<and> (\<exists>added. commands v' = commands w @ added)"
    if "call_consume api ch rs (g, w) = (Inr inbound, g1, v)" "next_within api ms inbound (g1, v) = (y, g', v')"
    for ch rs g inbound g1 v y g' v' ms
  proof -
    note c = call_extends [OF assms(1) that(1)]
    with next_extends [OF _ that(2)] show ?thesis by auto
  qed
  with assms(2) call_extends [OF assms(1)] assms(1) show ?thesis
    unfolding pop_via_forward_def fst_conv snd_conv
    by (auto split: prod.splits outcome.splits sum.splits option.splits)
qed

lemma fetch_once:
  assumes "ok w" "pop_via_forward api channels n address q (h, w) = (r, h', w')" "length (commands w') < 2 ^ 64"
  shows "mset (remote.taken_from q w) + mset (fetched r) \<subseteq># mset (remote.taken_from q w')"
proof (cases "fetched r")
  case Nil
  with remote.nothing_taken fetch_extends [OF assms(1,2)] assms(3) show ?thesis by auto
next
  case (Cons m ms)
  then have r: "r = Returned (Inr (Some m))"
    by (auto simp: fetched_def split: outcome.splits sum.splits option.splits)
  then obtain ch rs h1 inbound hw resp where
    "send_one api 4 \<lparr>kind = Some (Subscribe q)\<rparr> = Inr rs"
    "call_consume api ch rs (h1, w) = (Inr inbound, hw)"
    "next_within api 300 inbound hw = (Inr (Some (Inr resp)), h', w')"
    "m = (con_offset resp, con_payload resp)"
    using assms(2) unfolding pop_via_forward_def fst_conv snd_conv
    by (auto split: prod.splits outcome.splits sum.splits option.splits)
  with served_takes [OF assms(1)] sends_request assms(3) show ?thesis by (auto simp: r fetched_def)
qed

lemma popping: "popping_stream mpsc capacity queued connected checks ok api commands env"
proof unfold_locales
  fix w q n w1 channels address h r h' w'
  assume a: "ok w" "client_write api (Pop q) w = (Inl (ForwardToLeader (Some n)), w1)"
    "pop_via_forward api channels n address q (h, w1) = (r, h', w')"
  have w1: "ok w1" "commands w1 = commands w" using stays_ok forwarded a(1,2) by blast+
  then have "remote.taken_from q w1 = remote.taken_from q w"
    by (simp add: remote.taken_from_def remote.answers_of_def)
  then show "ok w' \<and> (\<exists>added. commands w' = commands w @ added) \<and>
      (length (commands w') < 2 ^ 64 \<longrightarrow>
        mset (remote.taken_from q w) + mset (fetched r) \<subseteq># mset (remote.taken_from q w'))"
    using fetch_extends [OF w1(1) a(3)] fetch_once [OF w1(1) a(3)] w1(2) by simp
qed (rule remote.env_extends)

end

section \<open>A follower of the leader's group\<close>

text \<open>
  A concrete node whose pops are all fetched from the leader, over a network that answers with
  the message that the first worker of the leader's stream pops.
\<close>

definition fetch_next ::
  "nat \<Rightarrow> string \<Rightarrow> string channel_heap \<times> queue_group
     \<Rightarrow> (unit, (Status, ConsumeResponse) result option) result \<times> string channel_heap \<times> queue_group" where
  "fetch_next ms q hw =
     (case worker_pop leader_api (svc ''node-1'') q hw of
        (Returned (Sending m), hw') \<Rightarrow> (Inr (Some (response m)), hw')
      | (_, hw') \<Rightarrow> (Inl (), hw'))"

definition fetch_api :: "(string, string, queue_group) mq_api" where
  "fetch_api =
     \<lparr>client_write = (\<lambda>req g. (Inl (ForwardToLeader (Some 1)), g)), from_shared = Inr,
      call_publish = (\<lambda>ch req hw. answered (publish leader_api (svc ''node-1'') req hw)),
      send_one = (\<lambda>n r. Inr [r]),
      call_consume = (\<lambda>ch rs hw. (consume_open (map Inr rs), hw)),
      next_within = fetch_next\<rparr>"

lemma leader_iteration:
  assumes "leads_group True g" "worker_pop leader_api self q (h, g) = (r, h', g')"
  shows "leads_group True g' \<and> h' = h \<and> group_commands g' = group_commands g @ [Pop q]"
proof -
  obtain x g1 where x: "group_write True (Pop q) g = (x, g1)" by fastforce
  with leading_write(3) [OF assms(1) x] assms(2) have "h' = h" "g' = g1"
    by (auto simp: worker_pop_def split: sum.splits write_error.splits)
  with leading_write(1,2) [OF assms(1) x] show ?thesis by simp
qed

lemma fetch_next_pops:
  assumes "leads_group True g" "fetch_next ms q (h, g) = (y, h', g')"
  shows "leads_group True g' \<and> group_commands g' = group_commands g @ [Pop q]"
proof -
  obtain r h1 g1 where w: "worker_pop leader_api (svc ''node-1'') q (h, g) = (r, h1, g1)" by (metis prod_cases3)
  with assms(2) have "g' = g1" by (auto simp: fetch_next_def split: outcome.splits worker.splits)
  with leader_iteration [OF assms(1) w] show ?thesis by simp
qed

text \<open>The answer is a run of a stream on the leader.\<close>

lemma fetch_next_served:
  assumes "leads_group True g" "fetch_next ms q (h, g) = (Inr (Some (Inr resp)), h', g')"
  shows "\<exists>s. consume_steps lc_api leader_api (svc ''node-1'') q env (consume_start lc_api h g) s \<and>
    st_received s = [Inr resp] \<and> st_world s = g'"
proof -
  obtain r h1 g1 where w: "worker_pop leader_api (svc ''node-1'') q (h, g) = (r, h1, g1)" by (metis prod_cases3)
  with assms(2) obtain m where "r = Returned (Sending m)" "response m = Inr resp" "g' = g1"
    by (auto simp: fetch_next_def split: outcome.splits worker.splits)
  with one_message [OF w [unfolded \<open>r = _\<close>], of env] show ?thesis by (intro exI conjI) auto
qed

interpretation fetch: forwarding_stream lc_api lc_capacity lc_queue lc_connected True "leads_group True"
  leader_api group_commands "other_write True" fetch_api
proof -
  have c: "queue_client True (leads_group True) (client_write fetch_api) group_commands"
    by unfold_locales (auto simp: fetch_api_def)
  show "forwarding_stream lc_api lc_capacity lc_queue lc_connected True (leads_group True)
      leader_api group_commands (other_write True) fetch_api"
  proof (intro forwarding_stream.intro lead.pops c forwarding_stream_axioms.intro)
    fix g ch rs h inbound hw ms resp h' g'
    assume a: "leads_group True g" "call_consume fetch_api ch rs (h, g) = (Inr inbound, hw)"
      "next_within fetch_api ms inbound hw = (Inr (Some (Inr resp)), h', g')"
    then have q: "consume_open (map Inr rs) = Inr inbound" "hw = (h, g)" by (auto simp: fetch_api_def)
    with a fetch_next_served [OF a(1), of ms inbound h resp h' g' "other_write True"]
    show "\<exists>q s0 rself s. consume lc_api (map Inr rs) h g = Inr (q, s0) \<and>
        consume_steps lc_api leader_api rself q (other_write True) s0 s \<and> st_received s = [Inr resp] \<and> st_world s = g'"
      by (auto simp: consume_def fetch_api_def)
  qed (auto simp: fetch_api_def dest: fetch_next_pops)
qed

text \<open>One fetch of the follower, through a new channel to the leader.\<close>

lemma follower_fetch:
  assumes "group_write True (Pop q) g = (Inr resp, g')" "popped resp = Some m"
  shows "worker_pop fetch_api (svc ''node-2'') q (no_channels, g) =
    (Returned (Sending m), no_channels(2 := mutex_new (fmupd 1 ''a'' fmempty)), g')"
proof -
  have "fetch_next 300 q (h, g) = (Inr (Some (response m)), h, g')" for h
    using leader_pop [OF assms(1)] assms(2) by (simp add: fetch_next_def after_pop_def)
  then show ?thesis
    by (cases m) (simp add: worker_pop_def fetch_api_def pop_via_forward_def consume_open_def
      with_lock_def svc_def no_channels_def after_pop_def)
qed

end
