(* ===== verification/Competing.thy ===== *)
theory Competing
  imports Stream_Forward
begin

text \<open>
  Several consume streams at once. The comment on \<open>QueueRequest\<close> in \<open>types.rs\<close> says why a
  pop is safe for competing consumers: whichever proposal commits first gets the message.
  Here any number of streams, on any nodes of a cluster, on the same or on different queues,
  share the cluster's state and interleave step by step.
\<close>

section \<open>Streams that share a cluster\<close>

text \<open>A stream is known with its node and its queue.\<close>

type_synonym ('c, 'ch, 'w) placed_stream = "u64 \<times> string \<times> ('c, 'ch, 'w) consume_stream"

record ('c, 'ch, 'w) consumers =
  cs_streams :: "('c, 'ch, 'w) placed_stream list"
  cs_caches :: "'ch channel_heap"
  cs_world :: 'w

inductive consumers_step ::
  "((Status, ConsumeResponse) result, 'c) mpsc_api \<Rightarrow> (u64 \<Rightarrow> ('ch, 's, 'w) mq_api) \<Rightarrow> (u64 \<Rightarrow> MqServiceImpl)
     \<Rightarrow> ('w \<Rightarrow> 'w \<Rightarrow> bool) \<Rightarrow> ('c, 'ch, 'w) consumers \<Rightarrow> ('c, 'ch, 'w) consumers \<Rightarrow> bool"
  for mpsc node impl env where
  opens:
    "consume mpsc inbound (cs_caches c) (cs_world c) = Inr (q, s) \<Longrightarrow>
     consumers_step mpsc node impl env c (c\<lparr>cs_streams := cs_streams c @ [(n, q, s)]\<rparr>)"
| moves:
    "\<lbrakk>i < length (cs_streams c); cs_streams c ! i = (n, q, s);
      consume_step mpsc (node n) (impl n) q env (s\<lparr>st_caches := cs_caches c, st_world := cs_world c\<rparr>) s'\<rbrakk> \<Longrightarrow>
     consumers_step mpsc node impl env c
       \<lparr>cs_streams = (cs_streams c)[i := (n, q, s')], cs_caches = st_caches s', cs_world = st_world s'\<rparr>"

text \<open>What the streams on one queue have popped, and what their clients have received.\<close>

definition popped_for :: "string \<Rightarrow> ('c, 'ch, 'w) placed_stream \<Rightarrow> (u64 \<times> bytes) multiset" where
  "popped_for q x = (if fst (snd x) = q then mset (st_got (snd (snd x))) else {#})"

definition all_popped :: "string \<Rightarrow> ('c, 'ch, 'w) consumers \<Rightarrow> (u64 \<times> bytes) multiset" where
  "all_popped q c = sum_list (map (popped_for q) (cs_streams c))"

definition all_received :: "string \<Rightarrow> ('c, 'ch, 'w) consumers \<Rightarrow> (Status, ConsumeResponse) result list" where
  "all_received q c =
     concat (map (\<lambda>x. st_received (snd (snd x))) (filter (\<lambda>x. fst (snd x) = q) (cs_streams c)))"

lemma all_popped_moves:
  assumes "i < length (cs_streams c)" "cs_streams c ! i = (n, q, s)" "st_got s' = st_got s @ new"
  shows "all_popped p (c\<lparr>cs_streams := (cs_streams c)[i := (n, q, s')]\<rparr>) =
    all_popped p c + (if p = q then mset new else {#})"
proof -
  let ?x = "popped_for p (n, q, s')"
  have "sum_list (map (popped_for p) ((cs_streams c)[i := (n, q, s')])) + popped_for p (cs_streams c ! i) =
      sum_list (map (popped_for p) (cs_streams c)) + ?x"
    by (rule sum_list_update_multiset [OF assms(1)])
  moreover have "?x = popped_for p (cs_streams c ! i) + (if p = q then mset new else {#})"
    using assms(2,3) by (simp add: popped_for_def)
  ultimately show ?thesis by (simp add: all_popped_def)
qed

section \<open>No two streams get the same message\<close>

text \<open>
  Every node keeps the contract of a popping stream, be it as the leader or by fetching;
  \<open>home\<close> is one of them.
\<close>

locale stream_cluster =
  popping_stream mpsc capacity queued connected checks ok "node home" commands env
  for mpsc :: "((Status, ConsumeResponse) result, 'c) mpsc_api"
    and capacity queued connected checks
    and ok :: "'w \<Rightarrow> bool"
    and node :: "u64 \<Rightarrow> ('ch, 's, 'w) mq_api"
    and home :: u64
    and commands env +
  assumes every_node: "popping_stream mpsc capacity queued connected checks ok (node n) commands env"
begin

definition shared_ok :: "('c, 'ch, 'w) consumers \<Rightarrow> bool" where
  "shared_ok c \<longleftrightarrow> ok (cs_world c) \<and> (\<forall>x\<in>set (cs_streams c). good (snd (snd x))) \<and>
     (length (commands (cs_world c)) < 2 ^ 64 \<longrightarrow> (\<forall>q. all_popped q c \<subseteq># mset (taken_from q (cs_world c))))"

lemma step_shared_ok: "\<lbrakk>consumers_step mpsc node impl env c c'; shared_ok c\<rbrakk> \<Longrightarrow> shared_ok c'"
proof (induction rule: consumers_step.induct)
  case (opens inbound c q s n)
  then have "s = consume_start mpsc (cs_caches c) (cs_world c)" by (simp add: consume_started)
  then have "good s" "st_got s = []" by (simp_all add: consume_start_ok) (simp add: consume_start_def)
  with opens.prems show ?case by (auto simp: shared_ok_def all_popped_def popped_for_def)
next
  case (moves i c n q s s')
  let ?s = "s\<lparr>st_caches := cs_caches c, st_world := cs_world c\<rparr>"
  have "(n, q, s) \<in> set (cs_streams c)" using moves.hyps(1,2) by (metis nth_mem)
  with moves.prems have "good s" by (auto simp: shared_ok_def)
  then have "good ?s" by (simp add: stream_ok_def conserved_def bounded_loss_def)
  from step_ok [OF moves.hyps(3) this] have good: "good s'" .
  have "takes q ?s s'"
    using popping_stream.step_takes [OF every_node moves.hyps(3)] moves.prems by (simp add: shared_ok_def)
  then obtain added new where t: "ok (st_world s')" "commands (st_world s') = commands (cs_world c) @ added"
    "st_got s' = st_got s @ new"
    "length (commands (st_world s')) < 2 ^ 64 \<Longrightarrow>
      mset (taken_from q (cs_world c)) + mset new \<subseteq># mset (taken_from q (st_world s'))"
    by (auto simp: takes_def)
  let ?c = "\<lparr>cs_streams = (cs_streams c)[i := (n, q, s')], cs_caches = st_caches s', cs_world = st_world s'\<rparr>"
  have "all_popped p ?c \<subseteq># mset (taken_from p (st_world s'))" if l: "length (commands (st_world s')) < 2 ^ 64" for p
  proof -
    have "all_popped p ?c = all_popped p c + (if p = q then mset new else {#})"
      using all_popped_moves [OF moves.hyps(1,2) t(3), of p] by (simp add: all_popped_def)
    also have "\<dots> \<subseteq># mset (taken_from p (cs_world c)) + (if p = q then mset new else {#})"
      using moves.prems t(2) l by (simp add: shared_ok_def)
    also have "\<dots> \<subseteq># mset (taken_from p (st_world s'))"
      using t(4) [OF l] nothing_taken [OF t(2) l, of p] by auto
    finally show ?thesis .
  qed
  moreover have "\<forall>x\<in>set ((cs_streams c)[i := (n, q, s')]). good (snd (snd x))"
    using moves.prems good set_update_subset_insert [of "cs_streams c" i "(n, q, s')"]
    by (auto simp: shared_ok_def)
  ultimately show ?case using t(1) by (simp add: shared_ok_def)
qed

lemma steps_shared_ok: "\<lbrakk>(consumers_step mpsc node impl env)\<^sup>*\<^sup>* c c'; shared_ok c\<rbrakk> \<Longrightarrow> shared_ok c'"
  by (induction rule: rtranclp_induct) (auto intro: step_shared_ok)

lemma all_received_popped:
  fixes c :: "('c, 'ch, 'w) consumers"
  assumes "\<forall>x\<in>set (cs_streams c). good (snd (snd x))"
  shows "mset (all_received q c) \<subseteq># image_mset response (all_popped q c)"
proof -
  have "mset (concat (map (\<lambda>x. st_received (snd (snd x))) (filter (\<lambda>x. fst (snd x) = q) xs))) \<subseteq>#
      image_mset response (sum_list (map (popped_for q) xs))" if "\<forall>x\<in>set xs. good (snd (snd x))"
    for xs :: "('c, 'ch, 'w) placed_stream list"
    using that
  proof (induction xs)
    case (Cons x xs)
    from Cons.prems received_popped [of "snd (snd x)"]
    have "mset (st_received (snd (snd x))) \<subseteq># image_mset response (mset (st_got (snd (snd x))))" by simp
    with Cons show ?case
      by (auto simp: popped_for_def intro: subset_mset.add_mono)
  qed simp
  with assms show ?thesis by (simp add: all_received_def all_popped_def)
qed

lemma shared_once:
  assumes c: "shared_ok c" and "length (commands (cs_world c)) < 2 ^ 64"
  shows "distinct (all_received q c) \<and>
    set (all_received q c) \<subseteq> response ` set (with_offsets (published_to q (commands (cs_world c))))"
proof -
  have "mset (all_received q c) \<subseteq># image_mset response (all_popped q c)"
    using c by (intro all_received_popped) (simp add: shared_ok_def)
  also have "\<dots> \<subseteq># mset (map response (taken_from q (cs_world c)))"
    using assms image_mset_subseteq_mono [of "all_popped q c" "mset (taken_from q (cs_world c))" response]
    by (simp add: shared_ok_def)
  finally show ?thesis by (rule taken_once [OF assms(2)])
qed

lemma shared_ok_start: "ok w \<Longrightarrow> shared_ok \<lparr>cs_streams = [], cs_caches = h, cs_world = w\<rparr>"
  by (simp add: shared_ok_def all_popped_def)

lemma competing_once:
  assumes "(consumers_step mpsc node impl env)\<^sup>*\<^sup>* \<lparr>cs_streams = [], cs_caches = h, cs_world = w\<rparr> c" "ok w"
    and "length (commands (cs_world c)) < 2 ^ 64"
  shows "distinct (all_received q c) \<and>
    set (all_received q c) \<subseteq> response ` set (with_offsets (published_to q (commands (cs_world c))))"
  by (rule shared_once [OF steps_shared_ok [OF assms(1) shared_ok_start [OF assms(2)]] assms(3)])

text \<open>
  A message that has been popped, that no client has received, and that no open stream has got,
  is out of reach: a stream gets only what is popped for it, and nothing is popped twice.
\<close>

definition out_of_reach :: "string \<Rightarrow> u64 \<times> bytes \<Rightarrow> ('c, 'ch, 'w) consumers \<Rightarrow> bool" where
  "out_of_reach q m c \<longleftrightarrow> m \<in> set (taken_from q (cs_world c)) \<and>
     (\<forall>(n, p, s)\<in>set (cs_streams c). p = q \<longrightarrow>
        (connected (st_chan s) \<longrightarrow> m \<notin> set (st_got s)) \<and> response m \<notin> set (st_received s))"

lemma stream_out_of_reach:
  assumes "consume_step mpsc (node n) self q env s s'" "ok (st_world s)" "good s"
    and "length (commands (st_world s')) < 2 ^ 64" "m \<in> set (taken_from q (st_world s))"
    and "connected (st_chan s) \<longrightarrow> m \<notin> set (st_got s)" "response m \<notin> set (st_received s)"
  shows "(connected (st_chan s') \<longrightarrow> m \<notin> set (st_got s')) \<and> response m \<notin> set (st_received s')"
proof -
  have "takes q s s'" by (rule popping_stream.step_takes [OF every_node assms(1,2)])
  with assms(4) obtain new where new: "st_got s' = st_got s @ new"
    "mset (taken_from q (st_world s) @ new) \<subseteq># mset (taken_from q (st_world s'))"
    by (auto simp: takes_def)
  have "m \<notin> set new"
    using submultiset_distinct [OF new(2) taken_distinct [OF assms(4)]] assms(5) by auto
  then show ?thesis
    using new(1) assms(6,7) step_stays_closed [OF assms(1)] step_receives [OF assms(1,3), of "response m"] inj_response
    by (auto dest: injD)
qed

lemma step_out_of_reach:
  "\<lbrakk>consumers_step mpsc node impl env c c'; shared_ok c; length (commands (cs_world c')) < 2 ^ 64;
    out_of_reach q m c\<rbrakk> \<Longrightarrow> out_of_reach q m c'"
proof (induction rule: consumers_step.induct)
  case (opens inbound c p s n)
  then show ?case by (auto simp: out_of_reach_def consume_start_def dest!: consume_started)
next
  case (moves i c n p s s')
  let ?s = "s\<lparr>st_caches := cs_caches c, st_world := cs_world c\<rparr>"
  have s: "(n, p, s) \<in> set (cs_streams c)" using moves.hyps(1,2) by (metis nth_mem)
  with moves.prems(1) have ok: "ok (st_world ?s)" "good s" by (auto simp: shared_ok_def)
  then have good: "good ?s" by (simp add: stream_ok_def conserved_def bounded_loss_def)
  have l: "length (commands (st_world s')) < 2 ^ 64" using moves.prems(2) by simp
  from popping_stream.step_takes [OF every_node moves.hyps(3) ok(1)] obtain added where
    "commands (st_world s') = commands (cs_world c) @ added" by (auto simp: takes_def)
  from set_mset_mono [OF nothing_taken [OF this l, of q]] moves.prems(3)
  have "m \<in> set (taken_from q (st_world s'))" by (auto simp: out_of_reach_def)
  moreover have "(connected (st_chan s') \<longrightarrow> m \<notin> set (st_got s')) \<and> response m \<notin> set (st_received s')" if "p = q"
  proof -
    have "m \<in> set (taken_from q (cs_world c))" "connected (st_chan s) \<longrightarrow> m \<notin> set (st_got s)"
      "response m \<notin> set (st_received s)"
      using moves.prems(3) s that unfolding out_of_reach_def by fastforce+
    with stream_out_of_reach [OF moves.hyps(3) [unfolded that] ok(1) good l, of m] show ?thesis by simp
  qed
  ultimately show ?case
    using moves.prems(3) set_update_subset_insert [of "cs_streams c" i "(n, p, s')"]
    by (auto simp: out_of_reach_def)
qed

lemma step_commands:
  "\<lbrakk>consumers_step mpsc node impl env c c'; shared_ok c\<rbrakk> \<Longrightarrow>
   length (commands (cs_world c)) \<le> length (commands (cs_world c'))"
proof (induction rule: consumers_step.induct)
  case (moves i c n p s s')
  then have "ok (st_world (s\<lparr>st_caches := cs_caches c, st_world := cs_world c\<rparr>))" by (simp add: shared_ok_def)
  from popping_stream.step_takes [OF every_node moves.hyps(3) this] show ?case by (auto simp: takes_def)
qed simp

lemma steps_out_of_reach:
  "\<lbrakk>(consumers_step mpsc node impl env)\<^sup>*\<^sup>* c c'; shared_ok c; length (commands (cs_world c')) < 2 ^ 64;
    out_of_reach q m c\<rbrakk> \<Longrightarrow> out_of_reach q m c'"
proof (induction rule: rtranclp_induct)
  case (step d e)
  have d: "shared_ok d" by (rule steps_shared_ok [OF step.hyps(1) step.prems(1)])
  with step_commands [OF step.hyps(2)] step.prems(2) have "length (commands (cs_world d)) < 2 ^ 64" by fastforce
  from step_out_of_reach [OF step.hyps(2) d step.prems(2) step.IH [OF step.prems(1) this step.prems(3)]] show ?case .
qed

lemma lost_for_good:
  assumes "(consumers_step mpsc node impl env)\<^sup>*\<^sup>* \<lparr>cs_streams = [], cs_caches = h, cs_world = w\<rparr> c" "ok w"
    and "(consumers_step mpsc node impl env)\<^sup>*\<^sup>* c c'" "length (commands (cs_world c')) < 2 ^ 64"
    and "m \<in> set (taken_from q (cs_world c))"
    and "\<forall>(n, p, s)\<in>set (cs_streams c). p = q \<and> connected (st_chan s) \<longrightarrow> m \<notin> set (st_got s)"
    and "response m \<notin> set (all_received q c)"
  shows "response m \<notin> set (all_received q c') \<and>
    (\<exists>xs st. run_cmds (QueueState_apply checks) QueueState_default (commands (cs_world c')) = (Returned xs, st)
      \<and> m \<notin> set (get_or (queues st) q []))"
proof -
  have "out_of_reach q m c" using assms(5-7) by (fastforce simp: out_of_reach_def all_received_def)
  from steps_out_of_reach [OF assms(3) steps_shared_ok [OF assms(1) shared_ok_start [OF assms(2)]] assms(4) this]
  have "out_of_reach q m c'" .
  moreover from this have "m \<in> set (taken_from q (cs_world c'))" by (simp add: out_of_reach_def)
  note taken_not_queued [OF this assms(4)]
  ultimately show ?thesis by (fastforce simp: out_of_reach_def all_received_def)
qed

lemmas lost_in_run = lost_for_good [OF _ _ _ _ taken_in_run]

end

section \<open>A leader, and followers that fetch from it\<close>

definition duo_node :: "u64 \<Rightarrow> (string, string, queue_group) mq_api" where
  "duo_node n = (if n = 1 then leader_api else fetch_api)"

definition duo_impl :: "u64 \<Rightarrow> MqServiceImpl" where
  "duo_impl n = svc (if n = 1 then ''node-1'' else ''node-2'')"

interpretation duo: stream_cluster lc_api lc_capacity lc_queue lc_connected True "leads_group True"
  duo_node 1 group_commands "other_write True"
proof -
  have "popping_stream lc_api lc_capacity lc_queue lc_connected True (leads_group True) (duo_node n)
      group_commands (other_write True)" for n
    using lead.pops fetch.popping by (simp add: duo_node_def)
  then show "stream_cluster lc_api lc_capacity lc_queue lc_connected True (leads_group True)
      duo_node 1 group_commands (other_write True)"
    by (intro stream_cluster.intro stream_cluster_axioms.intro)
qed

lemma duo_roles:
  "leader_stream lc_api lc_capacity lc_queue lc_connected True (leads_group True) (duo_node n)
      group_commands (other_write True) \<or>
    (\<exists>m. leader_stream lc_api lc_capacity lc_queue lc_connected True (leads_group True) (duo_node m)
      group_commands (other_write True) \<and>
      forwarding_stream lc_api lc_capacity lc_queue lc_connected True (leads_group True) (duo_node m)
      group_commands (other_write True) (duo_node n))"
  using lead.leader_stream_axioms fetch.forwarding_stream_axioms by (auto simp: duo_node_def)

text \<open>A stream that is in step with the cluster runs on among the others.\<close>

lemma moves_steps:
  assumes "consume_steps mpsc (node n) (impl n) q env s s'"
    and "i < length ss" "ss ! i = (n, q, s)"
  shows "(consumers_step mpsc node impl env)\<^sup>*\<^sup>*
    \<lparr>cs_streams = ss, cs_caches = st_caches s, cs_world = st_world s\<rparr>
    \<lparr>cs_streams = ss[i := (n, q, s')], cs_caches = st_caches s', cs_world = st_world s'\<rparr>"
  using assms(1)
proof (induction rule: rtranclp_induct)
  case base
  show ?case using assms(3) by (metis list_update_id rtranclp.rtrancl_refl)
next
  case (step t u)
  let ?c = "\<lparr>cs_streams = ss[i := (n, q, t)], cs_caches = st_caches t, cs_world = st_world t\<rparr>"
  have "consumers_step mpsc node impl env ?c
      \<lparr>cs_streams = ss[i := (n, q, u)], cs_caches = st_caches u, cs_world = st_world u\<rparr>"
    using consumers_step.moves [of i ?c n q t mpsc node impl env u] step.hyps(2) assms(2) by simp
  with step.IH show ?case by simp
qed

lemma opens_stream:
  "(consumers_step mpsc node impl env)\<^sup>*\<^sup>* \<lparr>cs_streams = ss, cs_caches = h, cs_world = w\<rparr>
     \<lparr>cs_streams = ss @ [(n, q, consume_start mpsc h w)], cs_caches = h, cs_world = w\<rparr>"
  using consumers_step.opens [of mpsc "[Inr \<lparr>kind = Some (Subscribe q)\<rparr>]"
      "\<lparr>cs_streams = ss, cs_caches = h, cs_world = w\<rparr>" q "consume_start mpsc h w" node impl env n]
  by (simp add: consume_subscribed)

text \<open>One pop by a worker on each of the two nodes.\<close>

lemma duo_pops:
  obtains f g where
    "worker_pop (duo_node 1) (duo_impl 1) ''q'' (no_channels, two_published) = (Returned (Sending (0, [7])), no_channels, f)"
    "worker_pop (duo_node 2) (duo_impl 2) ''q'' (no_channels, f) =
       (Returned (Sending (1, [8])), no_channels(2 := mutex_new (fmupd 1 ''a'' fmempty)), g)"
    "length (group_commands g) = 4"
proof -
  obtain g1 g2 where g: "group_write True (Pop ''q'') two_published =
      (Inr \<lparr>published_offset = None, popped = Some (0, [7])\<rparr>, g1)"
    "group_write True (Pop ''q'') g1 = (Inr \<lparr>published_offset = None, popped = Some (1, [8])\<rparr>, g2)"
    "group_commands g2 = [Publish ''q'' [7], Publish ''q'' [8], Pop ''q'', Pop ''q'']"
    by (rule two_pops)
  have "length (group_commands g2) = 4" by (simp add: g(3))
  moreover have "worker_pop (duo_node 1) (duo_impl 1) ''q'' (no_channels, two_published) =
      (Returned (Sending (0, [7])), no_channels, g1)"
    using leader_pop [OF g(1)] by (simp add: duo_node_def duo_impl_def after_pop_def)
  moreover have "worker_pop (duo_node 2) (duo_impl 2) ''q'' (no_channels, g1) =
      (Returned (Sending (1, [8])), no_channels(2 := mutex_new (fmupd 1 ''a'' fmempty)), g2)"
    using follower_fetch [OF g(2)] by (simp add: duo_node_def duo_impl_def)
  ultimately show thesis by (intro that)
qed

lemma two_consumers:
  obtains c where "(consumers_step lc_api duo_node duo_impl env)\<^sup>*\<^sup>*
      \<lparr>cs_streams = [], cs_caches = no_channels, cs_world = two_published\<rparr> c"
    "all_received ''q'' c = [response (0, [7]), response (1, [8])]" "map fst (cs_streams c) = [1, 2]"
    "length (group_commands (cs_world c)) = 4"
proof -
  let ?h = "no_channels(2 := mutex_new (fmupd 1 ''a'' fmempty))"
  obtain g1 g3 where
    pop1: "worker_pop (duo_node 1) (duo_impl 1) ''q'' (no_channels, two_published) = (Returned (Sending (0, [7])), no_channels, g1)"
    and pop2: "worker_pop (duo_node 2) (duo_impl 2) ''q'' (no_channels, g1) = (Returned (Sending (1, [8])), ?h, g3)"
    and c: "length (group_commands g3) = 4"
    by (rule duo_pops)
  let ?done_with = "\<lambda>h g m. \<lparr>st_workers = replicate POP_CONCURRENCY Proposing,
     st_chan = \<lparr>lc_capacity = 128, lc_queue = [], lc_connected = True\<rparr>, st_caches = h, st_world = g,
     st_got = [m], st_retries = 0, st_received = [response m]\<rparr>"
  let ?step = "(consumers_step lc_api duo_node duo_impl env)\<^sup>*\<^sup>*"
  let ?start = "\<lambda>n g. (n, ''q'', consume_start lc_api no_channels g)"
  let ?one = "(1, ''q'', ?done_with no_channels g1 (0, [7]))"
  have first: "?step \<lparr>cs_streams = [?start 1 two_published], cs_caches = no_channels, cs_world = two_published\<rparr>
      \<lparr>cs_streams = [?one], cs_caches = no_channels, cs_world = g1\<rparr>"
    using moves_steps [where node = duo_node and impl = duo_impl and n = 1, OF one_message [OF pop1], of 0 "[?start 1 two_published]"] by (simp add: consume_start_def)
  have second: "?step \<lparr>cs_streams = [?one, ?start 2 g1], cs_caches = no_channels, cs_world = g1\<rparr>
      \<lparr>cs_streams = [?one, (2, ''q'', ?done_with ?h g3 (1, [8]))], cs_caches = ?h, cs_world = g3\<rparr>"
    using moves_steps [where node = duo_node and impl = duo_impl and n = 2, OF one_message [OF pop2], of 1 "[?one, ?start 2 g1]"]
    by (simp add: consume_start_def)
  have open1: "?step \<lparr>cs_streams = [], cs_caches = no_channels, cs_world = two_published\<rparr>
      \<lparr>cs_streams = [?start 1 two_published], cs_caches = no_channels, cs_world = two_published\<rparr>"
    using opens_stream [of lc_api duo_node duo_impl env "[]"] by simp
  have open2: "?step \<lparr>cs_streams = [?one], cs_caches = no_channels, cs_world = g1\<rparr>
      \<lparr>cs_streams = [?one, ?start 2 g1], cs_caches = no_channels, cs_world = g1\<rparr>"
    using opens_stream [of lc_api duo_node duo_impl env "[?one]"] by simp
  show thesis
    by (rule that [OF rtranclp_trans [OF rtranclp_trans [OF open1 first] rtranclp_trans [OF open2 second]]])
       (simp_all add: all_received_def c)
qed

section \<open>Properties\<close>

text \<open>
  C6: competing consumers never share a message. Any number of consume streams on any nodes
  of a cluster, opened at any time, on the same queue or on others, each with its 32
  workers, interleave with each other and with other clients that commit what they like;
  each node leads or fetches from a node that serves it. Over all streams on a queue the
  received messages are pairwise different, and each is a published message under its own
  offset.
\<close>

theorem competing_consumers_share_nothing:
  assumes "\<And>n. leader_stream mpsc capacity queued connected checks ok (node n) commands env \<or>
      (\<exists>m. leader_stream mpsc capacity queued connected checks ok (node m) commands env \<and>
        forwarding_stream mpsc capacity queued connected checks ok (node m) commands env (node n))"
    and "(consumers_step mpsc node impl env)\<^sup>*\<^sup>* \<lparr>cs_streams = [], cs_caches = h, cs_world = w\<rparr> c" and "ok w"
    and "length (commands (cs_world c)) < 2 ^ 64"
  shows "distinct (all_received q c) \<and>
    set (all_received q c) \<subseteq> response ` set (with_offsets (published_to q (commands (cs_world c))))"
proof -
  have "popping_stream mpsc capacity queued connected checks ok (node n) commands env" for n
    using assms(1) [of n] leader_stream.pops forwarding_stream.popping by blast
  then have "stream_cluster mpsc capacity queued connected checks ok node 0 commands env"
    by (intro stream_cluster.intro stream_cluster_axioms.intro)
  from stream_cluster.competing_once [OF this assms(2-4)] show ?thesis .
qed

theorem competing_consumers_share_nothing_witness:
  "\<exists>c. (consumers_step lc_api duo_node duo_impl (other_write True))\<^sup>*\<^sup>*
       \<lparr>cs_streams = [], cs_caches = no_channels, cs_world = two_published\<rparr> c \<and>
     map fst (cs_streams c) = [1, 2] \<and> length (all_received ''q'' c) = 2 \<and> distinct (all_received ''q'' c)"
proof -
  obtain c where run: "(consumers_step lc_api duo_node duo_impl (other_write True))\<^sup>*\<^sup>*
      \<lparr>cs_streams = [], cs_caches = no_channels, cs_world = two_published\<rparr> c"
    and c: "all_received ''q'' c = [response (0, [7]), response (1, [8])]" "map fst (cs_streams c) = [1, 2]"
      "length (group_commands (cs_world c)) = 4"
    by (rule two_consumers)
  have l: "length (group_commands (cs_world c)) < 2 ^ 64" using c(3) by simp
  from competing_consumers_share_nothing [OF duo_roles run two_published_ok(1) l, of "''q''"] run c
  show ?thesis by (intro exI [of _ c]) simp
qed

text \<open>
  C15: what is popped and not in an open stream is lost. Take any state that the streams of a
  cluster can reach and any message that a committed pop has taken from a queue, that no client
  has received and that no worker of a connected stream has got: one that a stream popped whose
  client has hung up, as \<open>pop_via_forward\<close> does after the first message; one that a fetch
  popped besides the message it returned; or one whose pop was committed by a write that was
  reported as failed. Then no consumer on any node ever receives it, whatever streams are opened
  afterwards, and the replicated queue no longer holds it.
\<close>

theorem popped_messages_are_lost:
  assumes "\<And>n. leader_stream mpsc capacity queued connected checks ok (node n) commands env \<or>
      (\<exists>m. leader_stream mpsc capacity queued connected checks ok (node m) commands env \<and>
        forwarding_stream mpsc capacity queued connected checks ok (node m) commands env (node n))"
    and "(consumers_step mpsc node impl env)\<^sup>*\<^sup>* \<lparr>cs_streams = [], cs_caches = h, cs_world = w\<rparr> c" and "ok w"
    and "(consumers_step mpsc node impl env)\<^sup>*\<^sup>* c c'" and "length (commands (cs_world c')) < 2 ^ 64"
    and "run_cmds (QueueState_apply checks) QueueState_default (commands (cs_world c)) = (Returned xs, st)"
    and "m \<in> set (popped_from q (commands (cs_world c)) xs)" and "response m \<notin> set (all_received q c)"
    and "\<forall>(n, p, s)\<in>set (cs_streams c). p = q \<and> connected (st_chan s) \<longrightarrow> m \<notin> set (st_got s)"
  shows "response m \<notin> set (all_received q c') \<and>
    (\<exists>ys st'. run_cmds (QueueState_apply checks) QueueState_default (commands (cs_world c')) = (Returned ys, st')
      \<and> m \<notin> set (get_or (queues st') q []))"
proof -
  have "popping_stream mpsc capacity queued connected checks ok (node n) commands env" for n
    using assms(1) [of n] leader_stream.pops forwarding_stream.popping by blast
  then have "stream_cluster mpsc capacity queued connected checks ok node 0 commands env"
    by (intro stream_cluster.intro stream_cluster_axioms.intro)
  from stream_cluster.lost_in_run [OF this assms(2-6) assms(7,9,8)] show ?thesis .
qed

text \<open>
  A client of the leader receives the first of two messages and hangs up; a second client
  subscribes on the follower.
\<close>

lemma hung_up_consumer:
  obtains g c c' where "(consumers_step lc_api duo_node duo_impl env)\<^sup>*\<^sup>*
      \<lparr>cs_streams = [], cs_caches = no_channels, cs_world = two_published\<rparr> c"
    "(consumers_step lc_api duo_node duo_impl env)\<^sup>*\<^sup>* c c'" "map fst (cs_streams c') = [1, 2]"
    "cs_streams c = [(1, ''q'', after_sends no_channels g [] False [response (0, [7])])]"
    "cs_world c = g" "cs_world c' = g"
    "group_commands g = [Publish ''q'' [7], Publish ''q'' [8], Pop ''q'', Pop ''q'']"
proof -
  obtain g where cmds: "group_commands g = [Publish ''q'' [7], Publish ''q'' [8], Pop ''q'', Pop ''q'']"
    and run: "consume_steps lc_api leader_api (duo_impl 1) ''q'' env (consume_start lc_api no_channels two_published)
      (after_sends no_channels g [response (0, [7]), response (1, [8])] True [])"
    by (rule both_sent)
  let ?s = "consume_start lc_api no_channels two_published"
  let ?t = "after_sends no_channels g [] False [response (0, [7])]"
  let ?steps = "(consumers_step lc_api duo_node duo_impl env)\<^sup>*\<^sup>*"
  let ?c = "\<lparr>cs_streams = [(1, ''q'', ?t)], cs_caches = no_channels, cs_world = g\<rparr>"
  note run
  also note one_receive
  also note hang_up
  finally have "consume_steps lc_api (duo_node 1) (duo_impl 1) ''q'' env ?s ?t" by (simp add: duo_node_def)
  from moves_steps [where node = duo_node and impl = duo_impl and n = 1 and i = 0 and ss = "[(1, ''q'', ?s)]", OF this]
  have "?steps \<lparr>cs_streams = [(1, ''q'', ?s)], cs_caches = no_channels, cs_world = two_published\<rparr> ?c"
    by (simp add: consume_start_def)
  with opens_stream [of lc_api duo_node duo_impl env "[]" no_channels two_published 1 "''q''"]
  have "?steps \<lparr>cs_streams = [], cs_caches = no_channels, cs_world = two_published\<rparr> ?c" by simp
  moreover note opens_stream [of lc_api duo_node duo_impl env "[(1, ''q'', ?t)]" no_channels g 2 "''q''"]
  ultimately show thesis by (rule that [where g = g]) (simp_all, rule cmds)
qed

theorem popped_messages_are_lost_witness:
  "\<exists>c c'. (consumers_step lc_api duo_node duo_impl (other_write True))\<^sup>*\<^sup>*
       \<lparr>cs_streams = [], cs_caches = no_channels, cs_world = two_published\<rparr> c
     \<and> (consumers_step lc_api duo_node duo_impl (other_write True))\<^sup>*\<^sup>* c c' \<and> map fst (cs_streams c') = [1, 2]
     \<and> published_to ''q'' (group_commands (cs_world c')) = [[7], [8]]
     \<and> response (1, [8]) \<notin> set (all_received ''q'' c')
     \<and> (\<exists>ys st. run_cmds (QueueState_apply True) QueueState_default (group_commands (cs_world c')) = (Returned ys, st)
         \<and> (1, [8]) \<notin> set (get_or (queues st) ''q'' []))"
proof -
  obtain g c c' where run: "(consumers_step lc_api duo_node duo_impl (other_write True))\<^sup>*\<^sup>*
      \<lparr>cs_streams = [], cs_caches = no_channels, cs_world = two_published\<rparr> c"
    and more: "(consumers_step lc_api duo_node duo_impl (other_write True))\<^sup>*\<^sup>* c c'" "map fst (cs_streams c') = [1, 2]"
    and c: "cs_streams c = [(1, ''q'', after_sends no_channels g [] False [response (0, [7])])]"
      "cs_world c = g" "cs_world c' = g"
      "group_commands g = [Publish ''q'' [7], Publish ''q'' [8], Pop ''q'', Pop ''q'']"
    by (rule hung_up_consumer)
  obtain st where st: "run_cmds (QueueState_apply True) QueueState_default (group_commands (cs_world c)) =
      (Returned [\<lparr>published_offset = Some 0, popped = None\<rparr>, \<lparr>published_offset = Some 1, popped = None\<rparr>,
        \<lparr>published_offset = None, popped = Some (0, [7])\<rparr>, \<lparr>published_offset = None, popped = Some (1, [8])\<rparr>], st)"
    by (auto simp: c QueueState_default_eq or_insert_def add_u64_def Let_def)
  have l: "length (group_commands (cs_world c')) < 2 ^ 64" by (simp add: c)
  have m: "(1, [8]) \<in> set (popped_from ''q'' (group_commands (cs_world c))
      [\<lparr>published_offset = Some 0, popped = None\<rparr>, \<lparr>published_offset = Some 1, popped = None\<rparr>,
        \<lparr>published_offset = None, popped = Some (0, [7])\<rparr>, \<lparr>published_offset = None, popped = Some (1, [8])\<rparr>])"
    "response (1, [8]) \<notin> set (all_received ''q'' c)"
    "\<forall>(n, p, s)\<in>set (cs_streams c). p = ''q'' \<and> lc_connected (st_chan s) \<longrightarrow> (1, [8]) \<notin> set (st_got s)"
    by (simp_all add: c all_received_def)
  from popped_messages_are_lost [OF duo_roles run two_published_ok(1) more(1) l st m] run more c
  show ?thesis by (intro exI [of _ c] exI [of _ c']) simp
qed

end
