(* ===== verification/Consumer.thy ===== *)
theory Consumer
  imports Competing Mq_Client Throughput
begin

text \<open>
  \<open>demo/consumer\<close>: a number of workers that each keep a consume stream open on one node,
  reconnect when it ends, and share a counter of the messages they received. The program is
  composed with the streams of the cluster; other clients are part of what the cluster does.
\<close>

section \<open>Configuration\<close>

record consumer_config =
  cons_addr :: string
  cons_queue :: string
  cons_concurrency :: nat

definition consumer_read_config :: "environment \<Rightarrow> (IntErrorKind, consumer_config) result" where
  "consumer_read_config env =
     (case env_number env ''MQ_CONSUMER_CONCURRENCY'' ''8'' of
        Inl e \<Rightarrow> Inl e
      | Inr concurrency \<Rightarrow> Inr
          \<lparr>cons_addr = env_or env ''MQ_NODE_ADDR'' ''http://127.0.0.1:5001'',
           cons_queue = env_or env ''MQ_QUEUE'' ''spam'', cons_concurrency = concurrency\<rparr>)"

section \<open>The workers\<close>

text \<open>
  A worker is between two runs, or reads the stream that it opened, known by its place among
  the cluster's streams. \<open>received\<close> is the shared \<open>AtomicU64\<close>, which wraps.
\<close>

record ('c, 'ch, 'w) consumer =
  con_workers :: "nat option list"
  con_received :: u64
  con_reporter :: reporter
  con_cluster :: "('c, 'ch, 'w) consumers"

definition consumer_start :: "nat \<Rightarrow> 'ch channel_heap \<Rightarrow> 'w \<Rightarrow> ('c, 'ch, 'w) consumer" where
  "consumer_start concurrency h w =
     \<lparr>con_workers = replicate concurrency None, con_received = 0, con_reporter = reporter_start,
      con_cluster = \<lparr>cs_streams = [], cs_caches = h, cs_world = w\<rparr>\<rparr>"

text \<open>
  One step of the program: a worker connects to its node and subscribes; a worker takes the
  next item, which the client library drops when it is an error and \<open>run\<close> counts otherwise;
  a run ends and drops its stream; the throughput is logged; or the cluster moves without a client receiving. A run
  that fails to connect changes nothing.
\<close>

inductive consumer_step ::
  "((Status, ConsumeResponse) result, 'c) mpsc_api \<Rightarrow> (u64 \<Rightarrow> ('ch, 's, 'w) mq_api) \<Rightarrow> (u64 \<Rightarrow> MqServiceImpl)
     \<Rightarrow> ('w \<Rightarrow> 'w \<Rightarrow> bool) \<Rightarrow> u64 \<Rightarrow> string \<Rightarrow> ('c, 'ch, 'w) consumer \<Rightarrow> ('c, 'ch, 'w) consumer \<Rightarrow> bool"
  for mpsc node impl env target queue where
  connects:
    "\<lbrakk>i < length (con_workers p); con_workers p ! i = None; c = con_cluster p;
      consume mpsc [Inr \<lparr>kind = Some (Subscribe queue)\<rparr>] (cs_caches c) (cs_world c) = Inr (q, s)\<rbrakk> \<Longrightarrow>
     consumer_step mpsc node impl env target queue p
       (p\<lparr>con_workers := (con_workers p)[i := Some (length (cs_streams c))],
          con_cluster := c\<lparr>cs_streams := cs_streams c @ [(target, q, s)]\<rparr>\<rparr>)"
| next_item:
    "\<lbrakk>i < length (con_workers p); con_workers p ! i = Some k; c = con_cluster p;
      k < length (cs_streams c); cs_streams c ! k = (n, q, s);
      chan_recv mpsc (st_chan s) = Some (item, ch)\<rbrakk> \<Longrightarrow>
     consumer_step mpsc node impl env target queue p
       (p\<lparr>con_received := con_received p + of_nat (length (consume_items [item])),
          con_cluster := c\<lparr>cs_streams := (cs_streams c)[k := (n, q,
            s\<lparr>st_caches := cs_caches c, st_world := cs_world c, st_chan := ch, st_received := st_received s @ [item]\<rparr>)]\<rparr>\<rparr>)"
| run_ends:
    "\<lbrakk>i < length (con_workers p); con_workers p ! i = Some k; c = con_cluster p;
      k < length (cs_streams c); cs_streams c ! k = (n, q, s)\<rbrakk> \<Longrightarrow>
     consumer_step mpsc node impl env target queue p
       (p\<lparr>con_workers := (con_workers p)[i := None],
          con_cluster := c\<lparr>cs_streams := (cs_streams c)[k := (n, q,
            s\<lparr>st_caches := cs_caches c, st_world := cs_world c, st_chan := chan_drop_rx mpsc (st_chan s)\<rparr>)]\<rparr>\<rparr>)"
| reports:
    "consumer_step mpsc node impl env target queue p
       (p\<lparr>con_reporter := reporter_tick (unat (con_received p)) (con_reporter p)\<rparr>)"
| cluster_moves:
    "\<lbrakk>consumers_step mpsc node impl env (con_cluster p) c';
      map (\<lambda>x. (fst (snd x), st_received (snd (snd x)))) (cs_streams c') =
      map (\<lambda>x. (fst (snd x), st_received (snd (snd x)))) (cs_streams (con_cluster p))\<rbrakk> \<Longrightarrow>
     consumer_step mpsc node impl env target queue p (p\<lparr>con_cluster := c'\<rparr>)"

section \<open>What is counted\<close>

definition counted_in :: "string \<Rightarrow> ('c, 'ch, 'w) placed_stream \<Rightarrow> (Status, ConsumeResponse) result multiset" where
  "counted_in q x = (if fst (snd x) = q then mset (st_received (snd (snd x))) else {#})"

lemma all_received_sum:
  fixes c :: "('c, 'ch, 'w) consumers"
  shows "mset (all_received q c) = sum_list (map (counted_in q) (cs_streams c))"
proof -
  have "mset (concat (map (\<lambda>x. st_received (snd (snd x))) (filter (\<lambda>x. fst (snd x) = q) xs))) =
      sum_list (map (counted_in q) xs)" for xs :: "('c, 'ch, 'w) placed_stream list"
    by (induction xs) (auto simp: counted_in_def)
  then show ?thesis by (simp add: all_received_def)
qed

lemma all_received_update:
  assumes "k < length (cs_streams c)" "cs_streams c ! k = (n, q, s)" "st_received s' = st_received s @ xs"
  shows "mset (all_received q (c\<lparr>cs_streams := (cs_streams c)[k := (n, q, s')]\<rparr>)) = mset (all_received q c) + mset xs"
proof -
  have "counted_in q (n, q, s') = counted_in q (cs_streams c ! k) + mset xs"
    using assms(2,3) by (simp add: counted_in_def)
  with sum_list_update_multiset [OF assms(1), of "counted_in q" "(n, q, s')"] show ?thesis
    by (simp add: all_received_sum)
qed

lemma all_received_same:
  fixes c c' :: "('c, 'ch, 'w) consumers"
  assumes "map (\<lambda>x. (fst (snd x), st_received (snd (snd x)))) (cs_streams c') =
    map (\<lambda>x. (fst (snd x), st_received (snd (snd x)))) (cs_streams c)"
  shows "mset (all_received q c') = mset (all_received q c)"
proof -
  have "map (counted_in q) xs =
      map (\<lambda>(p, rs). if p = q then mset rs else {#}) (map (\<lambda>x. (fst (snd x), st_received (snd (snd x)))) xs)"
    for xs :: "('c, 'ch, 'w) placed_stream list"
    by (simp add: counted_in_def)
  with assms show ?thesis by (simp only: all_received_sum)
qed

lemma consume_items_count: "mset xs = mset ys + mset zs \<Longrightarrow>
   length (consume_items xs) = length (consume_items ys) + length (consume_items zs)"
proof -
  have items: "length (consume_items xs) = size (filter_mset (\<lambda>x. \<exists>r. x = Inr r) (mset xs))" for xs
  proof (induction xs)
    case (Cons x xs)
    then show ?case by (cases x) simp_all
  qed simp
  assume "mset xs = mset ys + mset zs"
  then show ?thesis by (simp add: items)
qed

text \<open>
  The program's steps are steps of the cluster, the counter is the number of messages among
  what its streams received, and what was logged adds up as long as the counter cannot have
  wrapped.
\<close>

abbreviation messages_read :: "string \<Rightarrow> ('c, 'ch, 'w) consumers \<Rightarrow> nat" where
  "messages_read queue c \<equiv> length (consume_items (all_received queue c))"

definition counting :: "string \<Rightarrow> ('c, 'ch, 'w) consumer \<Rightarrow> bool" where
  "counting queue p \<longleftrightarrow>
     con_received p = of_nat (messages_read queue (con_cluster p)) \<and>
     (messages_read queue (con_cluster p) < 2 ^ 64 \<longrightarrow>
        reports_true (messages_read queue (con_cluster p)) (con_reporter p)) \<and>
     (\<forall>x\<in>set (cs_streams (con_cluster p)). fst (snd x) = queue)"

lemma item_received:
  assumes "k < length (cs_streams c)" "cs_streams c ! k = (n, q, s)" "chan_recv mpsc (st_chan s) = Some (item, ch)"
  shows "consumers_step mpsc node impl env c
    (c\<lparr>cs_streams := (cs_streams c)[k := (n, q, s\<lparr>st_caches := cs_caches c, st_world := cs_world c, st_chan := ch,
       st_received := st_received s @ [item]\<rparr>)]\<rparr>)"
  using consumers_step.moves [OF assms(1,2) client_receives [of mpsc "s\<lparr>st_caches := cs_caches c, st_world := cs_world c\<rparr>" item ch]]
    assms(3) by (cases c) simp

lemma stream_dropped:
  assumes "k < length (cs_streams c)" "cs_streams c ! k = (n, q, s)"
  shows "consumers_step mpsc node impl env c
    (c\<lparr>cs_streams := (cs_streams c)[k := (n, q, s\<lparr>st_caches := cs_caches c, st_world := cs_world c,
       st_chan := chan_drop_rx mpsc (st_chan s)\<rparr>)]\<rparr>)"
  using consumers_step.moves [OF assms client_disconnects [of mpsc _ _ _ _ "s\<lparr>st_caches := cs_caches c, st_world := cs_world c\<rparr>"]]
  by (cases c) simp

lemma step_in_cluster:
  "consumer_step mpsc node impl env target queue p p' \<Longrightarrow>
   (consumers_step mpsc node impl env)\<^sup>*\<^sup>* (con_cluster p) (con_cluster p')"
proof (induction rule: consumer_step.induct)
  case (connects i p c q s)
  then show ?case using consumers_step.opens [of mpsc _ c q s node impl env target] by (auto intro!: r_into_rtranclp)
next
  case (next_item i p k c n q s item ch)
  then show ?case using item_received by (auto intro!: r_into_rtranclp)
next
  case (run_ends i p k c n q s)
  then show ?case using stream_dropped by (auto intro!: r_into_rtranclp)
next
  case (reports p)
  show ?case by simp
next
  case (cluster_moves p c')
  then show ?case by (auto intro!: r_into_rtranclp)
qed

text \<open>Replacing a stream of the program by one that has received some more.\<close>

lemma counting_update:
  assumes "counting queue p" "c = con_cluster p" "k < length (cs_streams c)" "cs_streams c ! k = (n, q, s)"
    and "st_received t = st_received s @ items"
    and "cs_streams c' = (cs_streams c)[k := (n, q, t)]"
    and "con_received p' = con_received p + of_nat (length (consume_items items))"
    and "con_cluster p' = c'" "con_reporter p' = con_reporter p"
  shows "counting queue p'"
proof -
  have "(n, q, s) \<in> set (cs_streams c)" using assms(3,4) by (metis nth_mem)
  with assms(1,2) have q: "q = queue" by (auto simp: counting_def)
  have "mset (all_received queue (c\<lparr>cs_streams := (cs_streams c)[k := (n, q, t)]\<rparr>)) = mset (all_received queue c) + mset items"
    unfolding q [symmetric] by (rule all_received_update [OF assms(3,4,5)])
  then have "mset (all_received queue c') = mset (all_received queue c) + mset items"
    using assms(6) by (simp add: all_received_def)
  from consume_items_count [OF this] assms q show ?thesis
    using set_update_subset_insert [of "cs_streams c" k "(n, q, t)"]
    by (auto simp: counting_def elim: reports_true_mono)
qed

lemma step_counting:
  assumes "consumer_step mpsc node impl env target queue p p'" "counting queue p" shows "counting queue p'"
  using assms
proof (induction rule: consumer_step.induct)
  case (connects i p c q s)
  then have "q = queue" "st_received s = []" by (auto simp: consume_subscribed consume_start_def)
  with connects show ?case by (auto simp: counting_def all_received_def)
next
  case (next_item i p k c n q s item ch)
  show ?case by (rule counting_update [OF next_item.prems next_item.hyps(3-5), where items = "[item]"]) simp_all
next
  case (run_ends i p k c n q s)
  show ?case by (rule counting_update [OF run_ends.prems run_ends.hyps(3-5), where items = "[]"]) simp_all
next
  case (reports p)
  then show ?case by (auto simp: counting_def unat_of_nat_u64 reports_true_tick)
next
  case (cluster_moves p c')
  have "mset (all_received queue c') = mset (all_received queue (con_cluster p)) + mset []"
    using all_received_same [OF cluster_moves.hyps(2)] by simp
  from consume_items_count [OF this] have "length (consume_items (all_received queue c')) =
      length (consume_items (all_received queue (con_cluster p)))" by simp
  moreover have "(\<forall>x\<in>set (cs_streams c'). fst (snd x) = queue) = (\<forall>x\<in>set (cs_streams (con_cluster p)). fst (snd x) = queue)"
    using arg_cong [OF cluster_moves.hyps(2), of "\<lambda>ys. \<forall>y\<in>set ys. fst y = queue"] by simp
  ultimately show ?case using cluster_moves.prems by (simp add: counting_def)
qed

lemma consumer_run:
  assumes "(consumer_step mpsc node impl env target queue)\<^sup>*\<^sup>* (consumer_start concurrency h w) p"
  shows "(consumers_step mpsc node impl env)\<^sup>*\<^sup>* \<lparr>cs_streams = [], cs_caches = h, cs_world = w\<rparr> (con_cluster p)
    \<and> counting queue p"
  using assms
proof (induction rule: rtranclp_induct)
  case base
  show ?case by (simp add: consumer_start_def counting_def all_received_def reports_true_start)
next
  case (step p p')
  then show ?case
    using step_in_cluster [OF step.hyps(2)] step_counting [OF step.hyps(2)] by (auto intro: rtranclp_trans)
qed

text \<open>The counter is exact when the streams received different messages of a history that a \<open>u64\<close> can count.\<close>

lemma counter_exact:
  assumes "counting queue p" "distinct (all_received queue (con_cluster p))"
    and "set (all_received queue (con_cluster p)) \<subseteq> response ` set (with_offsets ps)" "length ps < 2 ^ 64"
  shows "distinct (consume_items (all_received queue (con_cluster p)))"
    and "set (consume_items (all_received queue (con_cluster p))) \<subseteq> set (with_offsets ps)"
    and "messages_read queue (con_cluster p) \<le> length ps"
    and "unat (con_received p) = messages_read queue (con_cluster p)"
    and "reports_true (messages_read queue (con_cluster p)) (con_reporter p)"
proof -
  let ?ms = "consume_items (all_received queue (con_cluster p))"
  show d: "distinct ?ms"
    using subst [where P = distinct, OF responses [OF assms(3)] assms(2)] by (simp add: distinct_map)
  show sub: "set ?ms \<subseteq> set (with_offsets ps)" by (rule responses_sub [OF assms(3)])
  show "length ?ms \<le> length ps"
    using card_mono [OF _ sub] distinct_card [OF d] card_length [of "with_offsets ps"] by simp
  with assms(1,4) show "unat (con_received p) = length ?ms" "reports_true (length ?ms) (con_reporter p)"
    by (simp_all add: counting_def unat_of_nat_u64)
qed

section \<open>Properties\<close>

text \<open>
  C40: the consumer counts different messages. However its workers connect, read, lose their
  streams and reconnect, and whatever the cluster and other clients do in between, the
  shared counter is the number of messages that were read over all streams ever opened;
  these are pairwise different and were published to the queue, so that the counter never
  exceeds what was published and never wraps. The task that logs the throughput never panics
  and the rates that it has logged add up to no more than the counter.
\<close>

theorem consumer_counts_different_messages:
  assumes "\<And>n. leader_stream mpsc capacity queued connected checks ok (node n) commands env \<or>
      (\<exists>m. leader_stream mpsc capacity queued connected checks ok (node m) commands env \<and>
        forwarding_stream mpsc capacity queued connected checks ok (node m) commands env (node n))"
    and "consumer_read_config vars = Inr cfg"
    and "(consumer_step mpsc node impl env target (cons_queue cfg))\<^sup>*\<^sup>* (consumer_start (cons_concurrency cfg) h w) p"
    and "ok w" and "length (commands (cs_world (con_cluster p))) < 2 ^ 64"
  shows "\<exists>ms. distinct ms \<and> unat (con_received p) = length ms
    \<and> set ms \<subseteq> set (with_offsets (published_to (cons_queue cfg) (commands (cs_world (con_cluster p)))))
    \<and> length ms \<le> length (published_to (cons_queue cfg) (commands (cs_world (con_cluster p))))
    \<and> \<not> rep_panicked (con_reporter p) \<and> sum_list (rep_rates (con_reporter p)) \<le> length ms"
proof -
  let ?q = "cons_queue cfg" and ?c = "con_cluster p"
  let ?ms = "consume_items (all_received ?q ?c)" and ?pub = "with_offsets (published_to ?q (commands (cs_world ?c)))"
  have "popping_stream mpsc capacity queued connected checks ok (node n) commands env" for n
    using assms(1) [of n] leader_stream.pops forwarding_stream.popping by blast
  then have cluster: "stream_cluster mpsc capacity queued connected checks ok node 0 commands env"
    by (intro stream_cluster.intro stream_cluster_axioms.intro)
  note run = consumer_run [OF assms(3)]
  have once: "distinct (all_received ?q ?c)" "set (all_received ?q ?c) \<subseteq> response ` set ?pub"
    using stream_cluster.competing_once [OF cluster conjunct1 [OF run] assms(4,5), of ?q] by auto
  have "length (published_to ?q (commands (cs_world ?c))) < 2 ^ 64"
    using published_to_length [of ?q "commands (cs_world ?c)"] assms(5) by simp
  from counter_exact [OF conjunct2 [OF run] once this] show ?thesis
    by (intro exI [of _ ?ms]) (simp add: reports_true_def)
qed

definition reader where
  "reader s r = \<lparr>con_workers = (replicate 8 None)[0 := Some 0], con_received = r, con_reporter = reporter_start,
     con_cluster = \<lparr>cs_streams = [(1, ''q'', s)], cs_caches = st_caches s, cs_world = st_world s\<rparr>\<rparr>"

lemma reader_moves:
  assumes "consume_step lc_api (duo_node 1) (duo_impl 1) ''q'' env s s'" "st_received s' = st_received s"
  shows "consumer_step lc_api duo_node duo_impl env 1 ''q'' (reader s r) (reader s' r)"
proof -
  have "consumers_step lc_api duo_node duo_impl env (con_cluster (reader s r)) (con_cluster (reader s' r))"
    using consumers_step.moves [of 0 "con_cluster (reader s r)" 1 "''q''" s lc_api duo_node duo_impl env s'] assms(1)
    by (simp add: reader_def)
  from cluster_moves [OF this] assms(2) show ?thesis by (simp add: reader_def)
qed

lemma reader_run:
  assumes pop: "worker_pop (duo_node 1) (duo_impl 1) ''q'' (no_channels, g) = (Returned (Sending m), no_channels, g1)"
  shows "(consumer_step lc_api duo_node duo_impl env 1 ''q'')\<^sup>*\<^sup>* (consumer_start 8 no_channels g)
    (reader (one_sent no_channels g1 m [] [response m]) 1)"
proof -
  let ?step = "consumer_step lc_api duo_node duo_impl env 1 ''q''"
  let ?s0 = "consume_start lc_api no_channels g" and ?s2 = "one_sent no_channels g1 m [response m] []"
  let ?s3 = "one_sent no_channels g1 m [] [response m]"
  have a: "?step (consumer_start 8 no_channels g) (reader ?s0 0)"
    using connects [of 0 "consumer_start 8 no_channels g" "con_cluster (consumer_start 8 no_channels g)"
        lc_api "''q''" "''q''" ?s0 duo_node duo_impl env 1]
    by (simp add: consumer_start_def consume_subscribed reader_def) (simp add: consume_start_def)
  have b: "?step (reader ?s0 0) (reader (one_held no_channels g1 m) 0)"
    by (rule reader_moves [OF pops_one [OF pop]]) (simp add: consume_start_def)
  have c: "?step (reader (one_held no_channels g1 m) 0) (reader ?s2 0)"
    by (rule reader_moves [OF sends_one]) simp
  have "length (consume_items [response m]) = 1" by (cases m) simp
  then have d: "?step (reader ?s2 0) (reader ?s3 1)"
    using next_item [of 0 "reader ?s2 0" 0 "con_cluster (reader ?s2 0)" 1 "''q''" ?s2 lc_api "response m"
        "\<lparr>lc_capacity = 128, lc_queue = [], lc_connected = True\<rparr>" duo_node duo_impl env 1 "''q''"]
    by (simp add: reader_def lc_api_def lc_recv_def)
  show ?thesis
    using rtranclp_trans [OF two_steps [of ?step, OF a b] two_steps [of ?step, OF c d]] .
qed

theorem consumer_counts_different_messages_witness:
  "\<exists>p. (consumer_step lc_api duo_node duo_impl (other_write True) 1 ''q'')\<^sup>*\<^sup>*
       (consumer_start 8 no_channels two_published) p \<and>
     con_received p = 1 \<and>
     (\<exists>ms. distinct ms \<and> length ms = 1 \<and>
        set ms \<subseteq> set (with_offsets (published_to ''q'' (group_commands (cs_world (con_cluster p))))))"
proof -
  let ?env = "other_write True" and ?vars = "\<lambda>name. if name = ''MQ_QUEUE'' then Inr ''q'' else Inl NotPresent"
  obtain g1 where g: "group_write True (Pop ''q'') two_published =
      (Inr \<lparr>published_offset = None, popped = Some (0, [7])\<rparr>, g1)" by (rule two_pops)
  let ?m = "(0 :: u64, [7 :: u8])"
  have pop: "worker_pop (duo_node 1) (duo_impl 1) ''q'' (no_channels, two_published) = (Returned (Sending ?m), no_channels, g1)"
    using leader_pop [OF g] by (simp add: duo_node_def duo_impl_def after_pop_def)
  let ?s3 = "one_sent no_channels g1 ?m [] [response ?m]"
  note run = reader_run [OF pop, of ?env]
  let ?cfg = "\<lparr>cons_addr = ''http://127.0.0.1:5001'', cons_queue = ''q'', cons_concurrency = 8\<rparr>"
  have cfg: "consumer_read_config ?vars = Inr ?cfg"
    by (simp add: consumer_read_config_def env_number_def env_or_def parse_u64_def to_digit_def)
  have nodes: "leader_stream lc_api lc_capacity lc_queue lc_connected True (leads_group True) (duo_node n)
      group_commands ?env \<or>
    (\<exists>m. leader_stream lc_api lc_capacity lc_queue lc_connected True (leads_group True) (duo_node m)
      group_commands ?env \<and>
      forwarding_stream lc_api lc_capacity lc_queue lc_connected True (leads_group True) (duo_node m)
      group_commands ?env (duo_node n))" for n
    using lead.leader_stream_axioms fetch.forwarding_stream_axioms by (auto simp: duo_node_def)
  have "length (group_commands g1) = 3" using leading_write(2) [OF two_published_ok(1) g] two_published_ok(2) by simp
  then have short: "length (group_commands (cs_world (con_cluster (reader ?s3 1)))) < 2 ^ 64" by (simp add: reader_def)
  have run': "(consumer_step lc_api duo_node duo_impl ?env 1 (cons_queue ?cfg))\<^sup>*\<^sup>*
      (consumer_start (cons_concurrency ?cfg) no_channels two_published) (reader ?s3 1)"
    using run by simp
  have "\<exists>ms. distinct ms \<and> unat (con_received (reader ?s3 1)) = length ms \<and>
      set ms \<subseteq> set (with_offsets (published_to ''q'' (group_commands (cs_world (con_cluster (reader ?s3 1))))))"
    using consumer_counts_different_messages [where node = duo_node and ok = "leads_group True" and commands = group_commands,
        OF nodes cfg run' two_published_ok(1) short] by auto
  moreover have "con_received (reader ?s3 1) = 1" by (simp add: reader_def)
  ultimately show ?thesis using run by (intro exI [of _ "reader ?s3 1"]) auto
qed

end
