(* ===== verification/Demo_System.thy ===== *)
theory Demo_System
  imports Producer Consumer
begin

text \<open>
  The demo scenario end to end: one producer and one consumer program, on any nodes of one
  cluster, interleaving with each other and with the cluster. Each message that the consumer
  counts is one that the producer has made, and no message is counted twice.
\<close>

section \<open>Both programs on one cluster\<close>

text \<open>The producer's calls and the consumer's streams act on the same cluster state.\<close>

inductive demo_step ::
  "((Status, ConsumeResponse) result, 'c) mpsc_api \<Rightarrow> (u64 \<Rightarrow> ('ch, 's, 'w) mq_api) \<Rightarrow> (u64 \<Rightarrow> MqServiceImpl)
     \<Rightarrow> ('w \<Rightarrow> 'w \<Rightarrow> bool) \<Rightarrow> u64 \<Rightarrow> ('ch, 't, 'w) mq_api \<Rightarrow> 'ch MqClient \<Rightarrow> string
     \<Rightarrow> producer \<times> ('c, 'ch, 'w) consumer \<Rightarrow> producer \<times> ('c, 'ch, 'w) consumer \<Rightarrow> bool"
  for mpsc node impl env target api client queue where
  producer_moves:
    "\<lbrakk>c = con_cluster p;
      producer_step api client queue (\<lambda>_ _. False) (s, cs_caches c, cs_world c) (s', h', w')\<rbrakk> \<Longrightarrow>
     demo_step mpsc node impl env target api client queue
       (s, p) (s', p\<lparr>con_cluster := c\<lparr>cs_caches := h', cs_world := w'\<rparr>\<rparr>)"
| consumer_moves:
    "consumer_step mpsc node impl env target queue p p' \<Longrightarrow>
     demo_step mpsc node impl env target api client queue (s, p) (s, p')"

section \<open>Payloads under their offsets\<close>

lemma snd_with_offsets: "map snd (with_offsets ps) = ps"
  by (rule nth_equalityI) simp_all

lemma distinct_payloads:
  assumes "distinct ms" "set ms \<subseteq> set (with_offsets ps)" "distinct ps"
  shows "distinct (map snd ms)"
proof -
  have "distinct (map snd (with_offsets ps))" using assms(3) by (simp add: snd_with_offsets)
  then have "inj_on snd (set (with_offsets ps))" by (simp add: distinct_map)
  with assms(1,2) show ?thesis by (auto simp: distinct_map intro: inj_on_subset)
qed

text \<open>
  Different messages of a queue that holds the payloads with numbers \<open>ms\<close>, each once, have
  different numbers out of \<open>ms\<close>.
\<close>

lemma taken_are_numbered:
  assumes "accounted ms s" "mset ps = mset (map (\<lambda>n. into_bytes (producer_payload n)) ms)"
    and "distinct xs" "set xs \<subseteq> set (with_offsets ps)"
  shows "\<exists>ns. distinct ns \<and> set ns \<subseteq> set ms \<and> length ns \<le> length ms
    \<and> map snd xs = map (\<lambda>n. into_bytes (producer_payload n)) ns"
proof -
  let ?pay = "\<lambda>n. into_bytes (producer_payload n)"
  have "distinct ps"
    using assms(1) mset_eq_imp_distinct_iff [OF assms(2)] inj_on_subset [OF payload_number_inj]
    by (auto simp: accounted_def distinct_map)
  then have d: "distinct (map snd xs)" by (rule distinct_payloads [OF assms(3,4)])
  have "set (map snd xs) \<subseteq> set ps"
    using assms(4) arg_cong [OF snd_with_offsets [of ps], of set] by auto
  also have "\<dots> = ?pay ` set ms" using arg_cong [OF assms(2), of set_mset] by simp
  finally have sub: "set (map snd xs) \<subseteq> ?pay ` set ms" .
  then obtain ns where ns: "map snd xs = map ?pay ns" using ex_map_conv [of "map snd xs" ?pay] by blast
  with d have "distinct ns" by (simp add: distinct_map)
  moreover have "set ns \<subseteq> set ms"
    using sub payload_number_inj unfolding ns by (simp add: inj_image_subset_iff)
  ultimately show ?thesis
    using ns card_mono [of "set ms" "set ns"] distinct_card [of ns] card_length [of ms] by auto
qed

section \<open>The composition\<close>

text \<open>
  Every node serves consumers as before, the producer publishes through one of them, and
  neither a worker of a stream nor anybody else publishes to the queue.
\<close>

locale demo_system =
  stream_cluster mpsc capacity queued connected checks ok node home commands env +
  publisher: publishing_client api client queue "\<lambda>_ _. False" ok commands
  for mpsc :: "((Status, ConsumeResponse) result, 'c) mpsc_api"
    and capacity queued connected checks
    and ok :: "'w \<Rightarrow> bool"
    and node :: "u64 \<Rightarrow> ('ch, 's, 'w) mq_api"
    and home :: u64
    and commands env
    and api :: "('ch, 't, 'w) mq_api"
    and client :: "'ch MqClient"
    and queue :: string +
  assumes worker_quiet: "\<lbrakk>ok w; worker_pop (node n) self q (h, w) = (r, h', w')\<rbrakk> \<Longrightarrow>
      published_to queue (commands w') = published_to queue (commands w)"
    and env_quiet: "\<lbrakk>ok w; env w w'\<rbrakk> \<Longrightarrow> published_to queue (commands w') = published_to queue (commands w)"
begin

lemma streams_quiet:
  "\<lbrakk>consume_step mpsc (node n) self q env s t; ok (st_world s)\<rbrakk> \<Longrightarrow>
   published_to queue (commands (st_world t)) = published_to queue (commands (st_world s))"
proof (induction rule: consume_step.induct)
  case (worker_pops i s r h w)
  from worker_quiet [OF worker_pops.prems worker_pops.hyps(3)] show ?case by simp
next
  case (others_act s w)
  from env_quiet [OF others_act.prems others_act.hyps] show ?case by simp
qed simp_all

lemma cluster_quiet:
  "\<lbrakk>consumers_step mpsc node impl env c c'; ok (cs_world c)\<rbrakk> \<Longrightarrow>
   published_to queue (commands (cs_world c')) = published_to queue (commands (cs_world c))"
proof (induction rule: consumers_step.induct)
  case (moves i c n q s s')
  with streams_quiet [OF moves.hyps(3)] show ?case by simp
qed simp

lemma cluster_steps_quiet:
  "\<lbrakk>(consumers_step mpsc node impl env)\<^sup>*\<^sup>* c c'; shared_ok c\<rbrakk> \<Longrightarrow>
   shared_ok c' \<and> published_to queue (commands (cs_world c')) = published_to queue (commands (cs_world c))"
proof (induction rule: rtranclp_induct)
  case (step d e)
  then have d: "shared_ok d" "published_to queue (commands (cs_world d)) = published_to queue (commands (cs_world c))"
    by simp_all
  then have "ok (cs_world d)" by (simp add: shared_ok_def)
  from cluster_quiet [OF step.hyps(2) this] step_shared_ok [OF step.hyps(2) d(1)] d(2) show ?case by simp
qed simp

lemma shared_ok_later:
  assumes "shared_ok c" "ok w" "commands w = commands (cs_world c) @ added"
  shows "shared_ok (c\<lparr>cs_caches := h, cs_world := w\<rparr>)"
  using assms nothing_taken [OF assms(3)]
  by (auto simp: shared_ok_def all_popped_def intro: subset_mset.order_trans)

lemma producer_extends:
  assumes "producer_step api client queue (\<lambda>_ _. False) (s, h, w) (s', h', w')" "ok w"
  shows "ok w' \<and> (\<exists>added. commands w' = commands w @ added)"
  using assms(1)
proof cases
  case (published n offset)
  with publisher.published_commits [OF assms(2)] show ?thesis by blast
next
  case (publish_failed n e)
  with publisher.failed_at_most [OF assms(2)] show ?thesis by fastforce
next
  case (arrives_late n r)
  with publisher.published_commits [OF assms(2)] publisher.failed_at_most [OF assms(2)] show ?thesis
    by (cases r) (fastforce, blast)
qed (use assms(2) in auto)

text \<open>All three invariants together.\<close>

definition demo_ok where
  "demo_ok concurrency before x \<longleftrightarrow> (case x of (s, p) \<Rightarrow>
     shared_ok (con_cluster p) \<and> counting queue p \<and>
     publisher.producing concurrency before (s, cs_caches (con_cluster p), cs_world (con_cluster p)))"

lemma demo_step_ok:
  "\<lbrakk>demo_step mpsc node impl env target api client queue x y; demo_ok k before x\<rbrakk> \<Longrightarrow> demo_ok k before y"
proof (induction rule: demo_step.induct)
  case (producer_moves c p s s' h' w')
  then have I: "shared_ok c" "counting queue p" "publisher.producing k before (s, cs_caches c, cs_world c)"
    by (simp_all add: demo_ok_def)
  obtain added where "ok w'" "commands w' = commands (cs_world c) @ added"
    using producer_extends [OF producer_moves.hyps(2)] I(1) by (auto simp: shared_ok_def)
  with I producer_moves.hyps publisher.step_producing [OF producer_moves.hyps(2) I(3)] shared_ok_later show ?case
    by (auto simp: demo_ok_def counting_def all_received_def)
next
  case (consumer_moves p p' s)
  then have I: "shared_ok (con_cluster p)" "counting queue p"
    "publisher.producing k before (s, cs_caches (con_cluster p), cs_world (con_cluster p))"
    by (simp_all add: demo_ok_def)
  note c = cluster_steps_quiet [OF step_in_cluster [OF consumer_moves.hyps] I(1)]
  then have "publisher.producing k before (s, cs_caches (con_cluster p'), cs_world (con_cluster p'))"
    using I(3) by (simp add: publisher.producing_def shared_ok_def)
  with c step_counting [OF consumer_moves.hyps I(2)] show ?case by (simp add: demo_ok_def)
qed

lemma demo_steps_ok:
  "\<lbrakk>(demo_step mpsc node impl env target api client queue)\<^sup>*\<^sup>* x y; demo_ok k before x\<rbrakk> \<Longrightarrow> demo_ok k before y"
  by (induction rule: rtranclp_induct) (auto intro: demo_step_ok)

text \<open>What the consumer has counted, by the producer's numbers.\<close>

lemma counted_are_produced:
  assumes "demo_ok k {#} (s, p)" "length (commands (cs_world (con_cluster p))) < 2 ^ 64"
  shows "\<exists>ns. distinct ns \<and> set ns \<subseteq> {1..prod_counter s} \<and> length ns \<le> prod_sent s + prod_failed s + k
    \<and> map snd (consume_items (all_received queue (con_cluster p))) = map (\<lambda>n. into_bytes (producer_payload n)) ns
    \<and> unat (con_received p) = length ns"
proof -
  let ?c = "con_cluster p" and ?pay = "\<lambda>n. into_bytes (producer_payload n)"
  let ?ms = "consume_items (all_received queue ?c)" and ?ps = "published_to queue (commands (cs_world ?c))"
  have ok: "shared_ok ?c" "counting queue p" "publisher.producing k {#} (s, cs_caches ?c, cs_world ?c)"
    using assms(1) by (simp_all add: demo_ok_def)
  from ok(3) obtain ms where pool: "producer_ok k s" and ms: "accounted ms s" "mset ?ps = mset (map ?pay ms)"
    by (rule publisher.producingE) auto
  have "distinct (all_received queue ?c)" "set (all_received queue ?c) \<subseteq> response ` set (with_offsets ?ps)"
    using shared_once [OF ok(1) assms(2), of queue] by simp_all
  moreover have "length ?ps < 2 ^ 64" using published_to_length [of queue "commands (cs_world ?c)"] assms(2) by simp
  ultimately have read: "distinct ?ms" "set ?ms \<subseteq> set (with_offsets ?ps)" "unat (con_received p) = length ?ms"
    by (rule counter_exact [OF ok(2)])+
  from taken_are_numbered [OF ms read(1,2)] obtain ns where
    ns: "distinct ns" "set ns \<subseteq> set ms" "length ns \<le> length ms" "map snd ?ms = map ?pay ns" by blast
  have "unat (con_received p) = length ns" using read(3) arg_cong [OF ns(4), of length] by simp
  moreover have "set ns \<subseteq> {1..prod_counter s}" using ns(2) accounted_numbers [OF ms(1)] by blast
  moreover have "length ns \<le> prod_sent s + prod_failed s + k"
    using ns(3) ms(1) pool by (simp add: accounted_def producer_ok_def)
  ultimately show ?thesis using ns(1,4) by blast
qed

lemma demo_start_ok:
  "\<lbrakk>ok w; published_to queue (commands w) = []\<rbrakk> \<Longrightarrow>
   demo_ok k {#} (producer_start k, consumer_start concurrency h w)"
  using shared_ok_start [of w h]
  by (simp add: demo_ok_def consumer_start_def counting_def all_received_def reports_true_start
      publisher.producing_def producer_ok_def producer_start_def accounted_def unsettled_def)

lemmas demo_counted = counted_are_produced [OF demo_steps_ok [OF _ demo_start_ok]]

end

section \<open>A leader, a follower, and nobody else who publishes\<close>

definition quiet_write :: "string \<Rightarrow> queue_group \<Rightarrow> queue_group \<Rightarrow> bool" where
  "quiet_write q g g' \<longleftrightarrow> (\<exists>req r. published_to q [req] = [] \<and> group_write True req g = (r, g'))"

lemma popping_stream_env:
  assumes "popping_stream mpsc capacity queued connected checks ok api commands env"
    and "\<And>w w'. env' w w' \<Longrightarrow> env w w'"
  shows "popping_stream mpsc capacity queued connected checks ok api commands env'"
  using assms unfolding popping_stream_def popping_stream_axioms_def by blast

lemma duo_quiet:
  assumes "leads_group True g" "worker_pop (duo_node n) self q (h, g) = (r, h', g')"
  shows "published_to p (group_commands g') = published_to p (group_commands g)"
proof (cases "n = 1")
  case True
  with leader_iteration [OF assms(1)] assms(2) show ?thesis by (simp add: duo_node_def published_to_append)
next
  case False
  with assms(2) have "g' = g \<or> (\<exists>ms q' h1 y. fetch_next ms q' (h1, g) = (y, h', g'))"
    by (auto simp: duo_node_def fetch_api_def worker_pop_def pop_via_forward_def
        split: prod.splits outcome.splits sum.splits option.splits)
  then show ?thesis
  proof
    assume "\<exists>ms q' h1 y. fetch_next ms q' (h1, g) = (y, h', g')"
    then obtain q' where "group_commands g' = group_commands g @ [Pop q']"
      using fetch_next_pops [OF assms(1)] by blast
    then show ?thesis by (simp add: published_to_append)
  qed simp
qed

interpretation duo_demo: demo_system lc_api lc_capacity lc_queue lc_connected True "leads_group True"
  duo_node 1 group_commands "quiet_write queue" follower_api client queue
  for client queue
proof -
  have "popping_stream lc_api lc_capacity lc_queue lc_connected True (leads_group True) (duo_node n)
      group_commands (quiet_write queue)" for n
    by (rule popping_stream_env [OF duo.every_node]) (auto simp: quiet_write_def other_write_def)
  then have cluster: "stream_cluster lc_api lc_capacity lc_queue lc_connected True (leads_group True)
      duo_node 1 group_commands (quiet_write queue)"
    by (intro stream_cluster.intro stream_cluster_axioms.intro)
  have publisher: "publishing_client follower_api client queue (\<lambda>_ _. False) (leads_group True) group_commands"
    by (rule publishing_client.intro) (blast dest: pub.published_commits, blast dest: pub.failed_at_most, simp)
  have "demo_system_axioms (leads_group True) duo_node group_commands (quiet_write queue) queue"
    by (rule demo_system_axioms.intro)
       (auto simp: duo_quiet quiet_write_def published_to_append dest: leading_write(2))
  with cluster publisher show "demo_system lc_api lc_capacity lc_queue lc_connected True (leads_group True)
      duo_node 1 group_commands (quiet_write queue) follower_api client queue"
    by (rule demo_system.intro)
qed

lemma producer_alone:
  assumes "(producer_step api client queue (\<lambda>_ _. False))\<^sup>*\<^sup>* (s, h, w) (s', h', w')"
    and "h = cs_caches (con_cluster p)" "w = cs_world (con_cluster p)"
  shows "(demo_step mpsc node impl env target api client queue)\<^sup>*\<^sup>* (s, p)
    (s', p\<lparr>con_cluster := (con_cluster p)\<lparr>cs_caches := h', cs_world := w'\<rparr>\<rparr>)"
  using assms
proof (induction "(s', h', w')" arbitrary: s' h' w' rule: rtranclp_induct)
  case base
  then show ?case by simp
next
  case (step y)
  obtain t g v where y: "y = (t, g, v)" by (metis prod_cases3)
  let ?p = "p\<lparr>con_cluster := (con_cluster p)\<lparr>cs_caches := g, cs_world := v\<rparr>\<rparr>"
  have "(demo_step mpsc node impl env target api client queue)\<^sup>*\<^sup>* (s, p) (t, ?p)"
    using step.hyps(3) [OF y] step.prems by simp
  moreover have "demo_step mpsc node impl env target api client queue (t, ?p)
      (s', p\<lparr>con_cluster := (con_cluster p)\<lparr>cs_caches := h', cs_world := w'\<rparr>\<rparr>)"
    using producer_moves [of "con_cluster ?p" ?p api client queue t s' h' w'] step.hyps(2) y by simp
  ultimately show ?case by (rule rtranclp.rtrancl_into_rtrancl)
qed

lemma consumer_alone:
  "(consumer_step mpsc node impl env target queue)\<^sup>*\<^sup>* p p' \<Longrightarrow>
   (demo_step mpsc node impl env target api client queue)\<^sup>*\<^sup>* (s, p) (s, p')"
  by (induction rule: rtranclp_induct) (auto intro: rtranclp.rtrancl_into_rtrancl consumer_moves)

text \<open>
  One message from the producer on the follower to the consumer on the leader, which has counted
  it before the producer's task has.
\<close>

lemma one_through_the_demo:
  fixes client p g env step
  defines "client \<equiv> \<lparr>inner = ''http://127.0.0.1:5002''\<rparr>" and "p \<equiv> into_bytes (producer_payload 1)"
    and "g \<equiv> group_new 1 (Some 1)" and "env \<equiv> quiet_write ''q''"
    and "step \<equiv> demo_step lc_api duo_node duo_impl env 1 follower_api client ''q''"
  obtains s r where "step\<^sup>*\<^sup>* (producer_start 200, consumer_start 8 no_channels g) (s, r)"
    "prod_counter s = 1" "prod_sent s = 0" "con_received r = 1" "length (group_commands (cs_world (con_cluster r))) = 2"
proof -
  have new: "grp_leader g = Some (grp_id g)" "grp_heap g (sm_state (grp_machine g)) = mutex_new QueueState_default"
    by (simp_all add: group_new_def g_def)
  obtain g1 where g1: "group_write True (Publish ''q'' p) g = (Inr \<lparr>published_offset = Some 0, popped = None\<rparr>, g1)"
    "grp_leader g1 = Some (grp_id g1)"
    "grp_heap g1 (sm_state (grp_machine g1)) =
      mutex_new \<lparr>queues = fmupd ''q'' [(0, p)] fmempty, next_offset = fmupd ''q'' 1 fmempty\<rparr>"
    "group_commands g1 = group_commands g @ [Publish ''q'' p]"
    by (rule leading_value [OF new, of True "Publish ''q'' p"])
       (auto simp: QueueState_default_eq or_insert_def add_u64_def Let_def)
  obtain g2 where g2: "group_write True (Pop ''q'') g1 = (Inr \<lparr>published_offset = None, popped = Some (0, p)\<rparr>, g2)"
    "group_commands g2 = group_commands g1 @ [Pop ''q'']"
    by (rule leading_value [OF g1(2,3), of True "Pop ''q''"]) auto
  have "MqClient_publish follower_api client ''q'' p (no_channels, g) = (Inr 0, no_channels, g1)"
    using publish_accepted [of leader_api "''q''" p g _ g1 "svc ''node-1''" no_channels] g1(1)
    by (simp add: MqClient_publish_def follower_api_def answered_def)
  note produced = one_in_flight [OF this [unfolded p_def], of "\<lambda>_ _. False"]
  have "worker_pop (duo_node 1) (duo_impl 1) ''q'' (no_channels, g1) = (Returned (Sending (0, p)), no_channels, g2)"
    using leader_pop [OF g2(1)] by (simp add: duo_node_def duo_impl_def after_pop_def)
  note consumed = consumer_alone [OF reader_run [OF this, of env]]
  let ?s = first_in_flight
  let ?r = "reader (one_sent no_channels g2 (0, p) [] [response (0, p)]) 1"
  have "step\<^sup>*\<^sup>* (producer_start 200, consumer_start 8 no_channels g) (?s, consumer_start 8 no_channels g1)"
    using producer_alone [OF produced, of "consumer_start 8 no_channels g"] by (simp add: consumer_start_def step_def)
  moreover have "step\<^sup>*\<^sup>* (?s, consumer_start 8 no_channels g1) (?s, ?r)" using consumed by (simp add: step_def)
  ultimately have "step\<^sup>*\<^sup>* (producer_start 200, consumer_start 8 no_channels g) (?s, ?r)" by (rule rtranclp_trans)
  then show thesis
    by (rule that)
       (use g1(4) g2(2) in \<open>simp_all add: reader_def group_commands_new g_def producer_start_def\<close>)
qed

section \<open>Property\<close>

text \<open>
  C7: the demo scenario delivers each message at most once. The producer and the consumer run
  against any nodes of one cluster, in any interleaving with each other, with the workers of
  every stream and with other clients that do not publish to the queue, through failed, late
  and uncounted publishes and lost streams. What the consumer has counted are messages of the
  producer under pairwise different numbers, none above the producer's counter; its counter is
  exactly their number. The consumer may be ahead of what the producer has counted as sent or
  failed, by no more than the producer's permits.
\<close>

theorem demo_delivers_once:
  assumes "demo_system mpsc capacity queued connected checks ok node home commands env api client queue"
    and "producer_main api vars = Returned (Inr (client, queue, period, s0))"
    and "(demo_step mpsc node impl env target api client queue)\<^sup>*\<^sup>* (s0, consumer_start concurrency h w) (s, p)"
    and "ok w" and "published_to queue (commands w) = []"
    and "length (commands (cs_world (con_cluster p))) < 2 ^ 64"
  shows "\<exists>ns. distinct ns \<and> set ns \<subseteq> {1..prod_counter s} \<and> length ns \<le> prod_sent s + prod_failed s + prod_permits s0
    \<and> map snd (consume_items (all_received queue (con_cluster p))) = map (\<lambda>n. into_bytes (producer_payload n)) ns
    \<and> unat (con_received p) = length ns"
proof -
  from assms(2) obtain k where k: "s0 = producer_start k"
    by (auto simp: producer_main_def split: sum.splits elim!: bind_Returned)
  then have "prod_permits s0 = k" by (simp add: producer_start_def)
  with demo_system.demo_counted [OF assms(1) assms(3) [unfolded k] assms(4-6)] show ?thesis by simp
qed

theorem demo_delivers_once_witness:
  "\<exists>s p. (demo_step lc_api duo_node duo_impl (quiet_write ''q'') 1 follower_api \<lparr>inner = ''http://127.0.0.1:5002''\<rparr> ''q'')\<^sup>*\<^sup>*
       (producer_start 200, consumer_start 8 no_channels (group_new 1 (Some 1))) (s, p)
     \<and> prod_sent s = 0 \<and> con_received p = 1
     \<and> map snd (consume_items (all_received ''q'' (con_cluster p))) = [into_bytes (producer_payload 1)]"
proof -
  let ?c = "\<lparr>inner = ''http://127.0.0.1:5002''\<rparr>" and ?g = "group_new 1 (Some 1)"
  let ?vars = "\<lambda>name. if name = ''MQ_QUEUE'' then Inr ''q'' else Inl NotPresent"
  obtain s r where run: "(demo_step lc_api duo_node duo_impl (quiet_write ''q'') 1 follower_api ?c ''q'')\<^sup>*\<^sup>*
      (producer_start 200, consumer_start 8 no_channels ?g) (s, r)"
    and r: "prod_counter s = 1" "prod_sent s = 0" "con_received r = 1" "length (group_commands (cs_world (con_cluster r))) = 2"
    by (rule one_through_the_demo)
  have main: "producer_main follower_api ?vars = Returned (Inr (?c, ''q'', 1000000, producer_start 200))"
    by (simp add: producer_main_def producer_read_config_def env_number_def env_or_def parse_u64_def to_digit_def
        MqClient_connect_def follower_api_def producer_semaphore_def producer_ticker_def producer_period_def)
  have lead: "leads_group True ?g" using group_new_ok by (simp add: leads_group_def group_new_def)
  have none: "published_to ''q'' (group_commands ?g) = []" by (simp add: group_commands_new)
  have short: "length (group_commands (cs_world (con_cluster r))) < 2 ^ 64" by (simp add: r(4))
  from demo_delivers_once [OF duo_demo.demo_system_axioms main run lead none short] obtain ns where
    ns: "set ns \<subseteq> {1..1}" "unat (con_received r) = length ns"
    "map snd (consume_items (all_received ''q'' (con_cluster r))) = map (\<lambda>n. into_bytes (producer_payload n)) ns"
    unfolding r(1) by blast
  from ns(2) r(3) obtain n where "ns = [n]" by (cases ns) auto
  with ns(1,3) r(2,3) run show ?thesis by (intro exI [of _ s] exI [of _ r]) auto
qed

end
