(* ===== verification/Bench.thy ===== *)
theory Bench
  imports Mq_Client "HOL-Library.Multiset"
begin

text \<open>
  The throughput probe \<open>demo/bench\<close>: its configuration, how it splits the publishes over
  tasks, the tasks as an interleaving step relation and what \<open>main\<close> reports when it has
  joined them. A \<open>usize\<close> is a natural number here; no product exceeds the count it is made
  from. Timing and printing are left out.
\<close>

section \<open>Configuration\<close>

record bench_config =
  bench_addr :: string
  bench_queue :: string
  bench_count :: nat
  bench_concurrency :: nat

definition bench_read_config :: "environment \<Rightarrow> (IntErrorKind, bench_config) result" where
  "bench_read_config env =
     (case env_number env ''MQ_COUNT'' ''500'' of
        Inl e \<Rightarrow> Inl e
      | Inr amount \<Rightarrow>
          (case env_number env ''MQ_CONCURRENCY'' ''1'' of
             Inl e \<Rightarrow> Inl e
           | Inr concurrency \<Rightarrow> Inr
               \<lparr>bench_addr = env_or env ''MQ_NODE_ADDR'' ''http://127.0.0.1:5002'',
                bench_queue = env_or env ''MQ_QUEUE'' ''bench'',
                bench_count = amount, bench_concurrency = concurrency\<rparr>))"

section \<open>How the work is split\<close>

definition bench_per_task :: "nat \<Rightarrow> nat \<Rightarrow> nat outcome" where
  "bench_per_task amount concurrency =
     (if concurrency = 0 then Panicked DivisionByZero else Returned (amount div concurrency))"

definition bench_payload :: "nat \<Rightarrow> nat \<Rightarrow> string" where
  "bench_payload task_id i = ''bench-'' @ show_nat task_id @ ''-'' @ show_nat i"

text \<open>Every payload that is published when no publish fails, task by task.\<close>

definition bench_payloads :: "nat \<Rightarrow> nat \<Rightarrow> string list outcome" where
  "bench_payloads amount concurrency =
     bind_outcome (bench_per_task amount concurrency)
       (\<lambda>per_task. Returned
          (concat (map (\<lambda>task_id. map (bench_payload task_id) [0..<per_task]) [0..<concurrency])))"

definition bench_sent :: "nat \<Rightarrow> nat \<Rightarrow> nat outcome" where
  "bench_sent amount concurrency =
     bind_outcome (bench_per_task amount concurrency) (\<lambda>per_task. Returned (per_task * concurrency))"

section \<open>The tasks\<close>

text \<open>
  A task is about to publish its \<open>i\<close>th message, or has ended, or an \<open>expect\<close> has panicked in
  it.
\<close>

datatype bench_task = Running nat | Finished | TaskPanicked panic

definition bench_spawn :: "('ch, 's, 'w) mq_api \<Rightarrow> string \<Rightarrow> nat \<Rightarrow> bench_task list" where
  "bench_spawn api address concurrency =
     replicate concurrency
       (case expect ''connect'' (MqClient_connect api address) of
          Panicked p \<Rightarrow> TaskPanicked p
        | Returned client \<Rightarrow> Running 0)"

text \<open>\<open>others\<close> is what the rest of the cluster does in between.\<close>

inductive bench_step ::
  "('ch, 's, 'w) mq_api \<Rightarrow> 'ch MqClient \<Rightarrow> string \<Rightarrow> nat \<Rightarrow> ('ch channel_heap \<times> 'w \<Rightarrow> 'ch channel_heap \<times> 'w \<Rightarrow> bool)
     \<Rightarrow> bench_task list \<times> 'ch channel_heap \<times> 'w \<Rightarrow> bench_task list \<times> 'ch channel_heap \<times> 'w \<Rightarrow> bool"
  for api client queue per_task others where
  publishes:
    "\<lbrakk>t < length ts; ts ! t = Running i; i < per_task;
      MqClient_publish api client queue (into_bytes (bench_payload t i)) hw = (Inr offset, hw')\<rbrakk> \<Longrightarrow>
     bench_step api client queue per_task others (ts, hw) (ts[t := Running (Suc i)], hw')"
| panics:
    "\<lbrakk>t < length ts; ts ! t = Running i; i < per_task;
      MqClient_publish api client queue (into_bytes (bench_payload t i)) hw = (Inl e, hw')\<rbrakk> \<Longrightarrow>
     bench_step api client queue per_task others (ts, hw)
       (ts[t := TaskPanicked (ExpectFailed ''publish'')], hw')"
| finishes:
    "\<lbrakk>t < length ts; ts ! t = Running per_task\<rbrakk> \<Longrightarrow>
     bench_step api client queue per_task others (ts, hw) (ts[t := Finished], hw)"
| others_act: "others hw hw' \<Longrightarrow> bench_step api client queue per_task others (ts, hw) (ts, hw')"

text \<open>Joining the handles in order: \<open>None\<close> while one that is waited for still runs.\<close>

fun bench_join :: "bench_task list \<Rightarrow> (panic, unit) result option" where
  "bench_join [] = Some (Inr ())"
| "bench_join (Finished # ts) = bench_join ts"
| "bench_join (TaskPanicked p # ts) = Some (Inl p)"
| "bench_join (Running i # ts) = None"

section \<open>Lemmas\<close>

lemma bench_payload_inj: "bench_payload t i = bench_payload u j \<Longrightarrow> t = u \<and> i = j"
proof -
  assume eq: "bench_payload t i = bench_payload u j"
  have dash: "CHR ''-'' \<notin> set (show_nat k)" for k
    using show_nat_digits [of "CHR ''-''" k] signs_no_digits by auto
  from eq have "split_once CHR ''-'' (show_nat t @ CHR ''-'' # show_nat i) =
      split_once CHR ''-'' (show_nat u @ CHR ''-'' # show_nat j)"
    by (simp add: bench_payload_def)
  then have "show_nat t = show_nat u \<and> show_nat i = show_nat j"
    by (simp add: split_once_found dash)
  then show ?thesis using show_nat_inj by blast
qed

lemma distinct_grid: "inj_on (\<lambda>(a, b). f a b) UNIV \<Longrightarrow> distinct (concat (map (\<lambda>a. map (f a) [0..<n]) [0..<m]))"
proof (induction m)
  case (Suc m)
  have "inj_on (f m) {0..<n}" using Suc.prems by (auto simp: inj_on_def)
  moreover have "(\<Union>a\<in>{0..<m}. f a ` {0..<n}) \<inter> f m ` {0..<n} = {}"
    using Suc.prems by (fastforce simp: inj_on_def)
  ultimately show ?case using Suc by (simp add: distinct_map)
qed simp

lemma grid_length: "length (concat (map (\<lambda>a. map (f a) [0..<n]) [0..<m])) = n * m"
  by (induction m) simp_all

text \<open>The tasks between each other and with the rest of the cluster.\<close>

context publishing_client
begin

fun progress :: "nat \<Rightarrow> bench_task \<Rightarrow> nat" where
  "progress per_task (Running i) = i"
| "progress per_task Finished = per_task"
| "progress per_task (TaskPanicked p) = 0"

definition sent_by :: "nat \<Rightarrow> nat \<Rightarrow> bench_task \<Rightarrow> bytes multiset" where
  "sent_by per_task t x = mset (map (\<lambda>i. into_bytes (bench_payload t i)) [0..<progress per_task x])"

definition bench_ok :: "nat \<Rightarrow> nat \<Rightarrow> bytes multiset \<Rightarrow> bench_task list \<times> 'ch channel_heap \<times> 'w \<Rightarrow> bool" where
  "bench_ok tasks per_task before s = (case s of (ts, h, w) \<Rightarrow>
     ok w \<and> length ts = tasks \<and>
     ((\<forall>p. TaskPanicked p \<notin> set ts) \<longrightarrow>
       mset (published_to queue (commands w)) = before + (\<Sum>t<tasks. sent_by per_task t (ts ! t))))"

lemma sent_update:
  assumes "t < n" "length ts = n"
  shows "(\<Sum>u<n. sent_by per_task u (ts[t := x] ! u)) + sent_by per_task t (ts ! t) =
    (\<Sum>u<n. sent_by per_task u (ts ! u)) + sent_by per_task t x"
proof -
  have t: "t \<in> {..<n}" using assms(1) by simp
  have "(\<Sum>u\<in>{..<n} - {t}. sent_by per_task u (ts[t := x] ! u)) = (\<Sum>u\<in>{..<n} - {t}. sent_by per_task u (ts ! u))"
    by (rule sum.cong) auto
  then show ?thesis
    using assms by (simp add: sum.remove [OF _ t] ac_simps)
qed

lemma still_fine:
  "\<lbrakk>\<forall>p. TaskPanicked p \<notin> set (ts[t := x]); t < length ts; ts ! t = Running i\<rbrakk> \<Longrightarrow> \<forall>p. TaskPanicked p \<notin> set ts"
  by (metis bench_task.distinct(3) in_set_conv_nth length_list_update nth_list_update_neq nth_mem)

lemma step_bench_ok:
  "\<lbrakk>bench_step api client queue per_task others s s'; bench_ok tasks per_task before s\<rbrakk> \<Longrightarrow>
   bench_ok tasks per_task before s'"
proof (induction rule: bench_step.induct)
  case (publishes t ts i hw offset hw')
  obtain h w h' w' where hw: "hw = (h, w)" "hw' = (h', w')" by (metis surj_pair)
  have c: "ok w'" "commands w' = commands w @ [Publish queue (into_bytes (bench_payload t i))]"
    using published_commits publishes hw by (auto simp: bench_ok_def)
  show ?case
    using publishes sent_update [of t tasks ts per_task "Running (Suc i)"] still_fine [of ts t "Running (Suc i)" i] c hw
    by (auto simp: bench_ok_def sent_by_def published_to_append)
next
  case (panics t ts i hw e hw')
  obtain h w h' w' where hw: "hw = (h, w)" "hw' = (h', w')" by (metis surj_pair)
  have "TaskPanicked (ExpectFailed ''publish'') \<in> set (ts[t := TaskPanicked (ExpectFailed ''publish'')])"
    using panics.hyps(1) by (simp add: set_update_memI)
  with failed_at_most panics hw show ?case by (auto simp: bench_ok_def)
next
  case (finishes t ts hw)
  then show ?case
    using sent_update [of t tasks ts per_task Finished] still_fine [of ts t Finished per_task]
    by (auto simp: bench_ok_def sent_by_def)
next
  case (others_act hw hw' ts)
  obtain h w h' w' where hw: "hw = (h, w)" "hw' = (h', w')" by (metis surj_pair)
  with others_act others_elsewhere [of w h h' w'] show ?case
    by (auto simp: bench_ok_def published_to_append)
qed

lemma steps_bench_ok:
  "\<lbrakk>(bench_step api client queue per_task others)\<^sup>*\<^sup>* s s'; bench_ok tasks per_task before s\<rbrakk> \<Longrightarrow>
   bench_ok tasks per_task before s'"
  by (induction rule: rtranclp_induct) (auto intro: step_bench_ok)

lemma joined: "bench_join ts = Some (Inr ()) \<Longrightarrow> ts = replicate (length ts) Finished"
  by (induction ts rule: bench_join.induct) auto

lemma grid_mset:
  "mset (concat (map (\<lambda>t. map (f t) [0..<n]) [0..<m])) = (\<Sum>t<m. mset (map (f t) [0..<n]))"
  by (induction m) (simp_all add: ac_simps)

lemma all_published:
  assumes "(bench_step api client queue per_task others)\<^sup>*\<^sup>* (replicate tasks (Running 0), h, w) (ts, h', w')" "ok w"
    and "bench_join ts = Some (Inr ())"
  shows "mset (published_to queue (commands w')) = mset (published_to queue (commands w)) +
    mset (map into_bytes (concat (map (\<lambda>t. map (bench_payload t) [0..<per_task]) [0..<tasks])))"
proof -
  have "(\<Sum>t<tasks. sent_by per_task t (replicate tasks (Running 0) ! t)) = {#}"
    by (rule sum.neutral) (simp add: sent_by_def)
  with assms(2) have "bench_ok tasks per_task (mset (published_to queue (commands w))) (replicate tasks (Running 0), h, w)"
    by (simp add: bench_ok_def)
  from steps_bench_ok [OF assms(1) this] joined [OF assms(3)]
  have "mset (published_to queue (commands w')) = mset (published_to queue (commands w)) +
      (\<Sum>t<tasks. sent_by per_task t (replicate tasks Finished ! t))"
    by (auto simp: bench_ok_def in_set_replicate dest: arg_cong [where f = set])
  also have "(\<Sum>t<tasks. sent_by per_task t (replicate tasks Finished ! t)) =
      (\<Sum>t<tasks. mset (map (\<lambda>i. into_bytes (bench_payload t i)) [0..<per_task]))"
    by (rule sum.cong) (simp_all add: sent_by_def)
  finally show ?thesis by (simp only: map_concat map_map comp_def grid_mset)
qed

end

section \<open>Properties\<close>

text \<open>
  The program publishes the count rounded down to a multiple of the number of tasks, with
  pairwise different payloads, and reports just that number; with no tasks it panics on the
  division before it starts any.
\<close>

theorem bench_rounds_down:
  "case bench_payloads amount tasks of
     Returned ps \<Rightarrow> 0 < tasks \<and> distinct ps \<and> length ps = amount - amount mod tasks
       \<and> bench_sent amount tasks = Returned (length ps)
   | Panicked p \<Rightarrow> tasks = 0 \<and> p = DivisionByZero \<and> bench_sent amount tasks = Panicked DivisionByZero"
proof (cases "tasks = 0")
  case False
  have "inj_on (\<lambda>(t, i). bench_payload t i) UNIV"
    using bench_payload_inj by (auto simp: inj_on_def)
  from distinct_grid [OF this] False show ?thesis
    by (simp add: bench_payloads_def bench_sent_def bench_per_task_def grid_length minus_mod_eq_div_mult)
qed (simp add: bench_payloads_def bench_sent_def bench_per_task_def)

text \<open>
  C38: what the probe reports is what it did. When \<open>main\<close> has joined all tasks without an
  error, in whatever order they ran, exactly the payloads of the grid have been added to the
  queue, each once; their number is the count rounded down to a multiple of the number of
  tasks, which is what \<open>main\<close> prints as sent.
\<close>

theorem bench_publishes_its_payloads:
  assumes "publishing_client api client queue others ok commands"
    and "MqClient_connect api address = Inr client" and "bench_per_task amount tasks = Returned per_task"
    and "(bench_step api client queue per_task others)\<^sup>*\<^sup>* (bench_spawn api address tasks, h, w) (ts, h', w')"
    and "ok w" and "bench_join ts = Some (Inr ())"
  shows "\<exists>ps. bench_payloads amount tasks = Returned ps \<and> distinct ps
    \<and> mset (published_to queue (commands w')) =
        mset (published_to queue (commands w)) + mset (map into_bytes ps)
    \<and> length ps = amount - amount mod tasks \<and> bench_sent amount tasks = Returned (length ps)"
proof -
  let ?ps = "concat (map (\<lambda>t. map (bench_payload t) [0..<per_task]) [0..<tasks])"
  have "bench_spawn api address tasks = replicate tasks (Running 0)"
    using assms(2) by (simp add: bench_spawn_def)
  then have "mset (published_to queue (commands w')) = mset (published_to queue (commands w)) + mset (map into_bytes ?ps)"
    using publishing_client.all_published [OF assms(1) _ assms(5,6)] assms(4) by simp
  moreover have "inj_on (\<lambda>(t, i). bench_payload t i) UNIV"
    using bench_payload_inj by (auto simp: inj_on_def)
  from distinct_grid [OF this] have "distinct ?ps" .
  moreover have "tasks \<noteq> 0" "per_task = amount div tasks"
    using assms(3) by (auto simp: bench_per_task_def split: if_splits)
  ultimately show ?thesis
    using assms(3)
    by (intro exI [of _ ?ps]) (simp add: bench_payloads_def bench_sent_def grid_length minus_mod_eq_div_mult)
qed

theorem bench_publishes_its_payloads_witness:
  "\<exists>ts g. (bench_step follower_api \<lparr>inner = ''a''\<rparr> ''q'' 1 (writes_elsewhere ''q''))\<^sup>*\<^sup>*
      (bench_spawn follower_api ''a'' 1, no_channels, group_new 1 (Some 1)) (ts, no_channels, g)
    \<and> mset (published_to ''q'' (group_commands g)) = {#into_bytes (bench_payload 0 0)#}"
proof -
  let ?g = "group_new 1 (Some 1)" and ?p = "into_bytes (bench_payload 0 0)"
  let ?step = "bench_step follower_api \<lparr>inner = ''a''\<rparr> ''q'' 1 (writes_elsewhere ''q'')"
  obtain offset g where pub: "MqClient_publish follower_api \<lparr>inner = ''a''\<rparr> ''q'' ?p (no_channels, ?g) = (Inr offset, no_channels, g)"
    by (rule first_publish)
  have step1: "?step ([Running 0], no_channels, ?g) ([Running 1], no_channels, g)"
    using publishes [of 0 "[Running 0]" 0 1 follower_api "\<lparr>inner = ''a''\<rparr>" "''q''" "(no_channels, ?g)" offset
        "(no_channels, g)" "writes_elsewhere ''q''"] pub by simp
  have step2: "?step ([Running 1], no_channels, g) ([Finished], no_channels, g)"
    using finishes [of 0 "[Running 1]" 1 follower_api "\<lparr>inner = ''a''\<rparr>" "''q''" "writes_elsewhere ''q''" "(no_channels, g)"]
    by simp
  have connect: "MqClient_connect follower_api ''a'' = Inr \<lparr>inner = ''a''\<rparr>"
    by (simp add: MqClient_connect_def follower_api_def)
  then have spawn: "bench_spawn follower_api ''a'' 1 = [Running 0]" by (simp add: bench_spawn_def)
  have run: "?step\<^sup>*\<^sup>* (bench_spawn follower_api ''a'' 1, no_channels, ?g) ([Finished], no_channels, g)"
    unfolding spawn using step1 step2 by (rule two_steps)
  have "leads_group True ?g" using group_new_ok by (simp add: leads_group_def group_new_def)
  moreover have "bench_per_task 1 1 = Returned 1" by (simp add: bench_per_task_def)
  ultimately show ?thesis
    using bench_publishes_its_payloads [OF pub.publishing_client_axioms connect _ run] run
    by (auto simp: bench_payloads_def bench_per_task_def group_commands_new)
qed

end
