(* ===== verification/Stream_Progress.thy ===== *)
theory Stream_Progress
  imports Consume
begin

text \<open>
  A consume stream is never stuck with a message: from every state it can be in while its
  client is connected, the workers' sends and the client's receives alone lead to a state in
  which the client has received everything that was popped.
\<close>

section \<open>Delivering what is on the way\<close>


section \<open>Properties\<close>



end
