(* ===== verification/Queue_Wf.thy ===== *)
theory Queue_Wf
  imports Queue_Sm
begin

text \<open>
  The well-formedness of the queue state: every queue has a counter, and its messages carry
  consecutive offsets that end just below it, counted modulo \<open>2 ^ 64\<close>. No bound on the
  number of commands is needed, and a command that panics keeps it too.
\<close>

section \<open>Well-formed states\<close>

text \<open>The \<open>n\<close> offsets just below a counter, in order.\<close>

definition offsets_below :: "u64 \<Rightarrow> nat \<Rightarrow> u64 list" where
  "offsets_below c n = map (\<lambda>i. c - of_nat n + of_nat i) [0..<n]"

definition queue_wf :: "QueueState \<Rightarrow> bool" where
  "queue_wf s \<longleftrightarrow> (\<forall>q ms. fmlookup (queues s) q = Some ms \<longrightarrow>
     (\<exists>c. fmlookup (next_offset s) q = Some c \<and> map fst ms = offsets_below c (length ms)))"

lemma offsets_below_snoc: "offsets_below (c + 1) (Suc n) = offsets_below c n @ [c]"
  by (auto simp: offsets_below_def)

lemma offsets_below_Cons: "offsets_below c (Suc n) = (c - of_nat n - 1) # offsets_below c n"
  by (simp add: offsets_below_def upt_conv_Cons map_Suc_upt [symmetric] del: upt_Suc)

lemma offsets_below_distinct: "n \<le> 2 ^ 64 \<Longrightarrow> distinct (offsets_below c n)"
  by (auto simp: offsets_below_def distinct_map inj_on_def of_nat_u64_inj)

lemma queue_wfE:
  assumes "queue_wf s" "fmlookup (queues s) q = Some ms"
  obtains c where "fmlookup (next_offset s) q = Some c" "map fst ms = offsets_below c (length ms)"
  using assms by (auto simp: queue_wf_def)

lemma queue_wf_default: "queue_wf QueueState_default"
  by (simp add: queue_wf_def QueueState_default_eq)

lemma queue_wf_get:
  "queue_wf s \<Longrightarrow>
   map fst (get_or (queues s) q []) = offsets_below (get_or (next_offset s) q 0) (length (get_or (queues s) q []))"
  by (cases "fmlookup (queues s) q") (auto simp: get_or_simps offsets_below_def [of _ 0] elim: queue_wfE)

lemma queue_wf_publish:
  assumes "queue_wf s"
  shows "queue_wf (s\<lparr>next_offset := fmupd q (get_or (next_offset s) q 0 + 1) (next_offset s),
    queues := fmupd q (get_or (queues s) q [] @ [(get_or (next_offset s) q 0, p)]) (queues s)\<rparr>)"
  using assms queue_wf_get [OF assms, of q] by (auto simp: queue_wf_def offsets_below_snoc)

lemma queue_wf_pop:
  assumes "queue_wf s" "get_or (queues s) q [] = m # ms"
  shows "queue_wf (s\<lparr>queues := fmupd q ms (queues s)\<rparr>)"
proof -
  have "fmlookup (queues s) q = Some (m # ms)"
    using assms(2) by (auto simp: get_or_def split: option.splits)
  with assms(1) obtain c where "fmlookup (next_offset s) q = Some c" "map fst ms = offsets_below c (length ms)"
    by (auto elim!: queue_wfE simp: offsets_below_Cons)
  with assms(1) show ?thesis by (auto simp: queue_wf_def)
qed

lemma queue_wf_apply: "queue_wf s \<Longrightarrow> queue_wf (snd (QueueState_apply checks s r))"
proof (cases r)
  case (Publish q p)
  assume "queue_wf s"
  then show ?thesis unfolding Publish
    using queue_wf_publish [of s q p]
    by (cases "checks \<and> get_or (next_offset s) q 0 = u64_max")
       (simp_all add: QueueState_apply_branches del: QueueState_apply.simps)
next
  case (Pop q)
  assume "queue_wf s"
  then show ?thesis unfolding Pop
    using queue_wf_pop [of s q]
    by (cases "get_or (queues s) q []") (simp_all add: QueueState_apply_branches del: QueueState_apply.simps)
qed

section \<open>Nodes\<close>

definition node_value :: "('lid, 'mem) sm_node \<Rightarrow> QueueState" where
  "node_value n = guarded (node_heap n (sm_state (node_machine n)))"

lemma with_lock_reads: "with_lock h a (\<lambda>v. (Returned (f v), v)) = (r, h') \<Longrightarrow> h' = h"
  by (auto simp: with_lock_def mutex_new_guarded fun_upd_idem split: if_splits)

lemma build_reads: "build_snapshot json now h b = (r, h', b') \<Longrightarrow> h' = h"
  by (auto simp: build_snapshot_def Let_def split: prod.splits outcome.splits dest!: with_lock_reads)

lemma install_value:
  assumes "install_snapshot json h m mt data = (r, h', m')"
  shows "sm_state m' = sm_state m \<and>
    (h' = h \<or> (\<exists>v. queue_decode json data = Inr v \<and> guarded (h' (sm_state m)) = v))"
  using assms
  by (cases "from_slice json data")
     (auto simp: install_snapshot_def queue_decode_def with_lock_def split: if_splits prod.splits outcome.splits)

lemma step_keeps_wf:
  assumes "sm_step checks json n ev n'" "queue_wf (node_value n)"
    and "\<And>mt data v. \<lbrakk>ev = Installed mt data; queue_decode json data = Inr v\<rbrakk> \<Longrightarrow> queue_wf v"
  shows "queue_wf (node_value n')"
proof (cases ev)
  case (Applied es)
  with assms(1) obtain r h m where a: "sm_apply checks (node_heap n) (node_machine n) es = (r, h, m)"
    "n' = n\<lparr>node_heap := h, node_machine := m\<rparr>" by blast
  from queue_sm.loop_invariant [where P = queue_wf, OF queue_wf_apply a(1) [unfolded sm_apply_def]]
    queue_sm.loop_cell [OF a(1) [unfolded sm_apply_def]] assms(2) a(2)
  show ?thesis by (simp add: node_value_def)
next
  case (Installed mt data)
  with assms(1) obtain r h m where i: "install_snapshot json (node_heap n) (node_machine n) mt data = (r, h, m)"
    "n' = n\<lparr>node_heap := h, node_machine := m\<rparr>" by blast
  from install_value [OF i(1)] assms(2,3) Installed i(2) show ?thesis by (auto simp: node_value_def)
qed (use assms in \<open>auto simp: node_value_def dest!: build_reads\<close>)

lemma run_keeps_wf:
  assumes "sm_run checks json n evs n'" "queue_wf (node_value n)"
    and "\<And>mt data v. \<lbrakk>Installed mt data \<in> set evs; queue_decode json data = Inr v\<rbrakk> \<Longrightarrow> queue_wf v"
  shows "queue_wf (node_value n')"
  using assms
proof (induction rule: sm_run.induct)
  case (run_snoc n evs n' ev n'')
  have "queue_wf (node_value n')"
    by (rule run_snoc.IH [OF run_snoc.prems(1)]) (use run_snoc.prems(2) in auto)
  then show ?case
    by (rule step_keeps_wf [OF run_snoc.hyps(2)]) (use run_snoc.prems(2) in auto)
qed

section \<open>Properties\<close>

text \<open>
  C5: a node's queue state is well-formed at all times. Whatever a node goes through
  (batches of entries, with or without overflow checks and whether they return or panic,
  builders taken and run, snapshots installed that hold well-formed states), every queue has
  its counter and its messages carry consecutive offsets ending just below the counter; with
  at most \<open>2 ^ 64\<close> messages they are pairwise different.
\<close>

theorem queue_state_stays_well_formed:
  assumes "sm_run checks json n evs n'" and "queue_wf (node_value n)"
    and "\<And>mt data v. \<lbrakk>Installed mt data \<in> set evs; queue_decode json data = Inr v\<rbrakk> \<Longrightarrow> queue_wf v"
  shows "queue_wf (node_value n') \<and>
    (length (get_or (queues (node_value n')) q []) \<le> 2 ^ 64 \<longrightarrow>
      distinct (map fst (get_or (queues (node_value n')) q [])))"
proof -
  have wf: "queue_wf (node_value n')" using assms by (rule run_keeps_wf)
  with queue_wf_get [OF wf, of q] offsets_below_distinct show ?thesis by simp
qed

theorem queue_state_stays_well_formed_witness:
  "\<exists>n'. sm_run True unary_codec
      \<lparr>node_heap = fresh_heap, node_machine = fresh_machine 0, node_builders = []\<rparr>
      [Applied [normal_at 1 (Publish ''q'' [7])]] n' \<and> queue_wf (node_value n')"
proof -
  let ?n = "\<lparr>node_heap = fresh_heap, node_machine = fresh_machine 0, node_builders = []\<rparr>"
  obtain r h m where "sm_apply True (node_heap ?n) (node_machine ?n) [normal_at 1 (Publish ''q'' [7])] = (r, h, m)"
    by (metis prod_cases3)
  from run_snoc [OF run_Nil step_apply [OF this], of unary_codec]
  obtain n' where run: "sm_run True unary_codec ?n [Applied [normal_at 1 (Publish ''q'' [7])]] n'" by auto
  have "queue_wf (node_value ?n)" by (simp add: node_value_def fresh_heap_def queue_wf_default)
  from queue_state_stays_well_formed [OF run this] run show ?thesis by auto
qed

end
