(* ===== verification/Build_Script.thy ===== *)
theory Build_Script
  imports Rust_Str
begin

text \<open>
  The two build scripts. \<open>Blun.Mq.Raft/build.rs\<close>: the protobuf generator is run and the file
  it wrote is cleaned of the crate-level lines that \<open>include!\<close> does not accept.
  \<open>Blun.Mq.Proto/build.rs\<close>: the generator is pointed at the vendored compiler and run. The
  generators and the file system are arguments that pass the outside world along.
\<close>

section \<open>Lines\<close>

abbreviation newline :: char where
  "newline \<equiv> CHR 0x0A"

text \<open>
  \<open>str::lines\<close>: a line ends at a newline, with the carriage return before it if there is
  one; an empty rest after the last newline is not a line.
\<close>

definition strip_cr :: "string \<Rightarrow> string" where
  "strip_cr l = (if l \<noteq> [] \<and> last l = CHR 0x0D then butlast l else l)"

definition str_lines :: "string \<Rightarrow> string list" where
  "str_lines s =
     (let parts = split_on newline s
      in map strip_cr (butlast parts) @ (if last parts = [] then [] else [last parts]))"

text \<open>\<open>[_]::join\<close> with a separator of one character.\<close>

fun join_lines :: "string list \<Rightarrow> string" where
  "join_lines [] = []"
| "join_lines [l] = l"
| "join_lines (l # ls) = l @ newline # join_lines ls"

section \<open>The script\<close>

definition crate_level :: "string \<Rightarrow> bool" where
  "crate_level line \<longleftrightarrow> prefix ''#!'' line \<or> prefix ''//!'' line"

definition cleaned :: "string \<Rightarrow> string" where
  "cleaned content = join_lines (filter (\<lambda>line. \<not> crate_level line) (str_lines content))"

text \<open>\<open>Path::join\<close> of a relative file name, on a Unix host.\<close>

definition path_join :: "string \<Rightarrow> string \<Rightarrow> string" where
  "path_join dir file = (if dir = [] \<or> last dir = CHR ''/'' then dir @ file else dir @ ''/'' @ file)"

record 'w build_api =
  codegen_run :: "string \<Rightarrow> 'w \<Rightarrow> (string, unit) result \<times> 'w"
  read_to_string :: "string \<Rightarrow> 'w \<Rightarrow> (string, string) result \<times> 'w"
  fs_write :: "string \<Rightarrow> string \<Rightarrow> 'w \<Rightarrow> (string, unit) result \<times> 'w"

definition build_main :: "'w build_api \<Rightarrow> environment \<Rightarrow> 'w \<Rightarrow> unit outcome \<times> 'w" where
  "build_main api env w =
     (case env ''OUT_DIR'' of
        Inl e \<Rightarrow> (Panicked UnwrapFailed, w)
      | Inr out_dir \<Rightarrow>
          (case codegen_run api out_dir w of
             (Inl e, w) \<Rightarrow>
               (Panicked (ExpectFailed ''protobuf codegen for the raft-engine entry envelope failed''), w)
           | (Inr u, w) \<Rightarrow>
               (let generated = path_join out_dir ''raft_log_entry.rs'' in
                case read_to_string api generated w of
                  (Inl e, w) \<Rightarrow> (Panicked (ExpectFailed ''read generated raft_log_entry.rs''), w)
                | (Inr content, w) \<Rightarrow>
                    (case fs_write api generated (cleaned content) w of
                       (Inl e, w) \<Rightarrow> (Panicked (ExpectFailed ''rewrite generated raft_log_entry.rs''), w)
                     | (Inr u, w) \<Rightarrow> (Returned (), w)))))"

text \<open>
  The script of the protocol crate. \<open>set_var\<close> changes the environment that the generator
  sees; an error of either call is the script's result.
\<close>

record 'w proto_build_api =
  protoc_bin_path :: "(string, string) result"
  set_var :: "string \<Rightarrow> string \<Rightarrow> 'w \<Rightarrow> 'w"
  compile_protos :: "string list \<Rightarrow> string list \<Rightarrow> 'w \<Rightarrow> (string, unit) result \<times> 'w"

definition proto_build_main :: "'w proto_build_api \<Rightarrow> 'w \<Rightarrow> (string, unit) result \<times> 'w" where
  "proto_build_main api w =
     (case protoc_bin_path api of
        Inl e \<Rightarrow> (Inl e, w)
      | Inr protoc \<Rightarrow>
          (case compile_protos api [''proto/mq.proto''] [''proto''] (set_var api ''PROTOC'' protoc w) of
             (Inl e, w) \<Rightarrow> (Inl e, w)
           | (Inr u, w) \<Rightarrow> (Inr (), w)))"

section \<open>Lemmas\<close>

lemma split_on_pieces: "l \<in> set (split_on c s) \<Longrightarrow> c \<notin> set l"
proof (induction s arbitrary: l)
  case (Cons x s)
  then show ?case by (cases "split_on c s") (auto split: if_splits)
qed simp

lemma strip_cr_subset: "set (strip_cr l) \<subseteq> set l"
  by (auto simp: strip_cr_def dest: in_set_butlastD)

lemma str_lines_no_newline: "l \<in> set (str_lines s) \<Longrightarrow> newline \<notin> set l"
  using split_on_pieces [of _ newline s] split_on_nonempty [of newline s] strip_cr_subset
  by (auto simp: str_lines_def Let_def dest!: in_set_butlastD split: if_splits)

lemma split_join_lines:
  "\<lbrakk>ls \<noteq> []; \<forall>l\<in>set ls. newline \<notin> set l\<rbrakk> \<Longrightarrow> split_on newline (join_lines ls) = ls"
  by (induction ls rule: join_lines.induct) (simp_all add: split_on_none split_on_append)

section \<open>Property\<close>

text \<open>
  The rewritten file has exactly the lines of the generated one that are not crate-level, in
  their order; so none of its lines begins with \<open>#!\<close> or \<open>//!\<close>, and no code is lost.
\<close>

theorem cleaned_keeps_the_code:
  defines "kept \<equiv> \<lambda>content. filter (\<lambda>line. \<not> crate_level line) (str_lines content)"
  shows "split_on newline (cleaned content) = (if kept content = [] then [[]] else kept content)
    \<and> (\<forall>line\<in>set (split_on newline (cleaned content)). \<not> crate_level line)"
proof -
  have lines: "split_on newline (cleaned content) = (if kept content = [] then [[]] else kept content)"
    using split_join_lines [of "kept content"] str_lines_no_newline [of _ content]
    by (simp add: cleaned_def kept_def)
  show ?thesis unfolding lines by (auto simp: kept_def crate_level_def split: if_splits)
qed

text \<open>
  The generator of the protocol crate only ever runs with the vendored compiler: if the
  script succeeds, then that compiler was found and the generator succeeded in an environment
  where \<open>PROTOC\<close> names it; a script that does not find it changes nothing.
\<close>

theorem protocol_build_uses_vendored_compiler:
  assumes "\<And>k v w. vars (set_var api k v w) = (vars w)(k \<mapsto> v)"
  shows "(fst (proto_build_main api w) = Inr ()) =
      (\<exists>protoc seen. protoc_bin_path api = Inr protoc \<and> vars seen ''PROTOC'' = Some protoc
        \<and> seen = set_var api ''PROTOC'' protoc w
        \<and> fst (compile_protos api [''proto/mq.proto''] [''proto''] seen) = Inr ())
    \<and> (\<forall>e. protoc_bin_path api = Inl e \<longrightarrow> proto_build_main api w = (Inl e, w))"
  using assms by (auto simp: proto_build_main_def split: sum.splits prod.splits)

theorem protocol_build_uses_vendored_compiler_witness:
  "fst (proto_build_main
     \<lparr>protoc_bin_path = Inr ''/opt/protoc'', set_var = \<lambda>k v w. w(k \<mapsto> v),
      compile_protos = \<lambda>ps is w. (if w ''PROTOC'' = None then Inl ''no compiler'' else Inr (), w)\<rparr> Map.empty) = Inr ()"
  using protocol_build_uses_vendored_compiler [where vars = id and w = Map.empty and
      api = "\<lparr>protoc_bin_path = Inr ''/opt/protoc'', set_var = \<lambda>k v w. w(k \<mapsto> v),
        compile_protos = \<lambda>ps is w. (if w ''PROTOC'' = None then Inl ''no compiler'' else Inr (), w)\<rparr>"]
  by simp

end
