(* ===== verification/Spec2Isabelle.thy ===== *)
theory Spec2Isabelle
  imports Log_Run Host_Start Status_Stream Cluster Demo_System Bench Stream_Progress Queue_Wf Build_Script
begin

text \<open>
  Blun.MQ: a message queue replicated by Raft, in Rust. This library models its own logic
  and proves what makes it correct; what the sources call but do not contain (openraft,
  raft-engine, serde, tonic, tokio) appears as arguments with stated contracts.

  \<^bold>\<open>The program.\<close> Every node runs two Raft groups, a directory of nodes and the queues, each
  with its own log store and state machine (\<open>Blun.Mq.Raft\<close>). The host (\<open>Blun.Mq.Host\<close>)
  serves a gRPC queue service, the Raft transport and an HTTP status page; a publish is a
  proposal to the queue group, forwarded to the leader by other nodes; a consume stream runs
  32 workers that propose pops and feed one bounded channel. \<open>Blun.Mq.Client\<close> is the client
  library; the demos produce, consume and measure.

  \<^bold>\<open>Theories and sources.\<close> Each definition carries the name of the Rust item, prefixed where
  two items share one.

  \<^item> \<open>Mq_Prelude\<close>: \<open>u64\<close> as 64-bit words with addition under an overflow-check flag
    (the dev profile panics, the release profile wraps), panics as values of \<open>outcome\<close>,
    \<open>Arc<Mutex<_>>\<close> as an address into a heap of mutexes with poisoning, the map entry API,
    the trait \<open>Default\<close> as the class \<open>default\<close>, runs of commands.
  \<^item> \<open>Raft_Types\<close>, \<open>Grpc_Types\<close>: what crosses the boundary to openraft and serde, and the
    messages of \<open>mq.proto\<close>. \<open>Rust_Str\<close>, \<open>Socket_Addr\<close>: the parts of \<open>str\<close>, integer
    and socket address parsing and printing in use, and the process environment.
  \<^item> \<open>Queue_State\<close> (\<open>types.rs\<close>, \<open>state_machine.rs\<close>): the queues and their commands, with
    an abstract specification, a published history and a read position per queue, that one
    command of the code refines. \<open>Queue_Wf\<close>: the well-formedness of a node's queues.
  \<^item> \<open>Replicated_Sm\<close>: the interface of a Raft state machine as locales (the apply loop;
    snapshots), with replay, batching, convergence and snapshot transfer proved once.
    \<open>Queue_Sm\<close> (\<open>state_machine.rs\<close>) and \<open>Node_Sm\<close> (\<open>node_state_machine.rs\<close>) model
    every trait method and interpret the locales. \<open>Queue_Sm\<close> also has the machine with its
    snapshot builders as a step relation.
  \<^item> \<open>Raft_Engine\<close>: raft-engine's contract as a locale, interpreted on an in-memory engine.
    \<open>Log_Store\<close> (\<open>raft_engine_log_store.rs\<close>): every method of the log store over it, and
    an abstract log that append, truncate, purge, vote and committed refine. \<open>Log_Run\<close>:
    whole runs of operations through the store and the readers cloned from it.
    \<open>Durable\<close>: log store and state machine together, a node that logs, applies, answers and
    restarts, as a locale; \<open>Restarts\<close> interprets it on the machines of both groups.
  \<^item> \<open>Raft_Rpc\<close> (\<open>network.rs\<close>, \<open>grpc_raft.rs\<close>): both sides of the three Raft calls and
    the dispatch between the two groups.
  \<^item> \<open>Raft_Api\<close>, \<open>Queue_Client\<close>: what the host relies on of \<open>client_write\<close> (an accepted
    command is committed once, in order, and answered by its application) as locales,
    interpreted on a group whose log is applied by the machine of \<open>Queue_Sm\<close>.
  \<^item> \<open>Mq_Service\<close> (\<open>grpc.rs\<close>): publish, propose, forward, the channel cache, opening a
    stream, one worker iteration, the status tick. \<open>Cluster\<close>: the publish handlers of all
    nodes calling each other along leader hints.
  \<^item> \<open>Mpsc\<close>: tokio's bounded channel as a locale, interpreted on a list. \<open>Consume\<close>: the
    whole stream as an interleaving of workers, client and the rest of the cluster.
    \<open>Stream_Progress\<close>: what a connected stream can still deliver. \<open>Stream_Forward\<close>: a
    follower's worker, whose fetch runs a stream on the leader. \<open>Competing\<close>: any number of
    streams on any nodes.
  \<^item> \<open>Host_Main\<close> (\<open>main.rs\<close>): the peer list, who bootstraps, the bootstrap and the
    registration loops. \<open>Host_Start\<close>: all of \<open>main\<close> as one definition, from the environment
    to the servers, with every early return and panic. \<open>Status_Http\<close> (\<open>status_http.rs\<close>);
    \<open>Status_Stream\<close>: status reports over the time in which a node applies entries.
  \<^item> \<open>Mq_Client\<close> (\<open>Blun.Mq.Client\<close>). \<open>Bench\<close>, \<open>Producer\<close>, \<open>Consumer\<close> (\<open>demo\<close>) with
    \<open>Throughput\<close>, their logging task. \<open>Demo_System\<close>: producer and consumer on one
    cluster. \<open>Build_Script\<close> (both \<open>build.rs\<close>).
  \<^item> This theory: what a purge does to a restart, and what an overflow does to the rest of
    the node.

  \<^bold>\<open>What is shown.\<close> Queues: exactly-once delivery in order by the state machine, refinement
  of the abstract queue, well-formed state through every operation, convergence of replicas,
  catching up by snapshot, counters at their bound and past it. Log store: every operation and every run
  of operations refines an abstract log, read through any handle; while nothing was purged a
  restart contradicts no answer and loses no registration.
  Transport: a remote call is the remote instance's step, for either group.
  Service: a publish commits one command, on the leader, through a follower and through any
  chain of stale leader hints, and nothing without a leader. Streams: conservation of
  messages while connected, delivery is always possible, a bound on what a stream can lose
  (160 messages and one for each failed write), no message twice over all streams of a
  cluster. Start-up: one node bootstraps,
  within a bound; the groups are separate; the parts of a host see one queue; nothing but
  the peer list panics. Status: reports are true states in order. Programs: what the demos
  count is what happened, and from producer to consumer no message arrives twice.
  The following behaviours of the code are shown as theorems as well: a snapshot builder sees
  entries applied after it was taken; built snapshots are not kept; a popped message
  whose stream was dropped is lost to every consumer; followers never register; a restart after a purge is refused by the store; a
  truncated tail stays visible until the next append.

  \<^bold>\<open>Bounds and fuel.\<close> Offsets and log indexes are 64-bit words; statements about whole runs
  assume fewer than \<open>2 ^ 64\<close> commands, below which no counter wraps. The registration loop
  has no bound in the code; its model takes the number of attempts as fuel and \<open>None\<close> means
  that it has not ended, so that its theorems are about every number of attempts. A publish
  that is forwarded from node to node takes as fuel the number of handlers that may be
  entered; one more than the cluster has members is enough, because hints only lead to a
  leader or to a node with a later term. All other loops are total.

  \<^bold>\<open>Not modelled.\<close> Consensus itself (openraft), time except as sleeps that are counted or
  interleaved, HTTP routing (axum's, over the two handlers that are modelled), logging and
  printing, generated code and the generators, and the parts in other languages. The task
  that reads a consumer's further messages and drops them has no effect on the modelled
  state. A call of \<open>client_write\<close> is atomic at its commit; what other clients do happens
  between calls. A task of the producer counts the answer to its publish in a later step than
  the publish takes effect in, and a request whose connection is lost may take effect after
  its task has counted a failure. The remaining lines of the sources are imports, module and type alias
  declarations, derived traits and the headers of \<open>impl\<close> blocks.
\<close>

section \<open>Starting again from the log\<close>

text \<open>A log of two publishes in the in-memory engine, for the witnesses.\<close>

definition two_publishes :: "(nat, QueueRequest, nat) Entry list" where
  "two_publishes = [normal_at 1 (Publish ''q'' [5]), normal_at 2 (Publish ''q'' [6])]"

definition publish_log :: "(nat, QueueRequest, nat, nat) raft_log" where
  "publish_log = empty_log\<lparr>rl_entries := two_publishes\<rparr>"

lemma mem_publish_log: "\<exists>e. stores mem_kv mem_ents mem_ok queue_codecs e publish_log"
proof -
  have nh: "no_hole (rl_entries (empty_log :: (nat, QueueRequest, nat, nat) raft_log)) two_publishes"
    by (simp add: no_hole_def empty_log_def all_less_Suc two_publishes_def)
  with mem_append [OF mem_empty_stores] obtain e' where
    "log_append mem_api queue_codecs mem_empty two_publishes = (Inr (), e', [Inr ()])" by blast
  from mem_log.append_stored [OF mem_empty_stores this nh] show ?thesis
    by (auto simp: spec_append_def empty_log_def publish_log_def)
qed

lemma replay_two:
  "replay (QueueState_apply checks) QueueResponse_default QueueState_default two_publishes =
   (Returned [\<lparr>published_offset = Some 0, popped = None\<rparr>, \<lparr>published_offset = Some 1, popped = None\<rparr>],
    \<lparr>queues = fmupd ''q'' [(0, [5]), (1, [6])] fmempty, next_offset = fmupd ''q'' 2 fmempty\<rparr>)"
  by (simp add: two_publishes_def entry_cmd_def QueueState_default_eq or_insert_def add_u64_def Let_def)

lemma replay_second:
  "replay (QueueState_apply checks) QueueResponse_default QueueState_default
     [normal_at 2 (Publish ''q'' [6])] =
   (Returned [\<lparr>published_offset = Some 0, popped = None\<rparr>],
    \<lparr>queues = fmupd ''q'' [(0, [6])] fmempty, next_offset = fmupd ''q'' 1 fmempty\<rparr>)"
  by (simp add: entry_cmd_def QueueState_default_eq or_insert_def add_u64_def Let_def)

lemma u64_range:
  "\<lbrakk>1 \<le> i; i < (3 :: u64)\<rbrakk> \<Longrightarrow> i = 1 \<or> i = 2" "\<lbrakk>2 \<le> i; i < (3 :: u64)\<rbrakk> \<Longrightarrow> i = 2"
  by (auto simp: word_le_nat_alt word_less_nat_alt word_unat_eq_iff)

text \<open>
  A restart rebuilds the queues while the log is whole. If the store holds every entry
  that a machine has applied since the empty state, then reading the log back and applying
  it to a new machine gives the same responses and the same queues and counters.
\<close>

theorem restart_rebuilds_the_queues:
  assumes "raft_engine api kv ents ok" and "codecs_ok js" and "stores kv ents ok js e a"
    and "first \<le> stop"
    and "\<And>i. \<lbrakk>first \<le> i; i < stop\<rbrakk> \<Longrightarrow> i \<in> entry_index ` set (rl_entries a)"
    and "\<And>x. x \<in> set (rl_entries a) \<Longrightarrow> first \<le> entry_index x \<and> entry_index x < stop"
    and "h (sm_state s) = mutex_new QueueState_default" and "g (sm_state t) = mutex_new QueueState_default"
    and "concat ess = rl_entries a"
    and "sm_apply_batches checks h s ess = (Returned (Inr rs), h', s')"
    and "length (rl_entries a) < 2 ^ 64"
  shows "\<exists>g' t'. startup_replay checks api js (sm_apply checks) e first stop g t = Some (Returned (Inr rs), g', t')
    \<and> g' (sm_state t) = h' (sm_state s)"
proof -
  obtain xs w where r: "replay (QueueState_apply checks) QueueResponse_default QueueState_default (rl_entries a) =
      (Returned xs, w)"
    by (rule queue_log_replays [OF assms(11)])
  from sm_apply_batches_replay [of h s, OF assms(7), of checks ess xs w] r assms(9,10)
  have "rs = xs" "h' (sm_state s) = mutex_new w" by auto
  moreover have "startup_replay checks api js (sm_apply checks) e first stop g t =
      Some (Returned (Inr xs), g(sm_state t := mutex_new w), fold sm_record (rl_entries a) t)"
    by (rule startup_replay_stored [where v = QueueState_default, OF assms(1-4)]) (use assms r in auto)
  ultimately show ?thesis by simp
qed

theorem restart_rebuilds_the_queues_witness:
  "\<exists>e g' t'. stores mem_kv mem_ents mem_ok queue_codecs e publish_log \<and>
     startup_replay True mem_api queue_codecs (sm_apply True) e 1 3 fresh_heap (fresh_machine 4) =
       Some (Returned (Inr [\<lparr>published_offset = Some 0, popped = None\<rparr>,
         \<lparr>published_offset = Some 1, popped = None\<rparr>]), g', t') \<and>
     queues (guarded (g' 4)) = fmupd ''q'' [(0, [5]), (1, [6])] fmempty"
proof -
  obtain e where e: "stores mem_kv mem_ents mem_ok queue_codecs e publish_log"
    using mem_publish_log by blast
  have es: "rl_entries publish_log = two_publishes" by (simp add: publish_log_def)
  have ran: "sm_apply_batches True fresh_heap (fresh_machine 0) [two_publishes] =
      (Returned (Inr [\<lparr>published_offset = Some 0, popped = None\<rparr>, \<lparr>published_offset = Some 1, popped = None\<rparr>]),
       fresh_heap(0 := mutex_new
         \<lparr>queues = fmupd ''q'' [(0, [5]), (1, [6])] fmempty, next_offset = fmupd ''q'' 2 fmempty\<rparr>),
       fold sm_record two_publishes (fresh_machine 0))"
    using sm_apply_batches_replay [of fresh_heap "fresh_machine 0" QueueState_default True "[two_publishes]"]
      replay_two [of True] by simp
  have idx: "i \<in> entry_index ` set (rl_entries publish_log)" if "1 \<le> i" "i < 3" for i
    using u64_range(1) [OF that] by (auto simp: es two_publishes_def)
  have "\<exists>g' t'. startup_replay True mem_api queue_codecs (sm_apply True) e 1 3 fresh_heap (fresh_machine 4) =
      Some (Returned (Inr [\<lparr>published_offset = Some 0, popped = None\<rparr>,
         \<lparr>published_offset = Some 1, popped = None\<rparr>]), g', t')
    \<and> g' (sm_state (fresh_machine 4)) = (fresh_heap(0 := mutex_new
         \<lparr>queues = fmupd ''q'' [(0, [5]), (1, [6])] fmempty, next_offset = fmupd ''q'' 2 fmempty\<rparr>))
           (sm_state (fresh_machine 0))"
    by (rule restart_rebuilds_the_queues [OF mem.raft_engine_axioms unary_codecs_ok e _ idx _ _ _ _ ran])
       (auto simp: es two_publishes_def word_le_nat_alt word_less_nat_alt)
  then obtain g' t' where "startup_replay True mem_api queue_codecs (sm_apply True) e 1 3 fresh_heap (fresh_machine 4) =
      Some (Returned (Inr [\<lparr>published_offset = Some 0, popped = None\<rparr>,
         \<lparr>published_offset = Some 1, popped = None\<rparr>]), g', t')"
    "g' 4 = mutex_new \<lparr>queues = fmupd ''q'' [(0, [5]), (1, [6])] fmempty, next_offset = fmupd ''q'' 2 fmempty\<rparr>"
    by auto
  with e show ?thesis by (intro exI [of _ e] exI [of _ g'] exI [of _ t']) simp
qed

text \<open>
  What is left of a purged log does not give the state. Reading what follows the purge index,
  which is all that the store still holds, and applying it to a new machine gives the state
  of those entries alone: what the purged entries published is gone and offsets are counted
  from 0 again.
\<close>

theorem restart_after_purge_forgets:
  assumes "raft_engine api kv ents ok" and "codecs_ok js" and "stores kv ents ok js e a"
    and "purge checks api js e lid = (Inr (), e')" and "index lid < stop"
    and "\<And>i. \<lbrakk>index lid < i; i < stop\<rbrakk> \<Longrightarrow> i \<in> entry_index ` set (rl_entries a)"
    and "\<And>x. x \<in> set (rl_entries a) \<Longrightarrow> entry_index x < stop"
    and "h (sm_state s) = mutex_new QueueState_default"
    and "replay (QueueState_apply checks) QueueResponse_default QueueState_default
      (filter (\<lambda>x. index lid < entry_index x) (rl_entries a)) = (Returned rs, w)"
  shows "\<exists>s'. startup_replay checks api js (sm_apply checks) e' (index lid + 1) stop h s =
    Some (Returned (Inr rs), h(sm_state s := mutex_new w), s')"
proof -
  have nm: "index lid \<noteq> u64_max"
    using assms(5) unat_u64_less [of stop] by (auto simp: word_less_nat_alt unat_u64_max)
  have st: "stores kv ents ok js e' (spec_purge lid a)"
    by (rule log_store.purge_stored [OF log_storeI [OF assms(1,2)] assms(3,4) nm])
  have "startup_replay checks api js (sm_apply checks) e' (index lid + 1) stop h s =
      Some (Returned (Inr rs), h(sm_state s := mutex_new w), fold sm_record (rl_entries (spec_purge lid a)) s)"
    by (rule startup_replay_stored [where v = QueueState_default, OF assms(1,2) st])
       (use assms(5-9) in \<open>auto simp: spec_purge_def u64_Suc_le [OF nm]\<close>)
  then show ?thesis by blast
qed

theorem restart_after_purge_forgets_witness:
  "\<exists>e e' g' s'. stores mem_kv mem_ents mem_ok queue_codecs e publish_log \<and>
     purge True mem_api queue_codecs e \<lparr>leader_id = 1, index = 1\<rparr> = (Inr (), e') \<and>
     startup_replay True mem_api queue_codecs (sm_apply True) e' 2 3 fresh_heap (fresh_machine 0) =
       Some (Returned (Inr [\<lparr>published_offset = Some 0, popped = None\<rparr>]), g', s') \<and>
     queues (guarded (g' 0)) = fmupd ''q'' [(0, [6])] fmempty"
proof -
  let ?lid = "\<lparr>leader_id = 1 :: nat, index = 1\<rparr>"
  obtain e where e: "stores mem_kv mem_ents mem_ok queue_codecs e publish_log"
    using mem_publish_log by blast
  obtain e' where p: "purge True mem_api queue_codecs e ?lid = (Inr (), e')"
    using mem_purge [of ?lid True e] by (auto simp: u64_max_def)
  have es: "rl_entries publish_log = two_publishes" by (simp add: publish_log_def)
  have suffix: "filter (\<lambda>x. index ?lid < entry_index x) (rl_entries publish_log) = [normal_at 2 (Publish ''q'' [6])]"
    by (simp add: es two_publishes_def word_less_nat_alt)
  have "\<exists>s'. startup_replay True mem_api queue_codecs (sm_apply True) e' (index ?lid + 1) 3 fresh_heap (fresh_machine 0) =
      Some (Returned (Inr [\<lparr>published_offset = Some 0, popped = None\<rparr>]),
        fresh_heap(sm_state (fresh_machine 0) := mutex_new
          \<lparr>queues = fmupd ''q'' [(0, [6])] fmempty, next_offset = fmupd ''q'' 1 fmempty\<rparr>), s')"
  proof (rule restart_after_purge_forgets [OF mem.raft_engine_axioms unary_codecs_ok e p])
    fix i :: u64 assume "index ?lid < i" "i < 3"
    then have "i = 2" by (auto simp: word_less_nat_alt word_unat_eq_iff)
    then show "i \<in> entry_index ` set (rl_entries publish_log)" by (simp add: es two_publishes_def)
  next
    show "replay (QueueState_apply True) QueueResponse_default QueueState_default
        (filter (\<lambda>x. index ?lid < entry_index x) (rl_entries publish_log)) =
      (Returned [\<lparr>published_offset = Some 0, popped = None\<rparr>],
       \<lparr>queues = fmupd ''q'' [(0, [6])] fmempty, next_offset = fmupd ''q'' 1 fmempty\<rparr>)"
      unfolding suffix by (rule replay_second)
  qed (auto simp: es two_publishes_def word_less_nat_alt)
  with e p show ?thesis by fastforce
qed

text \<open>
  C19: after a purge a node is not recovered from its log. Once a committed log is purged up to
  some index and entries after it remain, the read that a restart makes, from the beginning
  of the log up to the committed id, is refused by the store, whichever group's machine it is
  for; the snapshots that hold the purged part were kept in memory only.
\<close>

theorem restart_after_purge_is_refused:
  assumes "raft_engine api kv ents ok" and "codecs_ok js" and "stores kv ents ok js e a"
    and "rl_committed a = Some c" and "index c \<noteq> u64_max"
    and "x \<in> set (rl_entries a)" and "index lid < entry_index x"
    and "purge checks api js e lid = (Inr (), e')"
  shows "recover checks api js apply_entries e' h machine = None"
proof -
  have "index lid \<noteq> u64_max"
    using assms(7) unat_u64_less [of "entry_index x"] by (auto simp: word_less_nat_alt unat_u64_max)
  then have st: "stores kv ents ok js e' (spec_purge lid a)"
    by (rule log_store.purge_stored [OF log_storeI [OF assms(1,2)] assms(3,8)])
  let ?es = "rl_entries (spec_purge lid a)"
  have ne: "?es \<noteq> []" using assms(6,7) by (auto simp: spec_purge_def filter_empty_conv)
  then have "hd ?es \<in> set ?es" by simp
  then have "0 < entry_index (hd ?es)" by (auto simp: spec_purge_def word_less_nat_alt)
  then show ?thesis
    by (rule recover_compacted [OF assms(1,2) st ne _ _ assms(5)]) (simp add: spec_purge_def assms(4))
qed

theorem restart_after_purge_is_refused_witness:
  "\<exists>e e'. stores mem_kv mem_ents mem_ok queue_codecs e
       (publish_log\<lparr>rl_committed := Some \<lparr>leader_id = 1, index = 2\<rparr>\<rparr>) \<and>
     purge True mem_api queue_codecs e \<lparr>leader_id = 1, index = 1\<rparr> = (Inr (), e') \<and>
     recover True mem_api queue_codecs (sm_apply True) e' fresh_heap (fresh_machine 0) = None"
proof -
  let ?lid = "\<lparr>leader_id = 1 :: nat, index = 1\<rparr>" and ?c = "\<lparr>leader_id = 1 :: nat, index = 2\<rparr>"
  obtain d where d: "stores mem_kv mem_ents mem_ok queue_codecs d publish_log" using mem_publish_log by blast
  obtain e where "save_committed mem_api queue_codecs d (Some ?c) = (Inr (), e)" using mem_save_committed by blast
  note e = mem_log.save_committed_stored [OF d this]
  obtain e' where p: "purge True mem_api queue_codecs e ?lid = (Inr (), e')"
    using mem_purge [of ?lid True e] by (auto simp: u64_max_def)
  have "recover True mem_api queue_codecs (sm_apply True) e' fresh_heap (fresh_machine 0) = None"
    by (rule restart_after_purge_is_refused [OF mem.raft_engine_axioms unary_codecs_ok e _ _ _ _ p,
          where c = ?c and x = "normal_at 2 (Publish ''q'' [6])"])
       (simp_all add: publish_log_def two_publishes_def u64_max_def word_less_nat_alt)
  with e p show ?thesis by blast
qed

section \<open>When a counter overflows\<close>

text \<open>
  An overflow under checks also takes the node's status away. The status handlers read
  the same cell as the state machine, so after the publish that panics both the gRPC status
  stream and the HTTP status page panic on the poisoned lock.
\<close>

theorem overflow_stops_the_status:
  assumes "h (sm_state s) = mutex_new v" and "get_or (next_offset v) q 0 = u64_max"
    and "entry_payload e = Normal (Publish q p)"
    and "svc_state self = sm_state s" and "ss_queue_state state = sm_state s"
  shows "\<exists>h' s'. sm_apply True h s [e] = (Panicked ArithmeticOverflow, h', s')
    \<and> watch_status_tick self h' nl ql = Panicked PoisonedLock
    \<and> status_once state h' nl ql = Panicked PoisonedLock
    \<and> status_stream_event json_data state h' nl ql = Panicked PoisonedLock"
proof -
  let ?h = "h(sm_state s := \<lparr>guarded = v, poisoned = True\<rparr>)"
  have "entry_cmd (QueueState_apply True) QueueResponse_default v e = (Panicked ArithmeticOverflow, v)"
    using assms(2,3) by (simp add: entry_cmd_def apply_Publish_overflow del: QueueState_apply.simps)
  then have "entry_locked (QueueState_apply True) QueueResponse_default h (sm_state s) e =
      (Panicked ArithmeticOverflow, ?h)"
    by (rule entry_locked_Panicked [of h "sm_state s", OF assms(1)])
  then have "sm_apply True h s [e] = (Panicked ArithmeticOverflow, ?h, sm_record e s)"
    by (simp add: sm_apply_def sm_loop_Cons del: sm_apply_loop.simps(2))
  with assms(4,5) show ?thesis
    by (simp add: watch_status_tick_def status_once_def status_stream_event_def StatusState_payload_def
        with_lock_def)
qed

theorem overflow_stops_the_status_witness:
  "\<exists>h' s'. sm_apply True
      (\<lambda>_. mutex_new \<lparr>queues = fmempty, next_offset = fmupd ''q'' u64_max fmempty\<rparr>)
      (fresh_machine 0) [normal_at 9 (Publish ''q'' [1])] = (Panicked ArithmeticOverflow, h', s')
    \<and> watch_status_tick (svc ''node-1'') h' None (Some 1) = Panicked PoisonedLock"
  using overflow_stops_the_status [of
      "\<lambda>_. mutex_new \<lparr>queues = fmempty, next_offset = fmupd ''q'' u64_max fmempty\<rparr>" "fresh_machine 0"
      "\<lparr>queues = fmempty, next_offset = fmupd ''q'' u64_max fmempty\<rparr>" "''q''"
      "normal_at 9 (Publish ''q'' [1])" "[1]" "svc ''node-1''" "\<lparr>ss_node_id = ''node-1'', ss_queue_state = 0\<rparr>"
      None "Some 1" "\<lambda>p. Inr p"]
  by (auto simp: svc_def)

end
